(* ===== verification/Prelude.thy ===== *)
theory Prelude
  imports Main "HOL-Library.Multiset" "HOL-Library.Word"
begin

text \<open>
  Shared material of the development: the result type of the C operations, its
  sequencing, the fact collections the component theories fill, and lemmas on lists
  that the binary heap and the string routines share.
\<close>

section \<open>Fact collections\<close>

named_theorems queue_frame \<open>which fields of the queue an operation leaves alone\<close>
named_theorems queue_inv \<open>operations that preserve the queue invariants\<close>
named_theorems easing_defs \<open>the easing equations of the easing plugin\<close>
named_theorems slider_frame \<open>which fields of the slider an operation leaves alone\<close>

section \<open>Results of C code\<close>

text \<open>
  \<open>OutOfBounds\<close> is an array access outside the array: undefined behaviour in C, where
  the model stops. \<open>Uninitialised\<close> is a read of a variable or a buffer cell that was
  never written. \<open>Died\<close> is \<open>exit(EXIT_FAILURE)\<close> through \<open>die()\<close>. \<open>Spinning\<close> marks a
  script of system call results that has run out while the code still loops.
\<close>

datatype c_error = OutOfBounds | Uninitialised | Died string | Spinning

text \<open>What the scripts of the site can throw.\<close>

datatype script_error = SyntaxError | ReferenceError | TypeError

text \<open>\<open>die(...)\<close> prints its message into \<open>buffer[CHAR_MAX]\<close> before it ends the program.\<close>

definition die :: "string \<Rightarrow> c_error" where
  "die m = (if length m < 127 then Died m else OutOfBounds)"

type_synonym 'a res = "c_error + 'a"

definition res_bind :: "'e + 'a \<Rightarrow> ('a \<Rightarrow> 'e + 'b) \<Rightarrow> 'e + 'b" where
  "res_bind m f = (case m of Inl e \<Rightarrow> Inl e | Inr x \<Rightarrow> f x)"

lemma res_bind_simps [simp]:
  "res_bind (Inl e) f = Inl e"
  "res_bind (Inr x) f = f x"
  by (simp_all add: res_bind_def)

lemma res_bind_Inr_iff:
  "res_bind m f = Inr y \<longleftrightarrow> (\<exists>x. m = Inr x \<and> f x = Inr y)"
  by (cases m) auto

lemma res_bind_InrE [elim!]:
  assumes "res_bind m f = Inr y"
  obtains x where "m = Inr x" "f x = Inr y"
  using assms by (auto simp: res_bind_Inr_iff)

lemma res_bind_cong [fundef_cong]:
  assumes "m = m'" and "\<And>x. m' = Inr x \<Longrightarrow> f x = g x"
  shows "res_bind m f = res_bind m' g"
  using assms by (cases m') auto

section \<open>Swapping two cells of a list\<close>

definition swap_cells :: "'a list \<Rightarrow> nat \<Rightarrow> nat \<Rightarrow> 'a list" where
  "swap_cells xs i j = xs[i := xs ! j, j := xs ! i]"

lemma length_swap_cells [simp]: "length (swap_cells xs i j) = length xs"
  by (simp add: swap_cells_def)

lemma nth_swap_cells:
  assumes "i < length xs" "j < length xs"
  shows "swap_cells xs i j ! k = (if k = i then xs ! j else if k = j then xs ! i else xs ! k)"
  using assms by (auto simp: swap_cells_def nth_list_update)

lemma take_swap_cells:
  assumes "i < n" "j < n" "n \<le> length xs"
  shows "take n (swap_cells xs i j) = swap_cells (take n xs) i j"
  using assms by (simp add: swap_cells_def take_update_swap)

lemma mset_swap_cells [simp]:
  assumes "i < length xs" "j < length xs"
  shows "mset (swap_cells xs i j) = mset xs"
  using mset_swap [of j xs i] assms by (simp add: swap_cells_def)

lemma mset_take_swap_cells:
  assumes "i < n" "j < n" "n \<le> length xs"
  shows "mset (take n (swap_cells xs i j)) = mset (take n xs)"
  using assms by (simp add: take_swap_cells)

lemma mset_take_Suc_update:
  assumes "n < length xs"
  shows "mset (take (Suc n) (xs[n := x])) = add_mset x (mset (take n xs))"
  using assms by (simp add: take_Suc_conv_app_nth)

lemma mset_update_minus:
  assumes "i < length xs"
  shows "mset (xs[i := y]) = add_mset y (mset xs - {#xs ! i#})"
  using assms by (rule mset_update)

end
