(* ===== verification/Queue_Connections.thy ===== *)
theory Queue_Connections
  imports Prelude
begin

text \<open>
  The queue of client connections (\<open>src/queue_connections.c\<close> with
  \<open>include/queue_connections.h\<close> and the constants of \<open>include/server.h\<close>): an
  array-based binary min-heap ordered by \<open>priorityTime\<close>, and the array \<open>indexQueue\<close> that
  maps a client descriptor to its position in the heap (\<open>-1\<close> when absent).

  Array positions are \<open>nat\<close>, the entries of \<open>indexQueue\<close> and descriptors are \<open>int\<close>.
  An access of \<open>indexQueue\<close> or \<open>connections\<close> outside the array is \<open>Inl OutOfBounds\<close>.
  \<open>time(NULL)\<close> and the block \<open>malloc\<close> returns are arguments of the operations that call
  them. A pointer field is \<open>None\<close> for \<open>NULL\<close> and \<open>Some\<close> of the block's contents
  otherwise; \<open>freeConnection\<close> is the list of the blocks it frees and the descriptor it
  closes. Logging is left out.
\<close>

section \<open>Data\<close>

definition MAX_EPOLL_EVENTS :: nat where "MAX_EPOLL_EVENTS = 1024"
definition BUFFER_REQUEST_SIZE :: nat where "BUFFER_REQUEST_SIZE = 1024"
definition KEEP_ALIVE_TIMEOUT :: int where "KEEP_ALIVE_TIMEOUT = 60"

datatype Method = METHOD_GET | METHOD_POST | METHOD_PUT | METHOD_PATCH | METHOD_DELETE
  | METHOD_HEAD | METHOD_OPTIONS | METHOD_UNSUPPORTED

definition methodsList :: "string list" where
  "methodsList =
     [''GET'', ''POST'', ''PUT'', ''PATCH'', ''DELETE'', ''HEAD'', ''OPTIONS'', ''UNSUPPORTED'']"

datatype stateConnection = STATE_CONNECTION_RECV | STATE_CONNECTION_SEND_HEADERS
  | STATE_CONNECTION_SEND_BODY | STATE_CONNECTION_DONE | STATE_CONNECTION_DONE_FOR_CLOSE

datatype contentEncoding = CONTENT_ENCODING_NONE | CONTENT_ENCODING_GZIP
  | CONTENT_ENCODING_DEFLATE | CONTENT_ENCODING_BROTLI

record QueueConnectionElementType =
  priorityTime :: int
  clientFd :: int
  state :: stateConnection
  requestBuffer :: "string option"
  requestBufferLength :: nat
  requestBufferOffset :: nat
  keepAlive :: bool
  responseBufferHeaders :: "string option"
  responseBufferHeadersLength :: nat
  responseBufferHeadersOffset :: nat
  bodyFd :: int
  bodyLength :: nat
  bodyOffset :: nat
  contentEncoding :: contentEncoding
  scheme :: string
  protocolVersion :: string
  req_method :: Method
  path :: "string option"
  absolutePath :: "string option"
  requestHeaders :: "(string \<times> string) list option"
  requestBody :: "string option"
  ip :: string
  responseStatusCode :: nat

record QueueConnectionsType =
  currentSize :: nat
  capacity :: nat
  indexQueue :: "int list"
  connections :: "QueueConnectionElementType list"

type_synonym element = QueueConnectionElementType
type_synonym queue = QueueConnectionsType

text \<open>Resources a connection gives back when it is freed.\<close>

datatype released = CloseBody int | FreePath | FreeAbsolutePath | FreeRequestBuffer
  | FreeResponseHeaders | FreeRequestHeaders | FreeRequestBody

section \<open>Operations\<close>

text \<open>\<open>difftime\<close> of the C library, on times that a double represents exactly.\<close>

definition difftime :: "int \<Rightarrow> int \<Rightarrow> int" where
  "difftime a b = a - b"

definition leftChildHeap :: "nat \<Rightarrow> nat" where "leftChildHeap i = 2 * i + 1"
definition rightChildHeap :: "nat \<Rightarrow> nat" where "rightChildHeap i = 2 * i + 2"
definition parentHeap :: "nat \<Rightarrow> nat" where "parentHeap i = (i - 1) div 2"

definition swapConnectionElementHeap :: "'a list \<Rightarrow> nat \<Rightarrow> nat \<Rightarrow> 'a list" where
  "swapConnectionElementHeap xs a b = swap_cells xs a b"

definition emptyConnection :: element where
  "emptyConnection = \<lparr>priorityTime = 0, clientFd = 0, state = STATE_CONNECTION_RECV,
     requestBuffer = None, requestBufferLength = 0, requestBufferOffset = 0,
     keepAlive = False, responseBufferHeaders = None, responseBufferHeadersLength = 0,
     responseBufferHeadersOffset = 0, bodyFd = -1, bodyLength = 0, bodyOffset = 0,
     contentEncoding = CONTENT_ENCODING_NONE, scheme = [], protocolVersion = [],
     req_method = METHOD_GET, path = None, absolutePath = None, requestHeaders = None,
     requestBody = None, ip = [], responseStatusCode = 200\<rparr>"

text \<open>The all-zero element \<open>memset\<close> leaves in the slots of a fresh queue.\<close>

definition zeroConnection :: element where
  "zeroConnection = emptyConnection\<lparr>bodyFd := 0, responseStatusCode := 0\<rparr>"

definition createQueueConnections :: queue where
  "createQueueConnections =
     \<lparr>currentSize = 0, capacity = MAX_EPOLL_EVENTS,
      indexQueue = replicate MAX_EPOLL_EVENTS (-1),
      connections = replicate MAX_EPOLL_EVENTS zeroConnection\<rparr>"

definition freeConnection :: "element \<Rightarrow> released list" where
  "freeConnection c =
     (if bodyFd c > 0 then [CloseBody (bodyFd c)] else []) @
     (if path c \<noteq> None then [FreePath] else []) @
     (if absolutePath c \<noteq> None then [FreeAbsolutePath] else []) @
     (if requestBuffer c \<noteq> None then [FreeRequestBuffer] else []) @
     (if responseBufferHeaders c \<noteq> None then [FreeResponseHeaders] else []) @
     (if requestHeaders c \<noteq> None then [FreeRequestHeaders] else []) @
     (if requestBody c \<noteq> None then [FreeRequestBody] else [])"

text \<open>The checked array accesses.\<close>

definition getIndex :: "queue \<Rightarrow> int \<Rightarrow> int res" where
  "getIndex q fd =
     (if 0 \<le> fd \<and> nat fd < length (indexQueue q) then Inr (indexQueue q ! nat fd)
      else Inl OutOfBounds)"

definition setIndex :: "queue \<Rightarrow> int \<Rightarrow> int \<Rightarrow> queue res" where
  "setIndex q fd v =
     (if 0 \<le> fd \<and> nat fd < length (indexQueue q)
      then Inr (q\<lparr>indexQueue := (indexQueue q)[nat fd := v]\<rparr>) else Inl OutOfBounds)"

definition getConn :: "queue \<Rightarrow> int \<Rightarrow> element res" where
  "getConn q i =
     (if 0 \<le> i \<and> nat i < length (connections q) then Inr (connections q ! nat i)
      else Inl OutOfBounds)"

definition setConn :: "queue \<Rightarrow> int \<Rightarrow> element \<Rightarrow> queue res" where
  "setConn q i c =
     (if 0 \<le> i \<and> nat i < length (connections q)
      then Inr (q\<lparr>connections := (connections q)[nat i := c]\<rparr>) else Inl OutOfBounds)"

text \<open>
  The shift-up loop that \<open>enqueueConnection\<close> and \<open>updateQueueConnection\<close> both contain:
  it swaps cells of \<open>connections\<close> and never writes \<open>indexQueue\<close>.
\<close>

function shiftUp :: "element list \<Rightarrow> int \<Rightarrow> nat \<Rightarrow> element list \<times> nat" where
  "shiftUp xs t i =
     (if i \<noteq> 0 \<and> difftime t (priorityTime (xs ! parentHeap i)) < 0
      then shiftUp (swapConnectionElementHeap xs i (parentHeap i)) t (parentHeap i)
      else (xs, i))"
  by pat_completeness auto
termination
  by (relation "measure (\<lambda>(xs, t, i). i)") (auto simp: parentHeap_def)

declare shiftUp.simps [simp del]

definition enqueueConnection :: "queue \<Rightarrow> element \<Rightarrow> queue res" where
  "enqueueConnection q c =
     (if currentSize q = capacity q then Inr q
      else res_bind (setConn q (int (currentSize q)) c) (\<lambda>q1.
        let q2 = q1\<lparr>currentSize := currentSize q1 + 1\<rparr>;
            (xs, i) = shiftUp (connections q2) (priorityTime c) (currentSize q2 - 1);
            q3 = q2\<lparr>connections := xs\<rparr>
        in setIndex q3 (clientFd c) (int i)))"

definition existsConnection :: "queue \<Rightarrow> int \<Rightarrow> bool res" where
  "existsConnection q fd = res_bind (getIndex q fd) (\<lambda>i. Inr (i \<noteq> -1))"

text \<open>
  \<open>shiftDown\<close>. The bounds of the accesses: \<open>left\<close> and \<open>right\<close> are compared with
  \<open>currentSize\<close> before they index \<open>connections\<close>; \<open>index\<close> is the caller's.
\<close>

definition smallestChild :: "queue \<Rightarrow> nat \<Rightarrow> nat" where
  "smallestChild q index =
     (let left = leftChildHeap index; right = rightChildHeap index; smallest = index;
          smallest = (if left < currentSize q \<and>
                difftime (priorityTime (connections q ! left))
                  (priorityTime (connections q ! smallest)) < 0
              then left else smallest);
          smallest = (if right < currentSize q \<and>
                difftime (priorityTime (connections q ! right))
                  (priorityTime (connections q ! smallest)) < 0
              then right else smallest)
      in smallest)"

lemma currentSize_setIndex [queue_frame]:
  "setIndex q fd v = Inr q' \<Longrightarrow> currentSize q' = currentSize q"
  by (auto simp: setIndex_def split: if_splits)

lemma smallestChild_bounds:
  assumes "smallestChild q i \<noteq> i"
  shows "i < smallestChild q i \<and> smallestChild q i < currentSize q"
  using assms by (auto simp: smallestChild_def leftChildHeap_def rightChildHeap_def Let_def
      split: if_splits)

definition swapReindex :: "queue \<Rightarrow> nat \<Rightarrow> nat \<Rightarrow> queue res" where
  "swapReindex q index smallest =
     (let q1 = q\<lparr>connections :=
                  swapConnectionElementHeap (connections q) index smallest\<rparr>
      in res_bind (setIndex q1 (clientFd (connections q1 ! index)) (int index)) (\<lambda>q2.
         setIndex q2 (clientFd (connections q2 ! smallest)) (int smallest)))"

lemma currentSize_swapReindex [queue_frame]:
  "swapReindex q i s = Inr q' \<Longrightarrow> currentSize q' = currentSize q"
  by (auto simp: swapReindex_def Let_def dest!: currentSize_setIndex)

function heapify :: "queue \<Rightarrow> nat \<Rightarrow> queue res" where
  "heapify q index =
     (let smallest = smallestChild q index in
      if smallest \<noteq> index
      then res_bind (swapReindex q index smallest) (\<lambda>q'. heapify q' smallest)
      else Inr q)"
  by pat_completeness auto
termination
proof (relation "measure (\<lambda>(q, i). currentSize q - i)", goal_cases)
  case 1
  show ?case by simp
next
  case (2 q index s q')
  from 2(1,2) have "index < s \<and> s < currentSize q"
    using smallestChild_bounds [of q index] by simp
  moreover have "currentSize q' = currentSize q"
    using currentSize_swapReindex [OF 2(3)] .
  ultimately have "currentSize q' - s < currentSize q - index" by linarith
  then show ?case by simp
qed

declare heapify.simps [simp del]

text \<open>
  \<open>getConnectionOrCreateByFd\<close> returns a pointer into \<open>connections\<close>: here, its
  position. \<open>mem\<close> is the block that \<open>malloc\<close> returns, its contents unspecified.
\<close>

definition freshConnection :: "int \<Rightarrow> int \<Rightarrow> string \<Rightarrow> element" where
  "freshConnection fd now mem =
     emptyConnection\<lparr>clientFd := fd, priorityTime := now, state := STATE_CONNECTION_RECV,
       requestBuffer := Some mem, requestBufferLength := BUFFER_REQUEST_SIZE\<rparr>"

definition getConnectionOrCreateByFd ::
    "queue \<Rightarrow> int \<Rightarrow> int \<Rightarrow> string \<Rightarrow> (queue \<times> nat) res" where
  "getConnectionOrCreateByFd q fd now mem =
     res_bind (getIndex q fd) (\<lambda>index.
     if index = -1 then
       res_bind (enqueueConnection q (freshConnection fd now mem)) (\<lambda>q1.
       res_bind (getIndex q1 fd) (\<lambda>index1.
       if index1 = -1 then Inl (Died ''getConnectionByFd: bad queue index'')
       else Inr (q1, nat index1)))
     else Inr (q, nat index))"

definition getConnectionByFd :: "queue \<Rightarrow> int \<Rightarrow> nat option res" where
  "getConnectionByFd q fd =
     res_bind (getIndex q fd) (\<lambda>index. Inr (if index = -1 then None else Some (nat index)))"

definition updateConnectionByFd :: "queue \<Rightarrow> element \<Rightarrow> queue res" where
  "updateConnectionByFd q c =
     res_bind (getIndex q (clientFd c)) (\<lambda>index.
     if index = -1 then Inl (Died ''updateConnectionByFd: bad queue index'')
     else setConn q index c)"

definition updateQueueConnection ::
    "queue \<Rightarrow> int \<Rightarrow> int \<Rightarrow> string \<Rightarrow> (queue \<times> released list) res" where
  "updateQueueConnection q fd now mem =
     res_bind (getIndex q fd) (\<lambda>index.
     res_bind (getConn q index) (\<lambda>old.
     let oldPriorityTime = priorityTime old; newPriorityTime = now in
     res_bind (setConn q index (freshConnection fd newPriorityTime mem)) (\<lambda>q1.
     if difftime newPriorityTime oldPriorityTime < 0 then
       let (xs, i) = shiftUp (connections q1) newPriorityTime (nat index) in
       res_bind (setIndex (q1\<lparr>connections := xs\<rparr>) fd (int i)) (\<lambda>q2.
       Inr (q2, freeConnection old))
     else res_bind (heapify q1 (nat index)) (\<lambda>q2. Inr (q2, freeConnection old)))))"

definition dequeueConnection :: "queue \<Rightarrow> (queue \<times> released list) res" where
  "dequeueConnection q =
     (if currentSize q = 0 then Inr (q, [])
      else
        res_bind (getConn q 0) (\<lambda>first.
        res_bind (getConn q (int (currentSize q) - 1)) (\<lambda>last.
        let fdFirst = clientFd first; fdLast = clientFd last; rel = freeConnection first in
        if fdFirst = fdLast then
          res_bind (setConn q 0 emptyConnection) (\<lambda>q1.
          res_bind (setIndex q1 fdFirst (-1)) (\<lambda>q2.
          Inr (q2\<lparr>currentSize := currentSize q2 - 1\<rparr>, rel)))
        else
          res_bind (setConn q 0 last) (\<lambda>q1.
          res_bind (setConn q1 (int (currentSize q1) - 1) emptyConnection) (\<lambda>q2.
          let q3 = q2\<lparr>currentSize := currentSize q2 - 1\<rparr> in
          res_bind (setIndex q3 fdFirst (-1)) (\<lambda>q4.
          res_bind (setIndex q4 fdLast 0) (\<lambda>q5.
          res_bind (heapify q5 0) (\<lambda>q6. Inr (q6, rel)))))))))"

definition dequeueConnectionByFd :: "queue \<Rightarrow> int \<Rightarrow> (queue \<times> released list) res" where
  "dequeueConnectionByFd q fd =
     (if currentSize q = 0 then Inr (q, [])
      else
        res_bind (getIndex q fd) (\<lambda>index.
        if index = -1 then Inr (q, [])
        else
          res_bind (getConn q index) (\<lambda>c.
          let rel = freeConnection c in
          res_bind (getConn q (int (currentSize q) - 1)) (\<lambda>last.
          let fdLast = clientFd last in
          if fdLast = fd then
            res_bind (setConn q (int (currentSize q) - 1) emptyConnection) (\<lambda>q1.
            res_bind (setIndex (q1\<lparr>currentSize := currentSize q1 - 1\<rparr>) fd (-1)) (\<lambda>q2.
            Inr (q2, rel)))
          else
            let q1 = q\<lparr>connections := swapConnectionElementHeap (connections q)
                         (nat index) (currentSize q - 1)\<rparr> in
            res_bind (setConn q1 (int (currentSize q1) - 1) emptyConnection) (\<lambda>q2.
            res_bind (setIndex (q2\<lparr>currentSize := currentSize q2 - 1\<rparr>) fd (-1)) (\<lambda>q3.
            res_bind (setIndex q3 fdLast index) (\<lambda>q4.
            res_bind (heapify q4 (nat index)) (\<lambda>q5. Inr (q5, rel)))))))))"

definition peekQueueConnections :: "queue \<Rightarrow> element option" where
  "peekQueueConnections q =
     (if currentSize q = 0 then None else Some (connections q ! 0))"

end
