(* ===== verification/Queue_Correct.thy ===== *)
theory Queue_Correct
  imports Queue_Connections
begin

text \<open>
  Correctness of the connection queue: the array bounds (\<open>wf_queue\<close>), the agreement of
  \<open>indexQueue\<close> with the positions in the heap (\<open>index_ok\<close>), the heap order
  (\<open>heap_ok\<close>), what each operation does to the stored connections (\<open>active\<close>, as a
  multiset, and \<open>connOf\<close>, as a finite map from descriptors), and the conditions under
  which it keeps the invariants.
\<close>

section \<open>Invariants and abstractions\<close>

definition wf_queue :: "queue \<Rightarrow> bool" where
  "wf_queue q \<longleftrightarrow> length (indexQueue q) = MAX_EPOLL_EVENTS \<and>
     length (connections q) = MAX_EPOLL_EVENTS \<and> capacity q = MAX_EPOLL_EVENTS \<and>
     currentSize q \<le> MAX_EPOLL_EVENTS"

definition valid_fd :: "int \<Rightarrow> bool" where
  "valid_fd fd \<longleftrightarrow> 0 \<le> fd \<and> nat fd < MAX_EPOLL_EVENTS"

definition index_ok :: "queue \<Rightarrow> bool" where
  "index_ok q \<longleftrightarrow>
     (\<forall>i < currentSize q. valid_fd (clientFd (connections q ! i)) \<and>
        indexQueue q ! nat (clientFd (connections q ! i)) = int i) \<and>
     (\<forall>k < MAX_EPOLL_EVENTS. indexQueue q ! k \<noteq> -1 \<longrightarrow>
        (\<exists>i < currentSize q. indexQueue q ! k = int i \<and>
           clientFd (connections q ! i) = int k))"

abbreviation prioAt :: "queue \<Rightarrow> nat \<Rightarrow> int" where
  "prioAt q i \<equiv> priorityTime (connections q ! i)"

definition heap_ok :: "queue \<Rightarrow> bool" where
  "heap_ok q \<longleftrightarrow>
     (\<forall>k. 0 < k \<and> k < currentSize q \<longrightarrow> prioAt q (parentHeap k) \<le> prioAt q k)"

definition active :: "queue \<Rightarrow> element list" where
  "active q = take (currentSize q) (connections q)"

definition connOf :: "queue \<Rightarrow> int \<Rightarrow> element option" where
  "connOf q fd =
     (if valid_fd fd \<and> indexQueue q ! nat fd \<noteq> -1
      then Some (connections q ! nat (indexQueue q ! nat fd)) else None)"

definition queue_ok :: "queue \<Rightarrow> bool" where
  "queue_ok q \<longleftrightarrow> wf_queue q \<and> index_ok q \<and> heap_ok q"

lemma wf_queueD:
  assumes "wf_queue q"
  shows "length (indexQueue q) = MAX_EPOLL_EVENTS" "length (connections q) = MAX_EPOLL_EVENTS"
    "capacity q = MAX_EPOLL_EVENTS" "currentSize q \<le> MAX_EPOLL_EVENTS"
  using assms by (simp_all add: wf_queue_def)

lemma index_okD:
  assumes "index_ok q" "i < currentSize q"
  shows "valid_fd (clientFd (connections q ! i))"
    "indexQueue q ! nat (clientFd (connections q ! i)) = int i"
  using assms by (auto simp: index_ok_def)

lemma index_okE:
  assumes "index_ok q" "valid_fd fd" "indexQueue q ! nat fd \<noteq> -1"
  obtains i where "i < currentSize q" "indexQueue q ! nat fd = int i"
    "clientFd (connections q ! i) = fd"
proof -
  from assms have "\<exists>i < currentSize q. indexQueue q ! nat fd = int i \<and>
      clientFd (connections q ! i) = int (nat fd)"
    unfolding index_ok_def valid_fd_def by blast
  moreover have "int (nat fd) = fd" using assms(2) by (simp add: valid_fd_def)
  ultimately show thesis using that by auto
qed

lemma index_ok_inj:
  assumes "index_ok q" "i < currentSize q" "j < currentSize q"
    "clientFd (connections q ! i) = clientFd (connections q ! j)"
  shows "i = j"
  using index_okD(2) [OF assms(1,2)] index_okD(2) [OF assms(1,3)] assms(4)
  by (metis of_nat_eq_iff)

lemma fd_differs:
  assumes "index_ok q" "i < currentSize q" "j < currentSize q" "i \<noteq> j"
  shows "clientFd (connections q ! i) \<noteq> clientFd (connections q ! j)"
  using index_ok_inj [OF assms(1-3)] assms(4) by blast

lemma index_okI:
  assumes "\<And>i. i < currentSize q \<Longrightarrow> valid_fd (clientFd (connections q ! i)) \<and>
      indexQueue q ! nat (clientFd (connections q ! i)) = int i"
    and "\<And>k. k < MAX_EPOLL_EVENTS \<Longrightarrow> indexQueue q ! k \<noteq> -1 \<Longrightarrow>
      (\<exists>i < currentSize q. indexQueue q ! k = int i \<and> clientFd (connections q ! i) = int k)"
  shows "index_ok q"
  using assms by (simp add: index_ok_def)

lemma valid_fd_nat_eq_iff [simp]:
  assumes "valid_fd a" "valid_fd b"
  shows "nat a = nat b \<longleftrightarrow> a = b"
  using assms by (auto simp: valid_fd_def)

lemma valid_fd_eq_int: "valid_fd a \<Longrightarrow> a = int k \<longleftrightarrow> nat a = k"
  by (auto simp: valid_fd_def)

lemma setIndex_valid:
  assumes "wf_queue q" "valid_fd fd"
  shows "setIndex q fd v = Inr (q\<lparr>indexQueue := (indexQueue q)[nat fd := v]\<rparr>)"
  using assms by (simp add: setIndex_def wf_queue_def valid_fd_def)

lemma getIndex_valid:
  assumes "wf_queue q" "valid_fd fd"
  shows "getIndex q fd = Inr (indexQueue q ! nat fd)"
  using assms by (simp add: getIndex_def wf_queue_def valid_fd_def)

lemma getIndex_invalid:
  assumes "wf_queue q" "\<not> valid_fd fd"
  shows "getIndex q fd = Inl OutOfBounds"
  using assms by (auto simp: getIndex_def wf_queue_def valid_fd_def)

lemma getConn_valid:
  assumes "wf_queue q" "i < MAX_EPOLL_EVENTS"
  shows "getConn q (int i) = Inr (connections q ! i)"
  using assms by (simp add: getConn_def wf_queue_def)

lemma setConn_valid:
  assumes "wf_queue q" "i < MAX_EPOLL_EVENTS"
  shows "setConn q (int i) c = Inr (q\<lparr>connections := (connections q)[i := c]\<rparr>)"
  using assms by (simp add: setConn_def wf_queue_def)

lemma length_active: "wf_queue q \<Longrightarrow> length (active q) = currentSize q"
  by (simp add: active_def wf_queue_def)

lemma in_active_iff:
  assumes "wf_queue q"
  shows "c \<in> set (active q) \<longleftrightarrow> (\<exists>i < currentSize q. connections q ! i = c)"
  using assms by (auto simp: active_def wf_queue_def in_set_conv_nth)

lemma nth_active: "wf_queue q \<Longrightarrow> i < currentSize q \<Longrightarrow> connections q ! i \<in> set (active q)"
  by (auto simp: in_active_iff)

text \<open>The finite map is the set of stored connections, keyed by their descriptor.\<close>

lemma connOf_Some_iff:
  assumes "wf_queue q" "index_ok q"
  shows "connOf q fd = Some c \<longleftrightarrow> c \<in> set (active q) \<and> clientFd c = fd"
proof
  assume l: "connOf q fd = Some c"
  then have v: "valid_fd fd" "indexQueue q ! nat fd \<noteq> -1"
    "c = connections q ! nat (indexQueue q ! nat fd)"
    by (auto simp: connOf_def split: if_splits)
  obtain i where "i < currentSize q" "indexQueue q ! nat fd = int i"
    "clientFd (connections q ! i) = fd"
    by (rule index_okE [OF assms(2) v(1,2)])
  then show "c \<in> set (active q) \<and> clientFd c = fd"
    using v(3) assms(1) by (auto simp: in_active_iff)
next
  assume "c \<in> set (active q) \<and> clientFd c = fd"
  then obtain i where "i < currentSize q" "connections q ! i = c" "clientFd c = fd"
    using assms(1) by (auto simp: in_active_iff)
  then show "connOf q fd = Some c"
    using index_okD [OF assms(2), of i] by (auto simp: connOf_def)
qed

lemma connOf_ext:
  assumes "wf_queue q" "index_ok q" "\<And>c. c \<in> set (active q) \<and> clientFd c = fd \<longleftrightarrow> r = Some c"
  shows "connOf q fd = r"
proof (cases "connOf q fd")
  case None
  then show ?thesis
    using assms connOf_Some_iff [OF assms(1,2), of fd] by (cases r) auto
next
  case (Some c)
  then show ?thesis using assms connOf_Some_iff [OF assms(1,2), of fd c] by simp
qed

section \<open>The fresh queue\<close>

lemma wf_create [queue_inv]: "wf_queue createQueueConnections"
  by (simp add: wf_queue_def createQueueConnections_def)

lemma create_ok [queue_inv]: "queue_ok createQueueConnections"
  by (simp add: queue_ok_def wf_queue_def index_ok_def heap_ok_def createQueueConnections_def)

lemma active_create [simp]: "active createQueueConnections = []"
  by (simp add: active_def createQueueConnections_def)

section \<open>The order at the root\<close>

lemma parentHeap_less: "0 < k \<Longrightarrow> parentHeap k < k"
  by (simp add: parentHeap_def)

lemma parentHeap_eq_iff:
  "0 < k \<Longrightarrow> parentHeap k = i \<longleftrightarrow> k = leftChildHeap i \<or> k = rightChildHeap i"
  by (auto simp: parentHeap_def leftChildHeap_def rightChildHeap_def)

lemma heap_root_least:
  assumes "heap_ok q" "k < currentSize q"
  shows "prioAt q 0 \<le> prioAt q k"
  using assms(2)
proof (induction k rule: less_induct)
  case (less k)
  show ?case
  proof (cases "k = 0")
    case False
    then have "prioAt q 0 \<le> prioAt q (parentHeap k)"
      using less.IH [of "parentHeap k"] less.prems parentHeap_less [of k] by simp
    also have "\<dots> \<le> prioAt q k" using assms(1) False less.prems by (simp add: heap_ok_def)
    finally show ?thesis .
  qed simp
qed

lemma peek_least:
  assumes "wf_queue q" "heap_ok q" "peekQueueConnections q = Some c" "d \<in> set (active q)"
  shows "priorityTime c \<le> priorityTime d"
  using assms heap_root_least [OF assms(2)]
  by (auto simp: in_active_iff peekQueueConnections_def split: if_splits)

section \<open>Shift down\<close>

lemma swap_index_ok:
  fixes q i s
  defines "a \<equiv> clientFd (connections q ! i)" and "b \<equiv> clientFd (connections q ! s)"
  assumes wf: "wf_queue q" and ix: "index_ok q"
    and i: "i < currentSize q" and s: "s < currentSize q" and ne: "i \<noteq> s"
  shows "index_ok (q\<lparr>connections := swap_cells (connections q) i s,
    indexQueue := (indexQueue q)[nat b := int i, nat a := int s]\<rparr>)" (is "index_ok ?q")
proof (rule index_okI)
  note len = wf_queueD [OF wf]
  have ab: "valid_fd a" "valid_fd b" using index_okD(1) [OF ix] i s by (simp_all add: a_def b_def)
  have nab: "a \<noteq> b" using index_ok_inj [OF ix i s] ne by (auto simp: a_def b_def)
  have at: "connections ?q ! k = (if k = i then connections q ! s else if k = s then connections q ! i
      else connections q ! k)" if "k < currentSize q" for k
    using that i s len ne by (simp add: nth_swap_cells)
  have ix': "indexQueue ?q ! k = (if k = nat a then int s else if k = nat b then int i
      else indexQueue q ! k)" for k
    using ab len by (auto simp: nth_list_update valid_fd_def)
  {
    fix k assume k: "k < currentSize ?q"
    show "valid_fd (clientFd (connections ?q ! k)) \<and> indexQueue ?q ! nat (clientFd (connections ?q ! k)) = int k"
    proof (cases "k = i \<or> k = s")
      case True
      then show ?thesis
        using at [of k] ix' ab nab k ne by (auto simp: valid_fd_def a_def [symmetric] b_def [symmetric])
    next
      case False
      let ?f = "clientFd (connections q ! k)"
      have "valid_fd ?f" "indexQueue q ! nat ?f = int k" "?f \<noteq> a" "?f \<noteq> b"
        using index_okD [OF ix] index_ok_inj [OF ix, of k] k i s False by (auto simp: a_def b_def)
      then show ?thesis using at [of k] ix' ab k False by (simp add: valid_fd_def)
    qed
  next
    fix k assume k: "k < MAX_EPOLL_EVENTS" "indexQueue ?q ! k \<noteq> -1"
    show "\<exists>j < currentSize ?q. indexQueue ?q ! k = int j \<and> clientFd (connections ?q ! j) = int k"
    proof (cases "k = nat a \<or> k = nat b")
      case True
      then show ?thesis using at [OF i] at [OF s] ix' ab i s ne
        by (intro exI [of _ "if k = nat a then s else i"]) (auto simp: valid_fd_def a_def b_def)
    next
      case False
      then obtain j where j: "j < currentSize q" "indexQueue q ! k = int j"
        "clientFd (connections q ! j) = int k"
        using k ix ix' unfolding index_ok_def by metis
      then have "j \<noteq> i" "j \<noteq> s" using False by (auto simp: a_def b_def)
      then show ?thesis using at [OF j(1)] ix' j False by (intro exI [of _ j]) simp
    qed
  }
qed

lemma swapReindex_ok:
  assumes wf: "wf_queue q" and ix: "index_ok q"
    and i: "i < currentSize q" and s: "s < currentSize q" and ne: "i \<noteq> s"
  obtains q' where "swapReindex q i s = Inr q'"
    "connections q' = swap_cells (connections q) i s"
    "currentSize q' = currentSize q" "wf_queue q'" "index_ok q'"
proof -
  note len = wf_queueD [OF wf]
  let ?q' = "q\<lparr>connections := swap_cells (connections q) i s, indexQueue := (indexQueue q)
      [nat (clientFd (connections q ! s)) := int i, nat (clientFd (connections q ! i)) := int s]\<rparr>"
  have "valid_fd (clientFd (connections q ! i))" "valid_fd (clientFd (connections q ! s))"
    using index_okD(1) [OF ix] i s by simp_all
  then have "swapReindex q i s = Inr ?q'"
    using i s ne len
    by (simp add: swapReindex_def swapConnectionElementHeap_def setIndex_def nth_swap_cells valid_fd_def)
  moreover have "wf_queue ?q'" using wf by (simp add: wf_queue_def)
  ultimately show thesis using that swap_index_ok [OF assms] by simp
qed

text \<open>
  The order up to one position \<open>i\<close>: every other parent is below its children, and the
  children of \<open>i\<close> are above the parent of \<open>i\<close>.
\<close>

definition heap_upto :: "queue \<Rightarrow> nat \<Rightarrow> bool" where
  "heap_upto q i \<longleftrightarrow> (\<forall>k. 0 < k \<and> k < currentSize q \<longrightarrow>
     (parentHeap k \<noteq> i \<longrightarrow> prioAt q (parentHeap k) \<le> prioAt q k) \<and>
     (parentHeap k = i \<and> 0 < i \<longrightarrow> prioAt q (parentHeap i) \<le> prioAt q k))"

lemma heap_upto_mono:
  assumes "heap_ok q" "connections q' = (connections q)[i := c]"
    "currentSize q' = currentSize q" "currentSize q \<le> length (connections q)"
    "i < currentSize q" "prioAt q i \<le> priorityTime c"
  shows "heap_upto q' i"
proof -
  have step: "prioAt q (parentHeap k) \<le> prioAt q k" if "0 < k" "k < currentSize q" for k
    using assms(1) that by (simp add: heap_ok_def)
  have le: "prioAt q (parentHeap k) \<le> prioAt q' k" if "0 < k" "k < currentSize q" for k
    using step [OF that] assms(2,4,5,6) that by (auto simp: nth_list_update)
  show ?thesis
    unfolding heap_upto_def
  proof (intro allI impI conjI)
    fix k assume k: "0 < k \<and> k < currentSize q'"
    { assume "parentHeap k \<noteq> i"
      then show "prioAt q' (parentHeap k) \<le> prioAt q' k"
        using le [of k] k assms(2,3) by simp }
    { assume c: "parentHeap k = i \<and> 0 < i"
      then have "prioAt q (parentHeap i) \<le> prioAt q i" using step [of i] assms(5) by simp
      also have "\<dots> \<le> prioAt q k" using step [of k] k c assms(3) by simp
      finally show "prioAt q' (parentHeap i) \<le> prioAt q' k"
        using c k assms(2) parentHeap_less [of k] parentHeap_less [of i] by simp }
  qed
qed

lemma smallestChild_cases:
  assumes "smallestChild q i = s"
  shows "(\<forall>c \<in> {leftChildHeap i, rightChildHeap i}. c < currentSize q \<longrightarrow>
      prioAt q s \<le> prioAt q c) \<and> prioAt q s \<le> prioAt q i \<and>
    (s \<noteq> i \<longrightarrow> s \<in> {leftChildHeap i, rightChildHeap i} \<and> prioAt q s < prioAt q i)"
  using assms by (auto simp: smallestChild_def Let_def difftime_def split: if_splits)

lemma heap_upto_done:
  assumes "heap_upto q i" "smallestChild q i = i"
  shows "heap_ok q"
  using assms(1) smallestChild_cases [OF assms(2)] parentHeap_eq_iff
  unfolding heap_ok_def heap_upto_def by (metis insertCI)

lemma heap_upto_swap:
  assumes h: "heap_upto q i" and s: "smallestChild q i = s" "s \<noteq> i"
    and q': "connections q' = swap_cells (connections q) i s" "currentSize q' = currentSize q"
    and len: "currentSize q \<le> length (connections q)"
  shows "heap_upto q' s"
proof -
  note bnd = smallestChild_bounds [of q i, unfolded s(1), OF s(2)]
  note sm = smallestChild_cases [OF s(1)]
  have ps: "parentHeap s = i" using sm s(2) bnd parentHeap_eq_iff [of s i] by auto
  have at: "prioAt q' k = (if k = i then prioAt q s else if k = s then prioAt q i else prioAt q k)"
    for k using bnd len q'(1) by (simp add: nth_swap_cells)
  have up: "prioAt q (parentHeap k) \<le> prioAt q k"
    if "0 < k" "k < currentSize q" "parentHeap k \<noteq> i" for k
    using h that by (simp add: heap_upto_def)
  have child: "prioAt q s \<le> prioAt q k" if "0 < k" "k < currentSize q" "parentHeap k = i" for k
    using sm parentHeap_eq_iff [of k i] that by auto
  show ?thesis
    unfolding heap_upto_def q'(2)
  proof (intro allI impI conjI)
    fix k assume k: "0 < k \<and> k < currentSize q"
    { assume p: "parentHeap k \<noteq> s"
      show "prioAt q' (parentHeap k) \<le> prioAt q' k"
      proof (cases "parentHeap k = i")
        case True
        then show ?thesis using child [of k] k sm s(2) ps bnd parentHeap_less [of k]
          by (auto simp: at)
      next
        case False
        have "prioAt q (parentHeap k) \<le> prioAt q' k"
        proof (cases "k = i")
          case True
          then show ?thesis using h ps bnd k by (simp add: at heap_upto_def)
        next
          case ki: False
          with False ps have "k \<noteq> s" by auto
          with ki up [of k] False k show ?thesis by (simp add: at)
        qed
        with False p show ?thesis by (simp add: at)
      qed }
    { assume p: "parentHeap k = s \<and> 0 < s"
      then have "prioAt q s \<le> prioAt q k" using up [of k] k s(2) by simp
      moreover have "k \<noteq> s" "k \<noteq> i" using p k bnd parentHeap_less [of k] by auto
      ultimately show "prioAt q' (parentHeap s) \<le> prioAt q' k" using ps by (simp add: at) }
  qed
qed

text \<open>
  Total correctness of \<open>heapify\<close>: it returns, moves connections only among the active
  positions, and keeps \<open>indexQueue\<close> in step; from an order up to \<open>i\<close> it restores the heap.
\<close>

lemma heapify_correct:
  assumes "wf_queue q" "index_ok q" "i < currentSize q"
  shows "\<exists>q'. heapify q i = Inr q' \<and> wf_queue q' \<and> index_ok q' \<and>
    currentSize q' = currentSize q \<and> mset (active q') = mset (active q) \<and>
    (heap_upto q i \<longrightarrow> heap_ok q')"
  using assms
proof (induction q i rule: heapify.induct)
  case (1 q i)
  let ?s = "smallestChild q i"
  show ?case
  proof (cases "?s = i")
    case True
    then have "heapify q i = Inr q" by (subst heapify.simps) simp
    with True 1 heap_upto_done [of q i] show ?thesis by simp
  next
    case False
    then have b: "i < ?s" "?s < currentSize q" using smallestChild_bounds by blast+
    obtain r where r: "swapReindex q i ?s = Inr r"
      "connections r = swap_cells (connections q) i ?s"
      "currentSize r = currentSize q" "wf_queue r" "index_ok r"
      using swapReindex_ok [OF "1.prems"(1,2), of i ?s] b by auto
    have len: "currentSize q \<le> length (connections q)"
      using "1.prems"(1) by (simp add: wf_queue_def)
    have eq: "heapify q i = heapify r ?s" using False r(1) by (subst heapify.simps) simp
    have ms: "mset (active r) = mset (active q)"
      using r(2,3) b len by (simp add: active_def mset_take_swap_cells)
    have hu: "heap_upto q i \<Longrightarrow> heap_upto r ?s"
      using heap_upto_swap [OF _ refl False r(2,3) len] .
    from "1.IH" [OF refl False r(1) r(4,5)] b r(3) show ?thesis
      unfolding eq ms [symmetric] using hu by auto
  qed
qed

section \<open>Shift up and insertion\<close>

definition up_ok :: "element list \<Rightarrow> nat \<Rightarrow> nat \<Rightarrow> bool" where
  "up_ok xs n i \<longleftrightarrow> (\<forall>k. 0 < k \<and> k < n \<longrightarrow>
     (k \<noteq> i \<longrightarrow> priorityTime (xs ! parentHeap k) \<le> priorityTime (xs ! k)) \<and>
     (parentHeap k = i \<and> 0 < i \<longrightarrow>
        priorityTime (xs ! parentHeap i) \<le> priorityTime (xs ! k)))"

definition heap_list :: "element list \<Rightarrow> nat \<Rightarrow> bool" where
  "heap_list xs n \<longleftrightarrow> (\<forall>k. 0 < k \<and> k < n \<longrightarrow>
     priorityTime (xs ! parentHeap k) \<le> priorityTime (xs ! k))"

lemma heap_ok_list: "heap_ok q \<longleftrightarrow> heap_list (connections q) (currentSize q)"
  by (simp add: heap_ok_def heap_list_def)

lemma up_ok_swap:
  assumes u: "up_ok xs n i" and i: "0 < i" "i < n" "n \<le> length xs"
    and lt: "priorityTime (xs ! i) < priorityTime (xs ! parentHeap i)"
  shows "up_ok (swap_cells xs i (parentHeap i)) n (parentHeap i)"
proof -
  let ?p = "parentHeap i" and ?ys = "swap_cells xs i (parentHeap i)"
  have pi: "?p < i" using parentHeap_less i(1) .
  have at: "?ys ! k = (if k = i then xs ! ?p else if k = ?p then xs ! i else xs ! k)" for k
    using i pi by (simp add: nth_swap_cells)
  have up: "priorityTime (xs ! parentHeap k) \<le> priorityTime (xs ! k)"
    if "0 < k" "k < n" "k \<noteq> i" for k using u that by (simp add: up_ok_def)
  have ch: "priorityTime (xs ! ?p) \<le> priorityTime (xs ! k)"
    if "0 < k" "k < n" "parentHeap k = i" for k using u that i by (simp add: up_ok_def)
  show ?thesis
    unfolding up_ok_def
  proof (intro allI impI conjI)
    fix k assume k: "0 < k \<and> k < n"
    note pk = parentHeap_less [OF conjunct1 [OF k]]
    { assume kp: "k \<noteq> ?p"
      show "priorityTime (?ys ! parentHeap k) \<le> priorityTime (?ys ! k)"
      proof (cases "k = i")
        case True
        then show ?thesis using lt pi by (simp add: at)
      next
        case False
        with up [of k] ch [of k] k lt pk kp show ?thesis
          by (cases "parentHeap k = i"; cases "parentHeap k = ?p") (auto simp: at)
      qed }
    { assume c: "parentHeap k = ?p \<and> 0 < ?p"
      have gp: "priorityTime (xs ! parentHeap ?p) \<le> priorityTime (xs ! ?p)"
        using up [of ?p] c i pi by simp
      have "parentHeap ?p < ?p" using c parentHeap_less by blast
      then have e: "?ys ! parentHeap ?p = xs ! parentHeap ?p" using pi by (simp add: at)
      show "priorityTime (?ys ! parentHeap ?p) \<le> priorityTime (?ys ! k)"
      proof (cases "k = i")
        case True
        then show ?thesis using gp e by (simp add: at)
      next
        case False
        then have "priorityTime (xs ! ?p) \<le> priorityTime (xs ! k)" using up [of k] k c by simp
        moreover have "k \<noteq> ?p" using c pk by auto
        ultimately show ?thesis using gp e False by (simp add: at)
      qed }
  qed
qed

lemma shiftUp_correct:
  assumes "up_ok xs n i" "i < n" "n \<le> length xs" "priorityTime (xs ! i) = t"
  shows "\<exists>ys j. shiftUp xs t i = (ys, j) \<and> j \<le> i \<and> heap_list ys n \<and>
    length ys = length xs \<and> mset (take n ys) = mset (take n xs) \<and> ys ! j = xs ! i"
  using assms
proof (induction xs t i rule: shiftUp.induct)
  case (1 xs t i)
  show ?case
  proof (cases "i \<noteq> 0 \<and> difftime t (priorityTime (xs ! parentHeap i)) < 0")
    case True
    let ?p = "parentHeap i" and ?ys = "swap_cells xs i (parentHeap i)"
    have pi: "?p < i" using True parentHeap_less by blast
    have u: "up_ok ?ys n ?p"
      using up_ok_swap [OF "1.prems"(1)] True "1.prems" by (simp add: difftime_def)
    have at: "?ys ! ?p = xs ! i" using pi "1.prems" by (simp add: nth_swap_cells)
    have eq: "shiftUp xs t i = shiftUp ?ys t ?p"
      using True by (subst shiftUp.simps) (simp add: swapConnectionElementHeap_def)
    have "mset (take n ?ys) = mset (take n xs)"
      using pi "1.prems" by (simp add: mset_take_swap_cells)
    with "1.IH" [OF True] u at pi "1.prems" show ?thesis
      unfolding eq swapConnectionElementHeap_def by fastforce
  next
    case False
    then have "shiftUp xs t i = (xs, i)" by (subst shiftUp.simps) auto
    moreover have "heap_list xs n"
      unfolding heap_list_def
    proof (intro allI impI)
      fix k assume "0 < k \<and> k < n"
      with "1.prems"(1,4) False show "priorityTime (xs ! parentHeap k) \<le> priorityTime (xs ! k)"
        by (cases "k = i") (auto simp: up_ok_def difftime_def)
    qed
    ultimately show ?thesis by simp
  qed
qed

lemma shiftUp_stays:
  assumes "i = 0 \<or> priorityTime (xs ! parentHeap i) \<le> t"
  shows "shiftUp xs t i = (xs, i)"
  using assms by (subst shiftUp.simps) (auto simp: difftime_def)

text \<open>Insertion keeps the heap order and adds the connection, whatever its time.\<close>

lemma enqueue_heap:
  assumes "wf_queue q" "heap_ok q" "currentSize q < MAX_EPOLL_EVENTS" "valid_fd (clientFd c)"
  shows "\<exists>q'. enqueueConnection q c = Inr q' \<and> wf_queue q' \<and> heap_ok q' \<and>
    currentSize q' = currentSize q + 1 \<and> mset (active q') = add_mset c (mset (active q))"
proof -
  let ?n = "currentSize q" and ?xs = "(connections q)[currentSize q := c]"
  note len = wf_queueD [OF assms(1)]
  have "up_ok ?xs (Suc ?n) ?n"
    unfolding up_ok_def
  proof (intro allI impI conjI)
    fix k assume k: "0 < k \<and> k < Suc ?n"
    have p: "parentHeap k < k" using k parentHeap_less by blast
    show "priorityTime (?xs ! parentHeap k) \<le> priorityTime (?xs ! k)" if "k \<noteq> ?n"
      using assms(2) k p that by (auto simp: heap_ok_def)
    show "priorityTime (?xs ! parentHeap ?n) \<le> priorityTime (?xs ! k)"
      if "parentHeap k = ?n \<and> 0 < ?n" using that p k by simp
  qed
  then obtain ys j where ys: "shiftUp ?xs (priorityTime c) ?n = (ys, j)" "heap_list ys (Suc ?n)"
    "length ys = length ?xs" "mset (take (Suc ?n) ys) = mset (take (Suc ?n) ?xs)"
    using shiftUp_correct [of ?xs "Suc ?n" ?n "priorityTime c"] len assms(3) by auto
  let ?q' = "\<lparr>currentSize = Suc ?n, capacity = capacity q,
      indexQueue = (indexQueue q)[nat (clientFd c) := int j], connections = ys\<rparr>"
  have "enqueueConnection q c = Inr (QueueConnectionsType.extend ?q' (QueueConnectionsType.more q))"
    using ys(1) len assms(3,4)
    by (simp add: enqueueConnection_def setConn_def setIndex_def valid_fd_def
        QueueConnectionsType.defs)
  then show ?thesis
    using ys len assms(3) mset_take_Suc_update [of ?n "connections q" c]
    by (auto simp: wf_queue_def heap_ok_list active_def QueueConnectionsType.defs)
qed

text \<open>
  With a clock that has not gone back the new connection stays in the last position, and
  \<open>indexQueue\<close> remains exact.
\<close>

definition not_before :: "queue \<Rightarrow> int \<Rightarrow> bool" where
  "not_before q t \<longleftrightarrow> (\<forall>d \<in> set (active q). priorityTime d \<le> t)"

lemma connOf_NoneD:
  assumes "wf_queue q" "index_ok q" "connOf q fd = None" "i < currentSize q"
  shows "clientFd (connections q ! i) \<noteq> fd"
  using assms connOf_Some_iff [OF assms(1,2), of fd "connections q ! i"]
  by (auto simp: in_active_iff)

lemma append_index_ok:
  assumes wf: "wf_queue q" and ix: "index_ok q" and n: "currentSize q < MAX_EPOLL_EVENTS"
    and fd: "valid_fd (clientFd c)" and new: "connOf q (clientFd c) = None"
  shows "index_ok (q\<lparr>connections := (connections q)[currentSize q := c], currentSize := Suc (currentSize q),
    indexQueue := (indexQueue q)[nat (clientFd c) := int (currentSize q)]\<rparr>)" (is "index_ok ?q")
proof (rule index_okI)
  let ?n = "currentSize q"
  note len = wf_queueD [OF wf]
  have old: "clientFd (connections q ! i) \<noteq> clientFd c" if "i < ?n" for i
    using connOf_NoneD [OF wf ix new that] .
  {
    fix i assume i: "i < currentSize ?q"
    show "valid_fd (clientFd (connections ?q ! i)) \<and>
        indexQueue ?q ! nat (clientFd (connections ?q ! i)) = int i"
    proof (cases "i = ?n")
      case True
      then show ?thesis using len n fd by (simp add: valid_fd_def)
    next
      case False
      with i have "i < ?n" by simp
      with index_okD [OF ix this] old [OF this] fd len False show ?thesis
        by simp
    qed
  next
    fix k assume k: "k < MAX_EPOLL_EVENTS" "indexQueue ?q ! k \<noteq> -1"
    show "\<exists>i<currentSize ?q. indexQueue ?q ! k = int i \<and> clientFd (connections ?q ! i) = int k"
    proof (cases "k = nat (clientFd c)")
      case True
      then show ?thesis using fd len n
        by (intro exI [of _ ?n]) (auto simp: valid_fd_def)
    next
      case False
      then have "indexQueue q ! k \<noteq> -1" using k by simp
      with k ix obtain i where "i < ?n" "indexQueue q ! k = int i"
        "clientFd (connections q ! i) = int k" unfolding index_ok_def by blast
      with False show ?thesis by (intro exI [of _ i]) simp
    qed
  }
qed

lemma enqueue_last:
  assumes wf: "wf_queue q" and ix: "index_ok q" and n: "currentSize q < MAX_EPOLL_EVENTS"
    and fd: "valid_fd (clientFd c)" and nb: "not_before q (priorityTime c)"
    and new: "connOf q (clientFd c) = None"
  shows "\<exists>q'. enqueueConnection q c = Inr q' \<and> wf_queue q' \<and> index_ok q' \<and>
    currentSize q' = currentSize q + 1 \<and> active q' = active q @ [c] \<and>
    (heap_ok q \<longrightarrow> heap_ok q')"
proof -
  let ?n = "currentSize q" and ?xs = "(connections q)[currentSize q := c]"
  note len = wf_queueD [OF wf]
  have "?n = 0 \<or> priorityTime (?xs ! parentHeap ?n) \<le> priorityTime c"
    using nb parentHeap_less [of ?n] len nth_active [OF wf, of "parentHeap ?n"]
    by (cases "?n = 0") (auto simp: not_before_def)
  then have up: "shiftUp ?xs (priorityTime c) ?n = (?xs, ?n)" by (rule shiftUp_stays)
  define q' where "q' = q\<lparr>connections := ?xs, currentSize := Suc ?n,
      indexQueue := (indexQueue q)[nat (clientFd c) := int ?n]\<rparr>"
  have e: "enqueueConnection q c = Inr q'"
    using up len n fd
    by (simp add: enqueueConnection_def setConn_def setIndex_def valid_fd_def q'_def)
  have wf': "wf_queue q'" using wf n by (simp add: wf_queue_def q'_def)
  have "index_ok q'" using append_index_ok [OF wf ix n fd new] by (simp add: q'_def)
  moreover have "active q' = active q @ [c]"
    using len n by (simp add: active_def q'_def take_Suc_conv_app_nth)
  moreover have "heap_ok q \<longrightarrow> heap_ok q'"
    using enqueue_heap [OF wf _ n fd] e by auto
  ultimately show ?thesis using e wf' by (simp add: q'_def)
qed

section \<open>Replacing a stored connection\<close>

lemma connOf_position:
  assumes "wf_queue q" "index_ok q" "connOf q fd = Some c"
  obtains i where "i < currentSize q" "connections q ! i = c" "clientFd c = fd"
    "valid_fd fd" "getIndex q fd = Inr (int i)" "i < MAX_EPOLL_EVENTS"
proof -
  have v: "valid_fd fd" "indexQueue q ! nat fd \<noteq> -1"
    and c: "c = connections q ! nat (indexQueue q ! nat fd)"
    using assms(3) by (auto simp: connOf_def split: if_splits)
  obtain i where i: "i < currentSize q" "indexQueue q ! nat fd = int i"
    "clientFd (connections q ! i) = fd"
    by (rule index_okE [OF assms(2) v])
  show thesis
    using that [of i] i v(1) c getIndex_valid [OF assms(1) v(1)] wf_queueD(4) [OF assms(1)]
    by simp
qed

lemma replace_ok:
  assumes wf: "wf_queue q" and ix: "index_ok q" and i: "i < currentSize q"
    and fd: "clientFd c = clientFd (connections q ! i)"
  defines "r \<equiv> q\<lparr>connections := (connections q)[i := c]\<rparr>"
  shows "wf_queue r" "index_ok r"
    "mset (active r) = add_mset c (mset (active q) - {#connections q ! i#})"
proof -
  note len = wf_queueD [OF wf]
  have at: "clientFd (connections r ! k) = clientFd (connections q ! k)" for k
    using fd i len by (cases "k = i") (auto simp: r_def)
  show "wf_queue r" using wf by (simp add: wf_queue_def r_def)
  show "index_ok r" using ix at unfolding index_ok_def by (simp add: r_def)
  show "mset (active r) = add_mset c (mset (active q) - {#connections q ! i#})"
    using i len by (simp add: active_def r_def take_update_swap mset_update)
qed

text \<open>Re-arming a kept-alive connection.\<close>

lemma updateQueueConnection_correct:
  assumes wf: "wf_queue q" and ix: "index_ok q" and c: "connOf q fd = Some c"
    and t: "priorityTime c \<le> now"
  shows "\<exists>q'. updateQueueConnection q fd now mem = Inr (q', freeConnection c) \<and>
    wf_queue q' \<and> index_ok q' \<and> currentSize q' = currentSize q \<and>
    mset (active q') = add_mset (freshConnection fd now mem) (mset (active q) - {#c#}) \<and>
    (heap_ok q \<longrightarrow> heap_ok q')"
proof -
  obtain i where i: "i < currentSize q" "connections q ! i = c" "clientFd c = fd"
    "valid_fd fd" "getIndex q fd = Inr (int i)" "i < MAX_EPOLL_EVENTS"
    by (rule connOf_position [OF wf ix c])
  let ?f = "freshConnection fd now mem"
  have f: "clientFd ?f = fd" "priorityTime ?f = now"
    by (simp_all add: freshConnection_def)
  define r where "r = q\<lparr>connections := (connections q)[i := ?f]\<rparr>"
  have r: "wf_queue r" "index_ok r" "mset (active r) = add_mset ?f (mset (active q) - {#c#})"
    using replace_ok [OF wf ix i(1), of ?f] i(2,3) f by (simp_all add: r_def)
  have hu: "heap_ok q \<Longrightarrow> heap_upto r i"
    using heap_upto_mono [of q r i ?f] i t f wf_queueD [OF wf] by (simp add: r_def)
  obtain q' where q': "heapify r i = Inr q'" "wf_queue q'" "index_ok q'"
    "currentSize q' = currentSize r" "mset (active q') = mset (active r)"
    "heap_upto r i \<longrightarrow> heap_ok q'"
    using heapify_correct [OF r(1,2), of i] i(1) by (auto simp: r_def)
  have "updateQueueConnection q fd now mem = Inr (q', freeConnection c)"
    using i q'(1) t getConn_valid [OF wf i(6)] setConn_valid [OF wf i(6)]
    by (simp add: updateQueueConnection_def difftime_def r_def)
  then show ?thesis using q' r hu by (simp add: r_def)
qed

section \<open>Removal\<close>

text \<open>
  What both removals build before they shift down: the last connection in the place of the
  removed one, \<open>indexQueue\<close> adjusted for both.
\<close>

definition moveLast :: "queue \<Rightarrow> nat \<Rightarrow> queue" where
  "moveLast q i =
     (let n = currentSize q; last = connections q ! (n - 1) in
      q\<lparr>connections := (connections q)[i := last, n - 1 := emptyConnection],
        currentSize := n - 1,
        indexQueue := (indexQueue q)[nat (clientFd (connections q ! i)) := -1,
                                     nat (clientFd last) := int i]\<rparr>)"

lemma moveLast_index_ok:
  assumes wf: "wf_queue q" and ix: "index_ok q" and i: "i < currentSize q - 1"
  shows "index_ok (moveLast q i)"
proof (rule index_okI)
  let ?n = "currentSize q" and ?r = "moveLast q i"
  let ?a = "clientFd (connections q ! i)" and ?b = "clientFd (connections q ! (currentSize q - 1))"
  note len = wf_queueD [OF wf]
  have sz: "currentSize ?r = ?n - 1" by (simp add: moveLast_def Let_def)
  have ab: "valid_fd ?a" "valid_fd ?b" using index_okD(1) [OF ix] i by simp_all
  have nab: "?a \<noteq> ?b" using index_ok_inj [OF ix, of i "?n - 1"] i by auto
  have bl: "nat ?b < length (indexQueue q)" "nat ?a < length (indexQueue q)"
    using ab len by (simp_all add: valid_fd_def)
  have at: "connections ?r ! k = (if k = i then connections q ! (?n - 1) else connections q ! k)"
    if "k < ?n - 1" for k using that i len by (simp add: moveLast_def Let_def nth_list_update)
  have ixr: "indexQueue ?r ! k = (if k = nat ?b then int i else if k = nat ?a then -1
      else indexQueue q ! k)" for k
    using bl by (auto simp: moveLast_def Let_def nth_list_update)
  {
    fix k assume "k < currentSize ?r"
    then have k: "k < ?n - 1" using sz by simp
    show "valid_fd (clientFd (connections ?r ! k)) \<and>
        indexQueue ?r ! nat (clientFd (connections ?r ! k)) = int k"
    proof (cases "k = i")
      case True
      then show ?thesis using at [OF k] ixr ab by simp
    next
      case False
      have "clientFd (connections q ! k) \<noteq> ?a" "clientFd (connections q ! k) \<noteq> ?b"
        using fd_differs [OF ix, of k i] fd_differs [OF ix, of k "?n - 1"] False k i by auto
      then show ?thesis using at [OF k] ixr ab False k index_okD [OF ix, of k] by simp
    qed
  next
    fix k assume k: "k < MAX_EPOLL_EVENTS" "indexQueue ?r ! k \<noteq> -1"
    show "\<exists>j < currentSize ?r. indexQueue ?r ! k = int j \<and> clientFd (connections ?r ! j) = int k"
    proof (cases "k = nat ?b")
      case True
      then show ?thesis using at [OF i] ixr sz i ab
        by (intro exI [of _ i]) (simp add: valid_fd_def)
    next
      case False
      then have ka: "k \<noteq> nat ?a" and old: "indexQueue q ! k \<noteq> -1"
        using k(2) ixr by (auto split: if_splits)
      with k(1) ix obtain j where j: "j < ?n" "indexQueue q ! k = int j"
        "clientFd (connections q ! j) = int k"
        unfolding index_ok_def by blast
      have "j \<noteq> i" "j \<noteq> ?n - 1" using j(3) False ka by auto
      then show ?thesis using at [of j] ixr j False ka sz
        by (intro exI [of _ j]) simp
    qed
  }
qed

lemma moveLast_active:
  assumes "wf_queue q" "i < currentSize q - 1"
  shows "mset (active (moveLast q i)) = mset (active q) - {#connections q ! i#}"
proof -
  let ?n = "currentSize q" and ?r = "moveLast q i"
  note i = assms(2) and len = wf_queueD [OF assms(1)]
  have "active ?r = (take (?n - 1) (connections q))[i := connections q ! (?n - 1)]"
    using i by (simp add: active_def moveLast_def Let_def take_update_swap list_update_beyond)
  moreover have "active q = take (?n - 1) (connections q) @ [connections q ! (?n - 1)]"
    using i len take_Suc_conv_app_nth [of "?n - 1" "connections q"] by (simp add: active_def)
  moreover have "connections q ! i \<in># mset (take (?n - 1) (connections q))"
    using i len by (auto simp: in_set_conv_nth)
  then obtain M where "mset (take (?n - 1) (connections q)) = add_mset (connections q ! i) M"
    by (metis insert_DiffM)
  ultimately show "mset (active ?r) = mset (active q) - {#connections q ! i#}"
    using i len by (simp add: mset_update add_mset_commute [of _ "connections q ! i"])
qed

lemma moveLast_ok:
  assumes "wf_queue q" "index_ok q" "i < currentSize q - 1"
  shows "wf_queue (moveLast q i)" "index_ok (moveLast q i)"
    "currentSize (moveLast q i) = currentSize q - 1"
    "mset (active (moveLast q i)) = mset (active q) - {#connections q ! i#}"
  using assms moveLast_index_ok moveLast_active by (auto simp: wf_queue_def moveLast_def Let_def)

lemma moveLast_heap_upto:
  assumes "wf_queue q" "heap_ok q" "i < currentSize q - 1"
    and "i = 0 \<or> prioAt q (parentHeap i) \<le> prioAt q (currentSize q - 1)"
  shows "heap_upto (moveLast q i) i"
proof -
  let ?n = "currentSize q" and ?r = "moveLast q i"
  have at: "connections ?r ! k = (if k = i then connections q ! (?n - 1) else connections q ! k)"
    if "k < ?n - 1" for k
    using that assms(3) wf_queueD [OF assms(1)] by (simp add: moveLast_def Let_def nth_list_update)
  have h: "prioAt q (parentHeap k) \<le> prioAt q k" if "0 < k" "k < ?n" for k
    using assms(2) that by (simp add: heap_ok_def)
  have sz: "currentSize ?r = ?n - 1" by (simp add: moveLast_def Let_def)
  show ?thesis
    unfolding heap_upto_def sz
  proof (intro allI impI conjI)
    fix k assume k: "0 < k \<and> k < ?n - 1"
    then have pk: "parentHeap k < k" using parentHeap_less by blast
    { assume p: "parentHeap k \<noteq> i"
      then show "prioAt ?r (parentHeap k) \<le> prioAt ?r k"
        using at [of k] at [of "parentHeap k"] k pk h [of k] assms(4) by (cases "k = i") auto }
    { assume p: "parentHeap k = i \<and> 0 < i"
      then have pi: "parentHeap i < i" using parentHeap_less by blast
      have "prioAt q (parentHeap i) \<le> prioAt q i" using h [of i] p k pk by simp
      also have "\<dots> \<le> prioAt q k" using h [of k] p k by auto
      finally show "prioAt ?r (parentHeap i) \<le> prioAt ?r k"
        using at [of k] at [of "parentHeap i"] k p pk pi by simp }
  qed
qed

lemma moveLast_heapify:
  assumes "wf_queue q" "index_ok q" "i < currentSize q - 1"
  shows "\<exists>q'. heapify (moveLast q i) i = Inr q' \<and> wf_queue q' \<and> index_ok q' \<and>
    currentSize q' = currentSize q - 1 \<and>
    mset (active q') = mset (active q) - {#connections q ! i#} \<and>
    (heap_ok q \<and> (i = 0 \<or> prioAt q (parentHeap i) \<le> prioAt q (currentSize q - 1))
       \<longrightarrow> heap_ok q')"
  using heapify_correct [OF moveLast_ok(1,2) [OF assms], of i] moveLast_ok(3,4) [OF assms]
    moveLast_heap_upto [OF assms(1) _ assms(3)] assms(3) by auto

text \<open>Removing the last connection.\<close>

definition dropLast :: "queue \<Rightarrow> queue" where
  "dropLast q =
     (let n = currentSize q in
      q\<lparr>connections := (connections q)[n - 1 := emptyConnection], currentSize := n - 1,
        indexQueue := (indexQueue q)[nat (clientFd (connections q ! (n - 1))) := -1]\<rparr>)"

lemma dropLast_ok:
  assumes wf: "wf_queue q" and ix: "index_ok q" and n: "0 < currentSize q"
  shows "wf_queue (dropLast q)" "index_ok (dropLast q)"
    "currentSize (dropLast q) = currentSize q - 1"
    "mset (active (dropLast q)) = mset (active q) - {#connections q ! (currentSize q - 1)#}"
    "heap_ok q \<longrightarrow> heap_ok (dropLast q)"
proof -
  let ?n = "currentSize q" and ?r = "dropLast q"
  let ?b = "clientFd (connections q ! (currentSize q - 1))"
  note len = wf_queueD [OF wf]
  show "wf_queue ?r" using wf by (auto simp: wf_queue_def dropLast_def Let_def)
  show sz: "currentSize ?r = ?n - 1" by (simp add: dropLast_def Let_def)
  have b: "valid_fd ?b" using index_okD(1) [OF ix] n by simp
  have at: "connections ?r ! k = connections q ! k" if "k < ?n - 1" for k
    using that by (simp add: dropLast_def Let_def)
  have ixr: "indexQueue ?r ! k = (if k = nat ?b then -1 else indexQueue q ! k)" for k
    using b len by (auto simp: dropLast_def Let_def nth_list_update valid_fd_def)
  show "index_ok ?r"
  proof (rule index_okI)
    fix k assume "k < currentSize ?r"
    then have k: "k < ?n - 1" using sz by simp
    then have "clientFd (connections q ! k) \<noteq> ?b"
      using fd_differs [OF ix, of k "?n - 1"] n by auto
    then show "valid_fd (clientFd (connections ?r ! k)) \<and>
        indexQueue ?r ! nat (clientFd (connections ?r ! k)) = int k"
      using at [OF k] ixr b k index_okD [OF ix, of k] by simp
  next
    fix k assume k: "k < MAX_EPOLL_EVENTS" "indexQueue ?r ! k \<noteq> -1"
    then have "k \<noteq> nat ?b" "indexQueue q ! k \<noteq> -1" using ixr [of k] by (auto split: if_splits)
    with k(1) ix obtain j where j: "j < ?n" "indexQueue q ! k = int j"
      "clientFd (connections q ! j) = int k" unfolding index_ok_def by blast
    have "j \<noteq> ?n - 1" using j(3) \<open>k \<noteq> nat ?b\<close> by auto
    then show "\<exists>j < currentSize ?r. indexQueue ?r ! k = int j \<and>
        clientFd (connections ?r ! j) = int k"
      using at [of j] ixr j \<open>k \<noteq> nat ?b\<close> sz by (intro exI [of _ j]) simp
  qed
  have "active ?r = take (?n - 1) (connections q)" by (simp add: active_def dropLast_def Let_def)
  moreover have "active q = take (?n - 1) (connections q) @ [connections q ! (?n - 1)]"
    using n len take_Suc_conv_app_nth [of "?n - 1" "connections q"] by (simp add: active_def)
  ultimately show "mset (active ?r) = mset (active q) - {#connections q ! (?n - 1)#}" by simp
  show "heap_ok q \<longrightarrow> heap_ok ?r"
    unfolding heap_ok_def sz using at parentHeap_less by (metis less_diff_conv less_trans add_lessD1)
qed

text \<open>Removing the oldest connection.\<close>

lemma dequeueConnection_correct:
  assumes wf: "wf_queue q" and ix: "index_ok q" and n: "currentSize q \<noteq> 0"
  shows "\<exists>q'. dequeueConnection q = Inr (q', freeConnection (connections q ! 0)) \<and>
    wf_queue q' \<and> index_ok q' \<and> currentSize q' = currentSize q - 1 \<and>
    mset (active q') = mset (active q) - {#connections q ! 0#} \<and>
    (heap_ok q \<longrightarrow> heap_ok q')"
proof -
  let ?n = "currentSize q" and ?c = "connections q ! 0"
  let ?l = "connections q ! (?n - 1)"
  note len = wf_queueD [OF wf]
  have n': "int ?n - 1 = int (?n - 1)" "?n - 1 < MAX_EPOLL_EVENTS" "0 < MAX_EPOLL_EVENTS"
    using n len by auto
  have gs: "getConn q 0 = Inr ?c" "getConn q (int ?n - 1) = Inr ?l"
    "setConn q 0 d = Inr (q\<lparr>connections := (connections q)[0 := d]\<rparr>)" for d
    using getConn_valid [OF wf n'(3)] getConn_valid [OF wf n'(2)] setConn_valid [OF wf n'(3)]
    unfolding n'(1) by simp_all
  have gs2: "setConn (q\<lparr>connections := (connections q)[0 := ?l]\<rparr>) (int ?n - 1) d =
      Inr (q\<lparr>connections := (connections q)[0 := ?l, ?n - 1 := d]\<rparr>)" for d
    using n' len unfolding n'(1) by (simp add: setConn_def)
  have fds: "valid_fd (clientFd ?c)" "valid_fd (clientFd ?l)" using index_okD(1) [OF ix] n by simp_all
  show ?thesis
  proof (cases "clientFd ?c = clientFd ?l")
    case True
    then have one: "?n = 1" using index_ok_inj [OF ix, of 0 "?n - 1"] n by simp
    have ix0: "setIndex (q\<lparr>connections := (connections q)[0 := emptyConnection]\<rparr>) (clientFd ?c) (-1) =
        Inr (q\<lparr>connections := (connections q)[0 := emptyConnection],
               indexQueue := (indexQueue q)[nat (clientFd ?c) := -1]\<rparr>)"
      using fds len by (simp add: setIndex_def valid_fd_def)
    have "dequeueConnection q = Inr (dropLast q, freeConnection ?c)"
      unfolding dequeueConnection_def using n one
      by (simp add: gs ix0 Let_def dropLast_def del: One_nat_def)
    then show ?thesis using dropLast_ok [OF wf ix] one by simp
  next
    case False
    then have i: "0 < ?n - 1" using n by (cases "?n = 1") auto
    have "dequeueConnection q =
        res_bind (heapify (moveLast q 0) 0) (\<lambda>q6. Inr (q6, freeConnection ?c))"
      unfolding dequeueConnection_def using n False fds len
      by (simp add: gs gs2 setIndex_def valid_fd_def moveLast_def Let_def del: One_nat_def)
    then show ?thesis using moveLast_heapify [OF wf ix i] by auto
  qed
qed

text \<open>
  Removing a given connection. The heap order survives when the last connection is not
  earlier than the parent of the freed position (always, at the root): \<open>heapify\<close> moves the
  replacement down, never up.
\<close>

definition replacement_ok :: "queue \<Rightarrow> int \<Rightarrow> bool" where
  "replacement_ok q fd \<longleftrightarrow>
     (let i = nat (indexQueue q ! nat fd) in
      i = 0 \<or> i = currentSize q - 1 \<or>
      prioAt q (parentHeap i) \<le> prioAt q (currentSize q - 1))"

lemma dequeueConnectionByFd_correct:
  assumes wf: "wf_queue q" and ix: "index_ok q" and c: "connOf q fd = Some c"
  shows "\<exists>q'. dequeueConnectionByFd q fd = Inr (q', freeConnection c) \<and>
    wf_queue q' \<and> index_ok q' \<and> currentSize q' = currentSize q - 1 \<and>
    mset (active q') = mset (active q) - {#c#} \<and>
    (heap_ok q \<and> replacement_ok q fd \<longrightarrow> heap_ok q')"
proof -
  let ?n = "currentSize q"
  let ?l = "connections q ! (?n - 1)"
  note len = wf_queueD [OF wf]
  obtain i where i: "i < ?n" "connections q ! i = c" "clientFd c = fd"
    "valid_fd fd" "getIndex q fd = Inr (int i)" "i < MAX_EPOLL_EVENTS"
    by (rule connOf_position [OF wf ix c])
  have n': "int ?n - 1 = int (?n - 1)" "?n - 1 < MAX_EPOLL_EVENTS" using i len by auto
  have gs: "getConn q (int i) = Inr c" "getConn q (int ?n - 1) = Inr ?l"
    "setConn q (int ?n - 1) d = Inr (q\<lparr>connections := (connections q)[?n - 1 := d]\<rparr>)" for d
    using getConn_valid [OF wf i(6)] getConn_valid [OF wf n'(2)] setConn_valid [OF wf n'(2)] i(2)
    unfolding n'(1) by simp_all
  have gs2: "setConn (q\<lparr>connections := swap_cells (connections q) i (?n - 1)\<rparr>) (int ?n - 1) d =
      Inr (q\<lparr>connections := (swap_cells (connections q) i (?n - 1))[?n - 1 := d]\<rparr>)" for d
    using n' len unfolding n'(1) by (simp add: setConn_def)
  have fl: "valid_fd (clientFd ?l)" using index_okD(1) [OF ix, of "?n - 1"] i(1) by simp
  have at: "indexQueue q ! nat fd = int i" using index_okD(2) [OF ix i(1)] i by simp
  show ?thesis
  proof (cases "clientFd ?l = fd")
    case True
    then have last: "i = ?n - 1" using index_ok_inj [OF ix i(1), of "?n - 1"] i by simp
    have "dequeueConnectionByFd q fd = Inr (dropLast q, freeConnection c)"
      unfolding dequeueConnectionByFd_def using i(1,4) len True
      by (simp add: gs i(5) setIndex_def valid_fd_def dropLast_def Let_def del: One_nat_def)
    then show ?thesis using dropLast_ok [OF wf ix] i last by auto
  next
    case False
    then have b: "i < ?n - 1" using i by (cases "i = ?n - 1") auto
    have sw: "(swap_cells (connections q) i (?n - 1))[?n - 1 := emptyConnection] =
        (connections q)[i := ?l, ?n - 1 := emptyConnection]"
      by (simp add: swap_cells_def)
    have "dequeueConnectionByFd q fd =
        res_bind (heapify (moveLast q i) i) (\<lambda>q5. Inr (q5, freeConnection c))"
      unfolding dequeueConnectionByFd_def using i(1,3,4) fl len False
      by (simp add: gs gs2 i(2,5) sw setIndex_def valid_fd_def
          swapConnectionElementHeap_def moveLast_def Let_def del: One_nat_def)
    then show ?thesis
      using moveLast_heapify [OF wf ix b] i at b by (auto simp: replacement_ok_def)
  qed
qed

lemma dequeueConnectionByFd_absent:
  assumes "wf_queue q" "valid_fd fd" "connOf q fd = None"
  shows "dequeueConnectionByFd q fd = Inr (q, [])"
  using assms getIndex_valid [OF assms(1,2)]
  by (auto simp: dequeueConnectionByFd_def connOf_def split: if_splits)

end
