(* ===== verification/Queue_Dictionary.thy ===== *)
theory Queue_Dictionary
  imports Queue_Correct
begin

text \<open>
  The queue as a dictionary from descriptors to connections: each operation refines the
  corresponding map update, and so does every sequence of operations under a clock that
  does not go back. The two runs at the end show where the code leaves this contract.
\<close>

section \<open>Stored connections have distinct descriptors\<close>

lemma distinct_active:
  assumes "wf_queue q" "index_ok q"
  shows "distinct (map clientFd (active q))"
  using fd_differs [OF assms(2)] length_active [OF assms(1)]
  by (auto simp: distinct_conv_nth active_def)

lemma in_mset_minus_distinct:
  assumes "distinct xs"
  shows "x \<in># mset xs - {#c#} \<longleftrightarrow> x \<in> set xs \<and> x \<noteq> c"
proof -
  have "mset xs - {#c#} = mset (remove1 c xs)" by simp
  then show ?thesis using set_remove1_eq [OF assms, of c] by (metis Diff_iff set_mset_mset singletonD singletonI)
qed

lemma connOf_iff_mset:
  assumes "wf_queue q" "index_ok q"
  shows "connOf q fd = Some c \<longleftrightarrow> c \<in># mset (active q) \<and> clientFd c = fd"
  using connOf_Some_iff [OF assms] by simp

lemma active_unique:
  assumes "wf_queue q" "index_ok q" "c \<in> set (active q)" "e \<in> set (active q)"
    "clientFd e = clientFd c"
  shows "e = c"
  using connOf_Some_iff [OF assms(1,2), of "clientFd c"] assms(3-5) by (metis option.inject)

lemma connOf_eqI:
  assumes "wf_queue q" "index_ok q"
    and "\<And>fd c. (c \<in># mset (active q) \<and> clientFd c = fd) = (m fd = Some c)"
  shows "connOf q = m"
proof
  fix fd
  show "connOf q fd = m fd"
    using assms(3) connOf_iff_mset [OF assms(1,2)] by (metis not_None_eq)
qed

text \<open>The three ways the multiset of stored connections changes, read as map updates.\<close>

lemma connOf_added:
  assumes "wf_queue q" "index_ok q" "wf_queue q'" "index_ok q'"
    and "connOf q (clientFd c) = None" "mset (active q') = add_mset c (mset (active q))"
  shows "connOf q' = (connOf q)(clientFd c \<mapsto> c)"
proof (rule connOf_eqI [OF assms(3,4)])
  fix fd d
  have "clientFd e \<noteq> clientFd c" if "e \<in> set (active q)" for e
    using that connOf_Some_iff [OF assms(1,2), of "clientFd c" e] assms(5) by auto
  then show "(d \<in># mset (active q') \<and> clientFd d = fd) = (((connOf q)(clientFd c \<mapsto> c)) fd = Some d)"
    using connOf_iff_mset [OF assms(1,2)] assms(6) by (auto simp: fun_upd_def)
qed

lemma connOf_removed:
  assumes "wf_queue q" "index_ok q" "wf_queue q'" "index_ok q'"
    and "connOf q fd = Some c" "mset (active q') = mset (active q) - {#c#}"
  shows "connOf q' = (connOf q)(fd := None)"
proof (rule connOf_eqI [OF assms(3,4)])
  fix fd' d
  have "distinct (active q)"
    using distinct_active [OF assms(1,2)] by (simp add: distinct_map)
  then have "d \<in># mset (active q') \<longleftrightarrow> d \<in> set (active q) \<and> d \<noteq> c"
    unfolding assms(6) by (rule in_mset_minus_distinct)
  then show "(d \<in># mset (active q') \<and> clientFd d = fd') = (((connOf q)(fd := None)) fd' = Some d)"
    using connOf_Some_iff [OF assms(1,2)] assms(5) active_unique [OF assms(1,2), of c d]
    by (auto simp: fun_upd_def)
qed

lemma connOf_replaced:
  assumes "wf_queue q" "index_ok q" "wf_queue q'" "index_ok q'"
    and "connOf q fd = Some c" "clientFd d = fd"
    and "mset (active q') = add_mset d (mset (active q) - {#c#})"
  shows "connOf q' = (connOf q)(fd \<mapsto> d)"
proof (rule connOf_eqI [OF assms(3,4)])
  fix fd' e
  have "distinct (active q)"
    using distinct_active [OF assms(1,2)] by (simp add: distinct_map)
  then have "e \<in># mset (active q') \<longleftrightarrow> e = d \<or> (e \<in> set (active q) \<and> e \<noteq> c)"
    unfolding assms(7) using in_mset_minus_distinct [of "active q" e c] by auto
  then show "(e \<in># mset (active q') \<and> clientFd e = fd') = (((connOf q)(fd \<mapsto> d)) fd' = Some e)"
    using connOf_Some_iff [OF assms(1,2)] assms(5,6) active_unique [OF assms(1,2), of c e]
    by (auto simp: fun_upd_def)
qed

section \<open>There is room for every new descriptor\<close>

lemma room_for_new:
  assumes wf: "wf_queue q" and ix: "index_ok q" and fd: "valid_fd fd" "connOf q fd = None"
  shows "currentSize q < MAX_EPOLL_EVENTS"
proof -
  let ?f = "\<lambda>i. nat (clientFd (connections q ! i))"
  have "inj_on ?f {..<currentSize q}"
  proof (rule inj_onI)
    fix i j assume "i \<in> {..<currentSize q}" "j \<in> {..<currentSize q}" "?f i = ?f j"
    then show "i = j"
      using index_okD(1) [OF ix, of i] index_okD(1) [OF ix, of j] index_ok_inj [OF ix, of i j]
      by auto
  qed
  moreover have "?f ` {..<currentSize q} \<subseteq> {..<MAX_EPOLL_EVENTS} - {nat fd}"
    using index_okD(1) [OF ix] connOf_NoneD [OF wf ix fd(2)] fd(1)
    by (auto simp: valid_fd_def nat_eq_iff)
  ultimately have "card {..<currentSize q} \<le> card ({..<MAX_EPOLL_EVENTS} - {nat fd})"
    by (rule card_inj_on_le) simp
  then show ?thesis using fd(1) by (auto simp: valid_fd_def)
qed

section \<open>The operations as map updates\<close>

lemma clientFd_freshConnection [simp]: "clientFd (freshConnection fd now mem) = fd"
  and priorityTime_freshConnection [simp]: "priorityTime (freshConnection fd now mem) = now"
  by (simp_all add: freshConnection_def)

lemma getOrCreate_correct:
  assumes wf: "wf_queue q" and ix: "index_ok q" and fd: "valid_fd fd" and nb: "not_before q now"
  shows "\<exists>q' i. getConnectionOrCreateByFd q fd now mem = Inr (q', i) \<and> wf_queue q' \<and>
    index_ok q' \<and> i < currentSize q' \<and> clientFd (connections q' ! i) = fd \<and>
    connOf q' = (if connOf q fd = None then (connOf q)(fd \<mapsto> freshConnection fd now mem)
                 else connOf q) \<and>
    (heap_ok q \<longrightarrow> heap_ok q')"
proof (cases "connOf q fd")
  case None
  then have idx: "getIndex q fd = Inr (-1)"
    using fd getIndex_valid [OF wf fd] by (simp add: connOf_def split: if_splits)
  let ?c = "freshConnection fd now mem"
  obtain q' where q': "enqueueConnection q ?c = Inr q'" "wf_queue q'" "index_ok q'"
    "active q' = active q @ [?c]" "heap_ok q \<longrightarrow> heap_ok q'"
    using enqueue_last [OF wf ix room_for_new [OF wf ix fd None], of ?c] fd nb None by auto
  have m: "connOf q' = (connOf q)(fd \<mapsto> ?c)"
    using connOf_added [OF wf ix q'(2,3), of ?c] None q'(4) by simp
  obtain i where i: "i < currentSize q'" "connections q' ! i = ?c" "getIndex q' fd = Inr (int i)"
    using connOf_position [OF q'(2,3), of fd ?c] m by auto
  then show ?thesis
    using idx q' m None by (simp add: getConnectionOrCreateByFd_def)
next
  case (Some c)
  obtain i where "i < currentSize q" "connections q ! i = c" "clientFd c = fd"
    "getIndex q fd = Inr (int i)"
    by (rule connOf_position [OF wf ix Some])
  then show ?thesis using Some wf ix by (simp add: getConnectionOrCreateByFd_def)
qed

lemma existsConnection_correct:
  assumes "wf_queue q" "valid_fd fd"
  shows "existsConnection q fd = Inr (connOf q fd \<noteq> None)"
  using assms getIndex_valid [OF assms] by (simp add: existsConnection_def connOf_def)

lemma updateQueue_map:
  assumes wf: "wf_queue q" and ix: "index_ok q" and c: "connOf q fd = Some c"
    and t: "priorityTime c \<le> now"
  shows "\<exists>q'. updateQueueConnection q fd now mem = Inr (q', freeConnection c) \<and>
    wf_queue q' \<and> index_ok q' \<and> connOf q' = (connOf q)(fd \<mapsto> freshConnection fd now mem) \<and>
    (heap_ok q \<longrightarrow> heap_ok q')"
  using updateQueueConnection_correct [OF assms, of mem]
    connOf_replaced [OF wf ix _ _ c clientFd_freshConnection] by blast

lemma dequeueByFd_map:
  assumes wf: "wf_queue q" and ix: "index_ok q" and c: "connOf q fd = Some c"
  shows "\<exists>q'. dequeueConnectionByFd q fd = Inr (q', freeConnection c) \<and>
    wf_queue q' \<and> index_ok q' \<and> connOf q' = (connOf q)(fd := None) \<and>
    (heap_ok q \<and> replacement_ok q fd \<longrightarrow> heap_ok q')"
  using dequeueConnectionByFd_correct [OF assms] connOf_removed [OF wf ix _ _ c] by blast

lemma updateConnectionByFd_correct:
  assumes wf: "wf_queue q" and ix: "index_ok q" and c: "connOf q (clientFd d) = Some c"
  shows "\<exists>q'. updateConnectionByFd q d = Inr q' \<and> wf_queue q' \<and> index_ok q' \<and>
    connOf q' = (connOf q)(clientFd d \<mapsto> d) \<and>
    (heap_ok q \<and> priorityTime d = priorityTime c \<longrightarrow> heap_ok q')"
proof -
  obtain i where i: "i < currentSize q" "connections q ! i = c" "clientFd c = clientFd d"
    "valid_fd (clientFd d)" "getIndex q (clientFd d) = Inr (int i)" "i < MAX_EPOLL_EVENTS"
    by (rule connOf_position [OF wf ix c])
  define r where "r = q\<lparr>connections := (connections q)[i := d]\<rparr>"
  have r: "wf_queue r" "index_ok r" "mset (active r) = add_mset d (mset (active q) - {#c#})"
    using replace_ok [OF wf ix i(1), of d] i(2,3) by (simp_all add: r_def)
  have "heap_ok q \<and> priorityTime d = priorityTime c \<longrightarrow> heap_ok r"
    using i wf_queueD [OF wf] by (auto simp: heap_ok_def r_def nth_list_update)
  moreover have "updateConnectionByFd q d = Inr r"
    using i(5) setConn_valid [OF wf i(6)] by (simp add: updateConnectionByFd_def r_def)
  ultimately show ?thesis
    using r connOf_replaced [OF wf ix r(1,2) c refl r(3)] by auto
qed

section \<open>Sequences of operations\<close>

datatype queue_op = Connect int int string | Rearm int int string | Remove int

fun queue_step :: "queue \<Rightarrow> queue_op \<Rightarrow> queue res" where
  "queue_step q (Connect fd now mem) =
     res_bind (getConnectionOrCreateByFd q fd now mem) (\<lambda>(q', _). Inr q')"
| "queue_step q (Rearm fd now mem) =
     res_bind (updateQueueConnection q fd now mem) (\<lambda>(q', _). Inr q')"
| "queue_step q (Remove fd) = res_bind (dequeueConnectionByFd q fd) (\<lambda>(q', _). Inr q')"

fun queue_run :: "queue \<Rightarrow> queue_op list \<Rightarrow> queue res" where
  "queue_run q [] = Inr q"
| "queue_run q (x # xs) = res_bind (queue_step q x) (\<lambda>q'. queue_run q' xs)"

fun map_step :: "(int \<rightharpoonup> element) \<Rightarrow> queue_op \<Rightarrow> (int \<rightharpoonup> element)" where
  "map_step m (Connect fd now mem) =
     (if m fd = None then m(fd \<mapsto> freshConnection fd now mem) else m)"
| "map_step m (Rearm fd now mem) = m(fd \<mapsto> freshConnection fd now mem)"
| "map_step m (Remove fd) = m(fd := None)"

text \<open>
  What the callers guarantee: descriptors below the array bound, a clock that does not go
  back, and re-arming of stored connections only.
\<close>

fun legal :: "int \<Rightarrow> (int \<rightharpoonup> element) \<Rightarrow> queue_op list \<Rightarrow> bool" where
  "legal t m [] = True"
| "legal t m (Connect fd now mem # xs) =
     (valid_fd fd \<and> t \<le> now \<and> legal now (map_step m (Connect fd now mem)) xs)"
| "legal t m (Rearm fd now mem # xs) =
     (m fd \<noteq> None \<and> t \<le> now \<and> legal now (map_step m (Rearm fd now mem)) xs)"
| "legal t m (Remove fd # xs) = (valid_fd fd \<and> legal t (map_step m (Remove fd)) xs)"

definition times_before :: "(int \<rightharpoonup> element) \<Rightarrow> int \<Rightarrow> bool" where
  "times_before m t \<longleftrightarrow> (\<forall>fd c. m fd = Some c \<longrightarrow> priorityTime c \<le> t)"

lemma not_before_map:
  assumes "wf_queue q" "index_ok q" "times_before (connOf q) t" "t \<le> now"
  shows "not_before q now"
  using assms connOf_Some_iff [OF assms(1,2)]
  by (fastforce simp: not_before_def times_before_def)

lemma queue_step_refines:
  assumes "wf_queue q" "index_ok q" "times_before (connOf q) t" "legal t (connOf q) (x # xs)"
  shows "\<exists>q' t'. queue_step q x = Inr q' \<and> wf_queue q' \<and> index_ok q' \<and>
    connOf q' = map_step (connOf q) x \<and> times_before (connOf q') t' \<and>
    legal t' (map_step (connOf q) x) xs"
proof (cases x)
  case (Connect fd now mem)
  with assms have l: "valid_fd fd" "t \<le> now" "legal now (map_step (connOf q) x) xs" by simp_all
  note nb = not_before_map [OF assms(1-3) l(2)]
  obtain q' i where q': "getConnectionOrCreateByFd q fd now mem = Inr (q', i)" "wf_queue q'"
    "index_ok q'" "connOf q' = map_step (connOf q) x"
    using getOrCreate_correct [OF assms(1,2) l(1) nb, of mem] Connect by auto
  have "times_before (connOf q') now"
    using assms(3) l(2) Connect unfolding q'(4) times_before_def by (auto dest: order_trans)
  with q' l(3) Connect show ?thesis by auto
next
  case (Rearm fd now mem)
  with assms obtain c where l: "connOf q fd = Some c" "t \<le> now" "legal now (map_step (connOf q) x) xs"
    by auto
  have "priorityTime c \<le> now" using assms(3) l by (fastforce simp: times_before_def)
  then obtain q' where q': "updateQueueConnection q fd now mem = Inr (q', freeConnection c)"
    "wf_queue q'" "index_ok q'" "connOf q' = map_step (connOf q) x"
    using updateQueue_map [OF assms(1,2) l(1), of now mem] Rearm by auto
  have "times_before (connOf q') now"
    using assms(3) l(2) Rearm unfolding q'(4) times_before_def by (auto dest: order_trans)
  with q' l(3) Rearm show ?thesis by auto
next
  case (Remove fd)
  with assms have l: "valid_fd fd" "legal t (map_step (connOf q) x) xs" by simp_all
  show ?thesis
  proof (cases "connOf q fd")
    case None
    then have "(connOf q)(fd := None) = connOf q" by auto
    with None Remove l assms dequeueConnectionByFd_absent [OF assms(1) l(1)]
    show ?thesis by auto
  next
    case (Some c)
    obtain q' where q': "dequeueConnectionByFd q fd = Inr (q', freeConnection c)"
      "wf_queue q'" "index_ok q'" "connOf q' = map_step (connOf q) x"
      using dequeueByFd_map [OF assms(1,2) Some] Remove by auto
    have "times_before (connOf q') t"
      using assms(3) Remove unfolding q'(4) times_before_def by auto
    with q' l(2) Remove show ?thesis by auto
  qed
qed

fun map_run :: "(int \<rightharpoonup> element) \<Rightarrow> queue_op list \<Rightarrow> (int \<rightharpoonup> element)" where
  "map_run m [] = m"
| "map_run m (x # xs) = map_run (map_step m x) xs"

lemma queue_run_refines:
  assumes "wf_queue q" "index_ok q" "times_before (connOf q) t" "legal t (connOf q) xs"
  shows "\<exists>q'. queue_run q xs = Inr q' \<and> wf_queue q' \<and> index_ok q' \<and>
    connOf q' = map_run (connOf q) xs"
  using assms
proof (induction xs arbitrary: q t)
  case Nil
  then show ?case by simp
next
  case (Cons x xs)
  obtain q' t' where s: "queue_step q x = Inr q'" "wf_queue q'" "index_ok q'"
    "connOf q' = map_step (connOf q) x" "times_before (connOf q') t'"
    "legal t' (map_step (connOf q) x) xs"
    using queue_step_refines [OF Cons.prems] by blast
  from Cons.IH [OF s(2,3,5)] s show ?case by simp
qed

end
