(* ===== verification/Expiry.thy ===== *)
theory Expiry
  imports Queue_Dictionary
begin

text \<open>
  The keep-alive timeout at the head of \<open>handleEpoll\<close> (\<open>src/accept_client_epoll.c\<close>):
  the timeout handed to \<open>epoll_wait\<close> and the loop that closes expired connections. The
  loop relies on the queue only through an interface, the locale \<open>expiring_queue\<close>, which
  the C queue is shown to implement.

  \<open>epoll_ctl\<close> is the kernel's: its result for each descriptor is an argument.
\<close>

section \<open>Closing a client\<close>

datatype ctl_result = CtlOk | CtlEBADF | CtlError

definition closeEpollClient :: "(int \<Rightarrow> ctl_result) \<Rightarrow> int \<Rightarrow> int res" where
  "closeEpollClient ctl fd =
     (if ctl fd = CtlError then Inl (Died ''EPOLL_CTL_DEL failed with the clientFd'')
      else Inr fd)"

text \<open>The documented results of removing a registered descriptor: success, or \<open>EBADF\<close>.\<close>

definition delResult :: "(int \<Rightarrow> bool) \<Rightarrow> int \<Rightarrow> ctl_result" where
  "delResult ebadf fd = (if ebadf fd then CtlEBADF else CtlOk)"

type_synonym closed = "int \<times> released list"

text \<open>One turn of the loop: the body under the mutex.\<close>

definition expireStep ::
    "(int \<Rightarrow> ctl_result) \<Rightarrow> queue \<Rightarrow> int \<Rightarrow> (queue \<times> closed list) res" where
  "expireStep ctl q fd =
     res_bind (existsConnection q fd) (\<lambda>ex.
     if ex then
       res_bind (dequeueConnectionByFd q fd) (\<lambda>(q', rel).
       res_bind (closeEpollClient ctl fd) (\<lambda>closedFd. Inr (q', [(closedFd, rel)])))
     else Inr (q, []))"

definition epollTimeout :: "int \<Rightarrow> queue \<Rightarrow> int" where
  "epollTimeout now q =
     (case peekQueueConnections q of
        None \<Rightarrow> -1
      | Some c \<Rightarrow> if clientFd c \<noteq> 0 then (now - priorityTime c) * 1000 else -1)"

text \<open>
  The loop, over the queue's \<open>peek\<close> (descriptor and time of the front) and the body. It
  need not end, for instance when the front is not in \<open>indexQueue\<close>: then its value is
  \<open>None\<close>.
\<close>

partial_function (option) expire_loop ::
    "('q \<Rightarrow> (int \<times> int) option) \<Rightarrow> ('q \<Rightarrow> int \<Rightarrow> ('q \<times> 'e list) res) \<Rightarrow> int \<Rightarrow> 'q
      \<Rightarrow> 'e list \<Rightarrow> ('q \<times> 'e list) res option" where
  "expire_loop peek step now q acc =
     (case peek q of
        None \<Rightarrow> Some (Inr (q, acc))
      | Some (fd, t) \<Rightarrow>
          if fd \<noteq> 0 \<and> KEEP_ALIVE_TIMEOUT \<le> difftime now t then
            (case step q fd of
               Inl e \<Rightarrow> Some (Inl e)
             | Inr (q', ev) \<Rightarrow> expire_loop peek step now q' (acc @ ev))
          else Some (Inr (q, acc)))"

definition peekKey :: "queue \<Rightarrow> (int \<times> int) option" where
  "peekKey q = map_option (\<lambda>c. (clientFd c, priorityTime c)) (peekQueueConnections q)"

definition closeExpired ::
    "(int \<Rightarrow> ctl_result) \<Rightarrow> int \<Rightarrow> queue \<Rightarrow> (queue \<times> closed list) res option" where
  "closeExpired ctl now q = expire_loop peekKey (expireStep ctl) now q []"

section \<open>The interface the loop relies on\<close>

text \<open>A head of the queue that the loop closes.\<close>

definition expired_head :: "('q \<Rightarrow> (int \<times> int) option) \<Rightarrow> int \<Rightarrow> 'q \<Rightarrow> bool" where
  "expired_head peek now q \<longleftrightarrow> (\<exists>fd t. peek q = Some (fd, t) \<and> fd \<noteq> 0 \<and> KEEP_ALIVE_TIMEOUT \<le> now - t)"

locale draining_queue =
  fixes ok :: "'q \<Rightarrow> bool"
    and peek :: "'q \<Rightarrow> (int \<times> int) option"
    and step :: "'q \<Rightarrow> int \<Rightarrow> ('q \<times> 'e list) res"
    and entries :: "'q \<Rightarrow> (int \<rightharpoonup> int)"
    and reported :: "'e \<Rightarrow> int"
  assumes finite_entries: "ok q \<Longrightarrow> finite (dom (entries q))"
    and peek_Some: "ok q \<Longrightarrow> peek q = Some (fd, t) \<Longrightarrow> entries q fd = Some t"
    and step_peek: "ok q \<Longrightarrow> peek q = Some (fd, t) \<Longrightarrow>
      \<exists>q' ev. step q fd = Inr (q', ev) \<and> ok q' \<and> entries q' = (entries q)(fd := None) \<and>
        map reported ev = [fd]"
begin

lemma loop_stops:
  "\<not> expired_head peek now q \<Longrightarrow> expire_loop peek step now q acc = Some (Inr (q, acc))"
  by (subst expire_loop.simps) (auto simp: expired_head_def difftime_def split: option.splits)

lemma loop_turn:
  assumes "ok q" "expired_head peek now q"
  obtains fd t q1 ev where "entries q fd = Some t" "KEEP_ALIVE_TIMEOUT \<le> now - t" "ok q1"
    "entries q1 = (entries q)(fd := None)" "map reported ev = [fd]"
    "card (dom (entries q1)) < card (dom (entries q))"
    "\<And>acc. expire_loop peek step now q acc = expire_loop peek step now q1 (acc @ ev)"
proof -
  obtain fd t where pk: "peek q = Some (fd, t)" "fd \<noteq> 0" "KEEP_ALIVE_TIMEOUT \<le> now - t"
    using assms(2) by (auto simp: expired_head_def)
  have e: "entries q fd = Some t" by (rule peek_Some [OF assms(1) pk(1)])
  obtain q1 ev where s: "step q fd = Inr (q1, ev)" "ok q1"
    "entries q1 = (entries q)(fd := None)" "map reported ev = [fd]"
    using step_peek [OF assms(1) pk(1)] by auto
  have "dom (entries q1) = dom (entries q) - {fd}" using s(3) by auto
  then have "card (dom (entries q1)) < card (dom (entries q))"
    using e finite_entries [OF assms(1)] by (auto intro: psubset_card_mono)
  moreover have "expire_loop peek step now q acc = expire_loop peek step now q1 (acc @ ev)" for acc
    using pk s(1) by (simp add: expire_loop.simps [of _ _ _ q] difftime_def)
  ultimately show thesis using that [OF e pk(3) s(2-4)] by blast
qed

text \<open>Without the heap order the loop still ends, and closes only what has expired, each once.\<close>

lemma loop_drains:
  assumes "ok q"
  shows "\<exists>q' ev. expire_loop peek step now q acc = Some (Inr (q', acc @ ev)) \<and> ok q' \<and>
    entries q' = entries q |` (- set (map reported ev)) \<and>
    (\<forall>fd \<in> set (map reported ev). \<exists>t. entries q fd = Some t \<and> KEEP_ALIVE_TIMEOUT \<le> now - t) \<and>
    distinct (map reported ev) \<and> \<not> expired_head peek now q'"
  using assms
proof (induction "card (dom (entries q))" arbitrary: q acc rule: less_induct)
  case less
  show ?case
  proof (cases "expired_head peek now q")
    case False
    then show ?thesis
      using less.prems loop_stops [OF False]
      by (intro exI [of _ q] exI [of _ "[]"]) (simp add: restrict_map_def)
  next
    case True
    obtain fd t q1 ev1 where t: "entries q fd = Some t" "KEEP_ALIVE_TIMEOUT \<le> now - t" "ok q1"
      "entries q1 = (entries q)(fd := None)" "map reported ev1 = [fd]"
      "card (dom (entries q1)) < card (dom (entries q))"
      "\<And>acc. expire_loop peek step now q acc = expire_loop peek step now q1 (acc @ ev1)"
      using loop_turn [OF less.prems True] by metis
    obtain q' ev where r: "expire_loop peek step now q1 (acc @ ev1) = Some (Inr (q', (acc @ ev1) @ ev))"
      "ok q'" "entries q' = entries q1 |` (- set (map reported ev))"
      "\<forall>fd \<in> set (map reported ev). \<exists>t. entries q1 fd = Some t \<and> KEEP_ALIVE_TIMEOUT \<le> now - t"
      "distinct (map reported ev)" "\<not> expired_head peek now q'"
      using less.hyps [OF t(6,3), of "acc @ ev1"] by blast
    have "entries q' = entries q |` (- set (map reported (ev1 @ ev)))"
      using t(5) by (auto simp: r(3) t(4) restrict_map_def fun_eq_iff)
    moreover have "\<forall>fd' \<in> set (map reported (ev1 @ ev)).
        \<exists>t. entries q fd' = Some t \<and> KEEP_ALIVE_TIMEOUT \<le> now - t"
      using r(4) t(1,2,4,5) by (fastforce split: if_splits)
    moreover have "distinct (map reported (ev1 @ ev))" using r(4,5) t(4,5) by auto
    ultimately show ?thesis using r(1,2,6) t(7) by (intro exI [of _ q'] exI [of _ "ev1 @ ev"]) simp
  qed
qed

end

locale expiring_queue = draining_queue +
  assumes peek_None: "ok q \<Longrightarrow> peek q = None \<Longrightarrow> entries q = Map.empty"
    and peek_least: "ok q \<Longrightarrow> peek q = Some (fd, t) \<Longrightarrow> entries q fd' = Some t' \<Longrightarrow> t \<le> t'"
begin

lemma loop_closes_expired:
  assumes "ok q" "entries q 0 = None"
  shows "\<exists>q' ev. expire_loop peek step now q acc = Some (Inr (q', acc @ ev)) \<and> ok q' \<and>
    (\<forall>fd. entries q' fd = (case entries q fd of None \<Rightarrow> None
        | Some t \<Rightarrow> if KEEP_ALIVE_TIMEOUT \<le> now - t then None else Some t)) \<and>
    set (map reported ev) = {fd. \<exists>t. entries q fd = Some t \<and> KEEP_ALIVE_TIMEOUT \<le> now - t} \<and>
    distinct (map reported ev)"
proof -
  obtain q' ev where r: "expire_loop peek step now q acc = Some (Inr (q', acc @ ev))" "ok q'"
    "entries q' = entries q |` (- set (map reported ev))"
    "\<forall>fd \<in> set (map reported ev). \<exists>t. entries q fd = Some t \<and> KEEP_ALIVE_TIMEOUT \<le> now - t"
    "distinct (map reported ev)" "\<not> expired_head peek now q'"
    using loop_drains [OF assms(1)] by blast
  have zero: "entries q' 0 = None" using assms(2) by (simp add: r(3) restrict_map_def)
  have young: "\<not> KEEP_ALIVE_TIMEOUT \<le> now - t" if "entries q' fd = Some t" for fd t
  proof (cases "peek q'")
    case None
    then show ?thesis using peek_None [OF r(2)] that by simp
  next
    case (Some p)
    obtain fd1 t1 where p: "peek q' = Some (fd1, t1)" using Some by (cases p) simp
    have "t1 \<le> t" by (rule peek_least [OF r(2) p that])
    moreover have "fd1 \<noteq> 0" using peek_Some [OF r(2) p] zero by auto
    ultimately show ?thesis using r(6) p by (auto simp: expired_head_def)
  qed
  have closed: "fd \<in> set (map reported ev) \<longleftrightarrow> (\<exists>t. entries q fd = Some t \<and> KEEP_ALIVE_TIMEOUT \<le> now - t)"
    for fd
  proof
    assume "\<exists>t. entries q fd = Some t \<and> KEEP_ALIVE_TIMEOUT \<le> now - t"
    then show "fd \<in> set (map reported ev)"
      using young [of fd] by (cases "fd \<in> set (map reported ev)") (auto simp: r(3))
  qed (use r(4) in blast)
  have "entries q' fd = (case entries q fd of None \<Rightarrow> None
      | Some t \<Rightarrow> if KEEP_ALIVE_TIMEOUT \<le> now - t then None else Some t)" for fd
    using closed [of fd] by (auto simp: r(3) restrict_map_def split: option.split)
  then show ?thesis using r(1,2,5) closed by (intro exI [of _ q'] exI [of _ ev]) auto
qed

end

section \<open>The C queue provides it\<close>

definition timeOf :: "queue \<Rightarrow> int \<rightharpoonup> int" where
  "timeOf q fd = map_option priorityTime (connOf q fd)"

lemma timeOf_updates:
  "connOf q' = (connOf q)(fd := None) \<Longrightarrow> timeOf q' = (timeOf q)(fd := None)"
  by (auto simp: timeOf_def)

lemma peekKey_Some:
  assumes "wf_queue q" "index_ok q" "peekKey q = Some (fd, t)"
  shows "\<exists>c. connections q ! 0 = c \<and> 0 < currentSize q \<and> clientFd c = fd \<and>
    priorityTime c = t \<and> connOf q fd = Some c \<and> valid_fd fd"
proof -
  have pk: "0 < currentSize q" "clientFd (connections q ! 0) = fd"
    "priorityTime (connections q ! 0) = t"
    using assms(3) by (auto simp: peekKey_def peekQueueConnections_def split: if_splits)
  show ?thesis
    using pk connOf_Some_iff [OF assms(1,2)] nth_active [OF assms(1) pk(1)]
      index_okD(1) [OF assms(2) pk(1)] by auto
qed

lemma replacement_ok_root:
  assumes "index_ok q" "0 < currentSize q"
  shows "replacement_ok q (clientFd (connections q ! 0))"
  using index_okD(2) [OF assms] by (simp add: replacement_ok_def)

lemma expireStep_root:
  assumes wf: "wf_queue q" "index_ok q" and pk: "peekKey q = Some (fd, t)"
  shows "\<exists>q' ev. expireStep (delResult ebadf) q fd = Inr (q', ev) \<and> wf_queue q' \<and> index_ok q' \<and>
    (heap_ok q \<longrightarrow> heap_ok q') \<and> timeOf q' = (timeOf q)(fd := None) \<and> map fst ev = [fd]"
proof -
  obtain c where c: "connections q ! 0 = c" "0 < currentSize q" "clientFd c = fd"
    "connOf q fd = Some c" "valid_fd fd"
    using peekKey_Some [OF wf pk] by blast
  obtain q' where q': "dequeueConnectionByFd q fd = Inr (q', freeConnection c)" "wf_queue q'"
    "index_ok q'" "connOf q' = (connOf q)(fd := None)" "heap_ok q \<longrightarrow> heap_ok q'"
    using dequeueByFd_map [OF wf c(4)] replacement_ok_root [OF wf(2) c(2)] c by auto
  then show ?thesis
    using existsConnection_correct [OF wf(1) c(5)] c(4) timeOf_updates [OF q'(4)]
    by (simp add: expireStep_def closeEpollClient_def delResult_def)
qed

lemma finite_timeOf: "finite (dom (timeOf q))"
proof (rule finite_subset)
  show "dom (timeOf q) \<subseteq> {0..int MAX_EPOLL_EVENTS}"
    by (auto simp: timeOf_def connOf_def valid_fd_def split: if_splits)
qed simp

lemma peekKey_timeOf:
  assumes "wf_queue q" "index_ok q" "peekKey q = Some (fd, t)"
  shows "timeOf q fd = Some t"
  using peekKey_Some [OF assms] by (auto simp: timeOf_def)

text \<open>The queue drains as long as its index is right, and drains in time order when it is a heap.\<close>

definition indexed :: "queue \<Rightarrow> bool" where
  "indexed q \<longleftrightarrow> wf_queue q \<and> index_ok q"

interpretation conn_index: draining_queue indexed peekKey "expireStep (delResult ebadf)" timeOf fst
  for ebadf
proof
  fix q fd t
  show "finite (dom (timeOf q))" by (rule finite_timeOf)
  assume "indexed q" and pk: "peekKey q = Some (fd, t)"
  then have wf: "wf_queue q" "index_ok q" by (simp_all add: indexed_def)
  show "timeOf q fd = Some t" by (rule peekKey_timeOf [OF wf pk])
  show "\<exists>q' ev. expireStep (delResult ebadf) q fd = Inr (q', ev) \<and> indexed q' \<and>
      timeOf q' = (timeOf q)(fd := None) \<and> map fst ev = [fd]"
    using expireStep_root [OF wf pk, of ebadf] by (elim exE conjE, intro exI conjI) (auto simp: indexed_def)
qed

interpretation conn_queue: expiring_queue queue_ok peekKey "expireStep (delResult ebadf)" timeOf fst
  for ebadf
proof
  fix q fd t
  assume q: "queue_ok q" and pk: "peekKey q = Some (fd, t)"
  have wf: "wf_queue q" "index_ok q" "heap_ok q" using q by (simp_all add: queue_ok_def)
  show "timeOf q fd = Some t" by (rule peekKey_timeOf [OF wf(1,2) pk])
  obtain c where c: "connections q ! 0 = c" "0 < currentSize q" "priorityTime c = t"
    "connOf q fd = Some c" using peekKey_Some [OF wf(1,2) pk] by blast
  show "t \<le> t'" if "timeOf q fd' = Some t'" for fd' t'
  proof -
    obtain d where d: "connOf q fd' = Some d" "priorityTime d = t'"
      using \<open>timeOf q fd' = Some t'\<close> by (auto simp: timeOf_def)
    obtain i where "i < currentSize q" "connections q ! i = d"
      by (rule connOf_position [OF wf(1,2) d(1)])
    then show "t \<le> t'" using heap_root_least [OF wf(3), of i] c d by auto
  qed
  show "\<exists>q' ev. expireStep (delResult ebadf) q fd = Inr (q', ev) \<and> queue_ok q' \<and>
      timeOf q' = (timeOf q)(fd := None) \<and> map fst ev = [fd]"
    using expireStep_root [OF wf(1,2) pk, of ebadf] wf(3)
    by (elim exE conjE, intro exI conjI) (auto simp: queue_ok_def)
next
  fix q
  show "finite (dom (timeOf q))" by (rule finite_timeOf)
  assume q: "queue_ok q" and "peekKey q = None"
  then have "currentSize q = 0"
    by (auto simp: peekKey_def peekQueueConnections_def split: if_splits)
  then have "connOf q fd = None" for fd
    using q connOf_Some_iff [of q fd] length_active [of q]
    by (cases "connOf q fd") (auto simp: queue_ok_def)
  then show "timeOf q = Map.empty" by (auto simp: timeOf_def)
qed

end
