(* ===== verification/Queue_Properties.thy ===== *)
theory Queue_Properties
  imports Expiry
begin

text \<open>
  What the connection queue and the keep-alive loop guarantee, each with a witness on a
  concrete queue, and the two runs in which the code leaves its contract.
\<close>

section \<open>A concrete queue\<close>

lemma small_index [simp]:
  "0 < MAX_EPOLL_EVENTS" "MAX_EPOLL_EVENTS \<noteq> 0"
  "numeral n < MAX_EPOLL_EVENTS \<longleftrightarrow> (numeral n :: nat) < 1024"
  "Suc k < MAX_EPOLL_EVENTS \<longleftrightarrow> k < 1023"
  "numeral n = MAX_EPOLL_EVENTS \<longleftrightarrow> (numeral n :: nat) = 1024"
  "Suc k = MAX_EPOLL_EVENTS \<longleftrightarrow> k = 1023"
  by (auto simp: MAX_EPOLL_EVENTS_def)

text \<open>Descriptors 5, 6 and 7, last active at 10, 20 and 30.\<close>

definition demoQueue :: queue where
  "demoQueue = createQueueConnections\<lparr>currentSize := 3,
     indexQueue := (replicate MAX_EPOLL_EVENTS (-1))[5 := 0, 6 := 1, 7 := 2],
     connections := (replicate MAX_EPOLL_EVENTS zeroConnection)
       [0 := freshConnection 5 10 [], 1 := freshConnection 6 20 [],
        2 := freshConnection 7 30 []]\<rparr>"

lemma less_3_cases: "(i::nat) < 3 \<longleftrightarrow> i = 0 \<or> i = 1 \<or> i = 2"
  by auto

lemma demo_facts [simp]:
  "currentSize demoQueue = 3"
  "connections demoQueue ! 0 = freshConnection 5 10 []"
  "connections demoQueue ! 1 = freshConnection 6 20 []"
  "connections demoQueue ! Suc 0 = freshConnection 6 20 []"
  "connections demoQueue ! 2 = freshConnection 7 30 []"
  "indexQueue demoQueue ! 5 = 0" "indexQueue demoQueue ! 6 = 1" "indexQueue demoQueue ! 7 = 2"
  by (simp_all add: demoQueue_def createQueueConnections_def nth_list_update)

lemma demo_wf: "wf_queue demoQueue"
  by (simp add: demoQueue_def wf_queue_def createQueueConnections_def MAX_EPOLL_EVENTS_def)

lemma demo_index: "index_ok demoQueue"
proof (rule index_okI)
  fix i assume "i < currentSize demoQueue"
  then show "valid_fd (clientFd (connections demoQueue ! i)) \<and>
      indexQueue demoQueue ! nat (clientFd (connections demoQueue ! i)) = int i"
    by (auto simp: less_3_cases valid_fd_def)
next
  fix k assume k: "k < MAX_EPOLL_EVENTS" "indexQueue demoQueue ! k \<noteq> -1"
  then have "k = 5 \<or> k = 6 \<or> k = 7"
    by (auto simp: demoQueue_def createQueueConnections_def nth_list_update split: if_splits)
  then show "\<exists>i<currentSize demoQueue. indexQueue demoQueue ! k = int i \<and>
      clientFd (connections demoQueue ! i) = int k"
    by (auto simp: less_3_cases)
qed

lemma demo_heap: "heap_ok demoQueue"
  by (auto simp: heap_ok_def less_3_cases parentHeap_def)

lemma demo_ok: "queue_ok demoQueue"
  by (simp add: queue_ok_def demo_wf demo_index demo_heap)

lemma demo_connOf [simp]:
  "connOf demoQueue 5 = Some (freshConnection 5 10 [])"
  "connOf demoQueue 6 = Some (freshConnection 6 20 [])"
  by (simp_all add: connOf_def valid_fd_def)

lemma demo_connOf_None: "connOf demoQueue 0 = None" "connOf demoQueue 9 = None"
  by (simp_all add: connOf_def valid_fd_def demoQueue_def createQueueConnections_def nth_list_update)

lemma demo_active: "active demoQueue =
    [freshConnection 5 10 [], freshConnection 6 20 [], freshConnection 7 30 []]"
proof -
  have "length (connections demoQueue) = MAX_EPOLL_EVENTS" using demo_wf by (rule wf_queueD)
  then have "take 3 (connections demoQueue) = map ((!) (connections demoQueue)) [0, 1, 2]"
    by (intro nth_equalityI) (auto simp: less_3_cases MAX_EPOLL_EVENTS_def)
  then show ?thesis by (simp add: active_def)
qed

text \<open>The rules that evaluate a run of the queue on concrete operations.\<close>

lemma fd_emptyConnection [simp]: "clientFd emptyConnection = 0"
  by (simp add: emptyConnection_def)

lemmas queue_eval = getConnectionOrCreateByFd_def updateQueueConnection_def
  dequeueConnectionByFd_def enqueueConnection_def getIndex_def setIndex_def getConn_def
  setConn_def heapify.simps shiftUp.simps smallestChild_def swapReindex_def
  swapConnectionElementHeap_def swap_cells_def Let_def difftime_def parentHeap_def
  leftChildHeap_def rightChildHeap_def createQueueConnections_def nth_list_update

section \<open>The queue as a dictionary\<close>

text \<open>C1: Any sequence of first contacts, re-armings and closings, with descriptors below
  \<open>MAX_EPOLL_EVENTS\<close> and a clock that does not go back, runs without an error from the fresh
  queue, leaves \<open>indexQueue\<close> exact, and stores the connections that the same sequence of map
  updates stores.\<close>

theorem queue_run_implements_map:
  assumes "legal t Map.empty ops"
  shows "\<exists>q. queue_run createQueueConnections ops = Inr q \<and> wf_queue q \<and> index_ok q \<and>
    connOf q = map_run Map.empty ops"
proof -
  have e: "connOf createQueueConnections = Map.empty"
    by (auto simp: connOf_def createQueueConnections_def valid_fd_def)
  have "wf_queue createQueueConnections" "index_ok createQueueConnections"
    using create_ok by (simp_all add: queue_ok_def)
  moreover have "times_before (connOf createQueueConnections) t"
    by (simp add: e times_before_def)
  ultimately show ?thesis using queue_run_refines [of createQueueConnections t ops] assms e by simp
qed

theorem queue_run_implements_map_witness:
  "\<exists>q. queue_run createQueueConnections [Connect 5 10 [], Rearm 5 20 [], Remove 5] = Inr q \<and>
    wf_queue q \<and> index_ok q \<and>
    connOf q = map_run Map.empty [Connect 5 10 [], Rearm 5 20 [], Remove 5]"
  by (rule queue_run_implements_map [of 0]) (simp add: valid_fd_def)

text \<open>A descriptor the queue does not know and that fits \<open>indexQueue\<close> always finds room:
  \<open>getConnectionOrCreateByFd\<close> never reaches its \<open>die\<close> and returns the position of a
  connection of that descriptor, new ones with the state and buffer the code gives them.\<close>

theorem get_or_create_never_dies:
  assumes "wf_queue q" "index_ok q" "valid_fd fd" "not_before q now"
  shows "\<exists>q' i. getConnectionOrCreateByFd q fd now mem = Inr (q', i) \<and> wf_queue q' \<and>
    index_ok q' \<and> i < currentSize q' \<and> clientFd (connections q' ! i) = fd \<and>
    connOf q' = (if connOf q fd = None then (connOf q)(fd \<mapsto> freshConnection fd now mem)
                 else connOf q) \<and>
    (heap_ok q \<longrightarrow> heap_ok q')"
  using assms by (rule getOrCreate_correct)

theorem get_or_create_never_dies_witness:
  "\<exists>q' i. getConnectionOrCreateByFd demoQueue 9 40 [] = Inr (q', i) \<and> wf_queue q' \<and>
    index_ok q' \<and> i < currentSize q' \<and> clientFd (connections q' ! i) = 9 \<and>
    connOf q' = (if connOf demoQueue 9 = None
      then (connOf demoQueue)(9 \<mapsto> freshConnection 9 40 []) else connOf demoQueue) \<and>
    (heap_ok demoQueue \<longrightarrow> heap_ok q')"
  by (rule get_or_create_never_dies [OF demo_wf demo_index])
     (simp_all add: valid_fd_def not_before_def demo_active)

section \<open>The heap\<close>

text \<open>\<open>heapify\<close> returns on every well-formed queue; it rearranges the stored connections
  only, keeps \<open>indexQueue\<close> exact, and, when only the given position may violate the order
  towards its children, restores the heap order.\<close>

theorem heapify_restores_heap:
  assumes "wf_queue q" "index_ok q" "i < currentSize q"
  shows "\<exists>q'. heapify q i = Inr q' \<and> wf_queue q' \<and> index_ok q' \<and>
    currentSize q' = currentSize q \<and> mset (active q') = mset (active q) \<and>
    (heap_upto q i \<longrightarrow> heap_ok q')"
  using assms by (rule heapify_correct)

theorem heapify_restores_heap_witness:
  "\<exists>q'. heapify demoQueue 0 = Inr q' \<and> wf_queue q' \<and> index_ok q' \<and>
    currentSize q' = currentSize demoQueue \<and> mset (active q') = mset (active demoQueue) \<and>
    (heap_upto demoQueue 0 \<longrightarrow> heap_ok q')"
  by (rule heapify_restores_heap [OF demo_wf demo_index]) simp

text \<open>C2: \<open>enqueueConnection\<close> keeps the heap order and adds exactly the given connection,
  whatever its time.\<close>

theorem enqueue_keeps_heap:
  assumes "wf_queue q" "heap_ok q" "currentSize q < MAX_EPOLL_EVENTS" "valid_fd (clientFd c)"
  shows "\<exists>q'. enqueueConnection q c = Inr q' \<and> wf_queue q' \<and> heap_ok q' \<and>
    currentSize q' = currentSize q + 1 \<and> mset (active q') = add_mset c (mset (active q))"
  using assms by (rule enqueue_heap)

theorem enqueue_keeps_heap_witness:
  "\<exists>q'. enqueueConnection demoQueue (freshConnection 9 15 []) = Inr q' \<and> wf_queue q' \<and>
    heap_ok q' \<and> currentSize q' = currentSize demoQueue + 1 \<and>
    mset (active q') = add_mset (freshConnection 9 15 []) (mset (active demoQueue))"
  by (rule enqueue_keeps_heap [OF demo_wf demo_heap]) (simp_all add: valid_fd_def)


text \<open>Removing the front (\<open>dequeueConnection\<close>) removes exactly the connection with the
  earliest time, releases what it owned, and keeps every invariant.\<close>

theorem dequeue_removes_oldest:
  assumes "queue_ok q" "currentSize q \<noteq> 0"
  shows "\<exists>q' c. dequeueConnection q = Inr (q', freeConnection c) \<and> queue_ok q' \<and>
    peekQueueConnections q = Some c \<and> c \<in> set (active q) \<and>
    (\<forall>d \<in> set (active q). priorityTime c \<le> priorityTime d) \<and>
    mset (active q') = mset (active q) - {#c#}"
proof -
  have wf: "wf_queue q" "index_ok q" "heap_ok q" using assms(1) by (simp_all add: queue_ok_def)
  have pk: "peekQueueConnections q = Some (connections q ! 0)"
    using assms(2) by (simp add: peekQueueConnections_def)
  show ?thesis
    using dequeueConnection_correct [OF wf(1,2) assms(2)] wf(3) pk
      peek_least [OF wf(1,3) pk] nth_active [OF wf(1), of 0] assms(2)
    by (auto simp: queue_ok_def)
qed

theorem dequeue_removes_oldest_witness:
  "\<exists>q' c. dequeueConnection demoQueue = Inr (q', freeConnection c) \<and> queue_ok q' \<and>
    peekQueueConnections demoQueue = Some c \<and> c \<in> set (active demoQueue) \<and>
    (\<forall>d \<in> set (active demoQueue). priorityTime c \<le> priorityTime d) \<and>
    mset (active q') = mset (active demoQueue) - {#c#}"
  by (rule dequeue_removes_oldest [OF demo_ok]) simp

text \<open>C3: Removing a connection by descriptor releases what it owned and removes it from the
  dictionary and from nothing else; the heap order survives if the last connection, which
  replaces it, is not earlier than the parent of the freed position.\<close>

theorem remove_by_fd:
  assumes "wf_queue q" "index_ok q" "connOf q fd = Some c"
  shows "\<exists>q'. dequeueConnectionByFd q fd = Inr (q', freeConnection c) \<and>
    wf_queue q' \<and> index_ok q' \<and> connOf q' = (connOf q)(fd := None) \<and>
    (heap_ok q \<and> replacement_ok q fd \<longrightarrow> heap_ok q')"
  using assms by (rule dequeueByFd_map)

theorem remove_by_fd_witness:
  "\<exists>q'. dequeueConnectionByFd demoQueue 6 = Inr (q', freeConnection (freshConnection 6 20 [])) \<and>
    wf_queue q' \<and> index_ok q' \<and> connOf q' = (connOf demoQueue)(6 := None) \<and>
    (heap_ok demoQueue \<and> replacement_ok demoQueue 6 \<longrightarrow> heap_ok q')"
  by (rule remove_by_fd [OF demo_wf demo_index]) simp

text \<open>\<open>dequeueConnectionByFd\<close> only shifts the replacement down, so removals can break the
  heap order under an ordinary clock: after this run of twelve operations the front of the
  queue (descriptor 1, last active at 7) is not the oldest connection (descriptor 6, last active
  at 6), and the timeout loop, which looks at the front only, does not see it.\<close>

theorem removal_breaks_heap_order:
  "\<exists>q. queue_run createQueueConnections
     [Connect 1 1 [], Connect 2 2 [], Connect 3 3 [], Connect 4 4 [], Connect 5 5 [],
      Connect 6 6 [], Rearm 1 7 [], Rearm 4 8 [], Rearm 5 9 [], Remove 5, Rearm 2 10 [],
      Rearm 3 11 []] = Inr q \<and>
     peekKey q = Some (1, 7) \<and> timeOf q 6 = Some 6 \<and> \<not> heap_ok q"
proof -
  have "\<exists>q. queue_run createQueueConnections
     [Connect 1 1 [], Connect 2 2 [], Connect 3 3 [], Connect 4 4 [], Connect 5 5 [],
      Connect 6 6 [], Rearm 1 7 [], Rearm 4 8 [], Rearm 5 9 [], Remove 5, Rearm 2 10 [],
      Rearm 3 11 []] = Inr q \<and>
     currentSize q = 5 \<and> prioAt q 0 = 7 \<and> clientFd (connections q ! 0) = 1 \<and>
     prioAt q 1 = 6 \<and> indexQueue q ! 6 = 1"
    by (simp add: queue_eval)
  then show ?thesis
    by (force simp: peekKey_def peekQueueConnections_def timeOf_def connOf_def valid_fd_def
        heap_ok_def parentHeap_def intro!: exI [of _ 1])
qed

section \<open>Keep-alive\<close>

text \<open>Re-arming a kept-alive connection frees the old request, gives it a fresh one under
  the same descriptor with the new time, and keeps the dictionary and, when the clock has not
  gone back, the heap.\<close>

theorem rearm_connection:
  assumes "wf_queue q" "index_ok q" "connOf q fd = Some c" "priorityTime c \<le> now"
  shows "\<exists>q'. updateQueueConnection q fd now mem = Inr (q', freeConnection c) \<and>
    wf_queue q' \<and> index_ok q' \<and> connOf q' = (connOf q)(fd \<mapsto> freshConnection fd now mem) \<and>
    (heap_ok q \<longrightarrow> heap_ok q')"
  using assms by (rule updateQueue_map)

theorem rearm_connection_witness:
  "\<exists>q'. updateQueueConnection demoQueue 5 40 [] =
      Inr (q', freeConnection (freshConnection 5 10 [])) \<and>
    wf_queue q' \<and> index_ok q' \<and>
    connOf q' = (connOf demoQueue)(5 \<mapsto> freshConnection 5 40 []) \<and>
    (heap_ok demoQueue \<longrightarrow> heap_ok q')"
  by (rule rearm_connection [OF demo_wf demo_index]) simp_all

text \<open>C4: On a queue that satisfies the invariants and holds no descriptor 0, the timeout loop
  ends; it closes, once each, exactly the connections idle for \<open>KEEP_ALIVE_TIMEOUT\<close> seconds
  or more, and keeps all others.\<close>

theorem close_expired_exact:
  assumes "queue_ok q" "connOf q 0 = None"
  shows "\<exists>q' ev. closeExpired (delResult ebadf) now q = Some (Inr (q', ev)) \<and> queue_ok q' \<and>
    (\<forall>fd. timeOf q' fd = (case timeOf q fd of None \<Rightarrow> None
        | Some t \<Rightarrow> if KEEP_ALIVE_TIMEOUT \<le> now - t then None else Some t)) \<and>
    set (map fst ev) = {fd. \<exists>t. timeOf q fd = Some t \<and> KEEP_ALIVE_TIMEOUT \<le> now - t} \<and>
    distinct (map fst ev)"
  using conn_queue.loop_closes_expired [OF assms(1), where acc = "[]" and ebadf = ebadf and now = now] assms(2)
  by (simp add: closeExpired_def timeOf_def)

theorem close_expired_exact_witness:
  "\<exists>q' ev. closeExpired (delResult (\<lambda>_. False)) 75 demoQueue = Some (Inr (q', ev)) \<and> queue_ok q' \<and>
    (\<forall>fd. timeOf q' fd = (case timeOf demoQueue fd of None \<Rightarrow> None
        | Some t \<Rightarrow> if KEEP_ALIVE_TIMEOUT \<le> 75 - t then None else Some t)) \<and>
    set (map fst ev) = {fd. \<exists>t. timeOf demoQueue fd = Some t \<and> KEEP_ALIVE_TIMEOUT \<le> 75 - t} \<and>
    distinct (map fst ev)"
  by (rule close_expired_exact [OF demo_ok demo_connOf_None(1)])

text \<open>The timeout given to \<open>epoll_wait\<close> is the time the front has been idle, not the time
  it has left: the two agree only when the front is exactly 30 seconds old, and a front with
  no idle time at all makes \<open>epoll_wait\<close> return at once.\<close>

theorem epoll_timeout_is_idle_time:
  assumes "peekQueueConnections q = Some c" "clientFd c \<noteq> 0"
  shows "epollTimeout now q = (now - priorityTime c) * 1000 \<and>
    (epollTimeout now q = (KEEP_ALIVE_TIMEOUT - (now - priorityTime c)) * 1000 \<longleftrightarrow>
       now - priorityTime c = 30) \<and>
    (epollTimeout now q = 0 \<longleftrightarrow> now = priorityTime c)"
  using assms by (auto simp: epollTimeout_def KEEP_ALIVE_TIMEOUT_def)

theorem epoll_timeout_is_idle_time_witness:
  "peekQueueConnections demoQueue = Some (freshConnection 5 10 []) \<and>
   epollTimeout 69 demoQueue = (69 - priorityTime (freshConnection 5 10 [])) * 1000"
proof -
  have p: "peekQueueConnections demoQueue = Some (freshConnection 5 10 [])"
    by (simp add: peekQueueConnections_def)
  show ?thesis using p epoll_timeout_is_idle_time [OF p, of 69] by simp
qed

end
