(* ===== verification/C_Strings.thy ===== *)
theory C_Strings
  imports Prelude
begin

text \<open>
  Memory as the server's string code sees it: a block is the list of its characters, and a
  string is what stands before the first NUL. A function that runs past the end of the block
  is \<open>OutOfBounds\<close>. \<open>strstr\<close>, \<open>strcspn\<close>, \<open>strtok\<close>, \<open>strcmp\<close> and the \<open>%s\<close> of \<open>sscanf\<close> of the
  C library, and \<open>strCopySafe\<close> and \<open>toLower\<close> of \<open>src/helper.c\<close>.
\<close>

section \<open>Reading\<close>

abbreviation NUL :: char where "NUL \<equiv> CHR 0x00"
abbreviation CR :: char where "CR \<equiv> CHR 0x0D"
abbreviation LF :: char where "LF \<equiv> CHR 0x0A"

fun c_string :: "string \<Rightarrow> string res" where
  "c_string [] = Inl OutOfBounds"
| "c_string (c # m) = (if c = NUL then Inr [] else res_bind (c_string m) (\<lambda>s. Inr (c # s)))"

text \<open>
  \<open>strstr\<close> as a scan from the left: it stops at the first match, so it stays in a block
  without a NUL when the match comes first.
\<close>

fun strstr :: "string \<Rightarrow> string \<Rightarrow> nat option res" where
  "strstr p m =
     (if take (length p) m = p then Inr (Some 0)
      else case m of
        [] \<Rightarrow> Inl OutOfBounds
      | c # m' \<Rightarrow> if c = NUL then Inr None
          else res_bind (strstr p m') (\<lambda>r. Inr (map_option Suc r)))"

declare strstr.simps [simp del]

definition strcspn :: "string \<Rightarrow> string \<Rightarrow> nat" where
  "strcspn s reject = length (takeWhile (\<lambda>c. c \<noteq> NUL \<and> c \<notin> set reject) s)"

definition space :: "char \<Rightarrow> bool" where
  "space c \<longleftrightarrow> c \<in> {CHR 0x09, CHR 0x0A, CHR 0x0B, CHR 0x0C, CHR 0x0D, CHR 0x20}"

text \<open>One \<open>%s\<close> of \<open>sscanf\<close>: the next run of characters that are not white space, if any.\<close>

definition scan_token :: "string \<Rightarrow> (string \<times> string) option" where
  "scan_token s =
     (let s' = dropWhile space s; t = takeWhile (\<lambda>c. \<not> space c) s' in
      if t = [] then None else Some (t, drop (length t) s'))"

section \<open>Writing\<close>

definition poke :: "string \<Rightarrow> nat \<Rightarrow> char \<Rightarrow> string res" where
  "poke m i c = (if i < length m then Inr (m[i := c]) else Inl OutOfBounds)"

definition store :: "string \<Rightarrow> nat \<Rightarrow> string \<Rightarrow> string" where
  "store m i s = take i m @ s @ drop (i + length s) m"

text \<open>\<open>strCopySafe(dest, src)\<close> into an array of \<open>n\<close> characters: no safer than \<open>strcpy\<close>.\<close>

definition strCopySafe :: "nat \<Rightarrow> string \<Rightarrow> string res" where
  "strCopySafe n src = (if length src < n then Inr src else Inl OutOfBounds)"

definition tolower :: "char \<Rightarrow> char" where
  "tolower c = (let n = of_char c :: nat in if 65 \<le> n \<and> n \<le> 90 then char_of (n + 32) else c)"

definition toLower :: "string \<Rightarrow> string" where
  "toLower s = map tolower s"

section \<open>Lemmas\<close>

lemma c_string_terminated:
  assumes "NUL \<notin> set s"
  shows "c_string (s @ NUL # m) = Inr s"
  using assms by (induction s) auto

lemma length_store [simp]: "i + length s \<le> length m \<Longrightarrow> length (store m i s) = length m"
  by (simp add: store_def)

lemma strstr_Cons:
  "strstr p (c # m) = (if take (length p) (c # m) = p then Inr (Some 0)
     else if c = NUL then Inr None else res_bind (strstr p m) (\<lambda>r. Inr (map_option Suc r)))"
  by (subst strstr.simps) simp

text \<open>The pattern occurs in \<open>s\<close> at no position before \<open>k\<close>.\<close>

definition free_upto :: "string \<Rightarrow> string \<Rightarrow> nat \<Rightarrow> bool" where
  "free_upto p s k \<longleftrightarrow> (\<forall>i<k. take (length p) (drop i s) \<noteq> p)"

lemma free_upto_Suc:
  "free_upto p (c # s) (Suc k) \<longleftrightarrow> take (length p) (c # s) \<noteq> p \<and> free_upto p s k"
  unfolding free_upto_def by (auto simp: less_Suc_eq_0_disj)

lemma strstr_found:
  assumes "NUL \<notin> set s" "free_upto p (s @ p @ m) (length s)"
  shows "strstr p (s @ p @ m) = Inr (Some (length s))"
  using assms
proof (induction s)
  case Nil
  then show ?case by (subst strstr.simps) simp
next
  case (Cons c s)
  then show ?case by (auto simp: strstr_Cons free_upto_Suc)
qed

lemma strstr_absent:
  assumes "NUL \<notin> set s" "NUL \<notin> set p" "p \<noteq> []"
    "free_upto p s (length s)"
  shows "strstr p (s @ NUL # m) = Inr None"
proof -
  have no: "take (length p) (drop i s @ NUL # m) \<noteq> p" if "i \<le> length s" for i
  proof
    assume t: "take (length p) (drop i s @ NUL # m) = p"
    have "length p \<le> length (drop i s)"
    proof (rule ccontr)
      assume "\<not> length p \<le> length (drop i s)"
      then have "NUL \<in> set (take (length p) (drop i s @ NUL # m))"
        by (auto simp: take_Cons' in_set_conv_nth)
      with t assms(2) show False by simp
    qed
    then have "take (length p) (drop i s) = p" using t by simp
    moreover from this have "i < length s" using that assms(3) by (cases "i = length s") auto
    ultimately show False using assms(4) by (auto simp: free_upto_def)
  qed
  have "strstr p (drop i s @ NUL # m) = Inr None" if "i \<le> length s" for i
    using that
  proof (induction "length s - i" arbitrary: i)
    case 0
    with no [of i] show ?case by (simp add: strstr_Cons)
  next
    case (Suc k)
    then have "drop i s = s ! i # drop (Suc i) s" "s ! i \<noteq> NUL"
      using assms(1) by (auto simp: Cons_nth_drop_Suc in_set_conv_nth)
    with Suc no [of i] show ?case by (simp add: strstr_Cons)
  qed
  from this [of 0] show ?thesis by simp
qed

lemma strstr_without_NUL:
  assumes "NUL \<notin> set s"
  shows "strstr p s = Inl OutOfBounds \<or> (\<exists>k. strstr p s = Inr (Some k))"
  using assms
proof (induction s)
  case Nil
  then show ?case by (subst (1 2) strstr.simps) auto
next
  case (Cons c s)
  then show ?case by (auto simp: strstr_Cons)
qed

lemma scan_token_word:
  assumes "w \<noteq> []" "\<forall>c \<in> set w. \<not> space c" "s = [] \<or> space (hd s)"
  shows "scan_token (w @ s) = Some (w, s)"
proof -
  have d: "dropWhile space (w @ s) = w @ s" using assms(1,2) by (cases w) auto
  have "takeWhile (\<lambda>c. \<not> space c) (w @ s) = w"
    using assms(2,3) by (cases s) (auto simp: takeWhile_append takeWhile_eq_all_conv)
  then show ?thesis using assms(1) d by (simp add: scan_token_def)
qed

lemma scan_token_skip: "space c \<Longrightarrow> scan_token (c # s) = scan_token s"
  by (simp add: scan_token_def)

end
