(* ===== verification/Request.thy ===== *)
theory Request
  imports C_Strings Queue_Connections
begin

text \<open>
  Receiving and parsing a request: \<open>recvRequest\<close> and \<open>processRequest\<close> of \<open>src/request.c\<close>
  with the header list of \<open>src/header.c\<close>.

  The socket is a script of what \<open>recv\<close> meets: bytes that have arrived (\<open>recv\<close> takes as many
  as there is room for and leaves the rest, none at the end of the stream), or an error. A
  script that runs out while the code still loops gives \<open>Spinning\<close>. \<open>malloc\<close> and
  \<open>strdup\<close> do not fail here, and logging is left out.
\<close>

section \<open>Receiving\<close>

datatype recv_event = Arrive string | RecvEINTR | RecvEAGAIN | RecvError

definition CRLFCRLF :: string where "CRLFCRLF = [CR, LF, CR, LF]"
definition CRLF :: string where "CRLF = [CR, LF]"

definition isRequestComplete :: "string \<Rightarrow> bool res" where
  "isRequestComplete buffer = res_bind (strstr CRLFCRLF buffer) (\<lambda>r. Inr (r \<noteq> None))"

text \<open>The end of a complete request: NUL-terminate at the offset, change the state.\<close>

definition completeRequest :: "element \<Rightarrow> string \<Rightarrow> element res" where
  "completeRequest c buffer =
     res_bind (poke buffer (requestBufferOffset c) NUL) (\<lambda>b.
     Inr (c\<lparr>requestBuffer := Some b, state := STATE_CONNECTION_SEND_HEADERS,
            requestBufferOffset := 0\<rparr>))"

fun recvRequest :: "recv_event list \<Rightarrow> element \<Rightarrow> (element \<times> recv_event list) res" where
  "recvRequest [] c = Inl Spinning"
| "recvRequest (RecvEINTR # es) c = recvRequest es c"
| "recvRequest (RecvEAGAIN # es) c =
     (case requestBuffer c of
        None \<Rightarrow> Inl OutOfBounds
      | Some b \<Rightarrow>
          res_bind (isRequestComplete b) (\<lambda>done.
          if done then res_bind (completeRequest c b) (\<lambda>c'. Inr (c', es)) else Inr (c, es)))"
| "recvRequest (RecvError # es) c = Inr (c\<lparr>state := STATE_CONNECTION_DONE_FOR_CLOSE\<rparr>, es)"
| "recvRequest (Arrive bs # es) c =
     (case requestBuffer c of
        None \<Rightarrow> Inl OutOfBounds
      | Some b \<Rightarrow>
          let room = requestBufferLength c - requestBufferOffset c;
              got = take room bs; rest = drop room bs
          in if got = []
             then Inr (c\<lparr>state := STATE_CONNECTION_DONE_FOR_CLOSE\<rparr>, Arrive bs # es)
             else
               let b1 = store b (requestBufferOffset c) got;
                   c1 = c\<lparr>requestBuffer := Some b1,
                          requestBufferOffset := requestBufferOffset c + length got\<rparr>
               in res_bind (isRequestComplete b1) (\<lambda>done.
                  if done then res_bind (completeRequest c1 b1) (\<lambda>c2.
                    Inr (c2, if rest = [] then es else Arrive rest # es))
                  else if rest = [] then recvRequest es c1
                  else \<comment> \<open>no room is left, so the next \<open>recv\<close> of 0 bytes returns 0\<close>
                    Inr (c1\<lparr>state := STATE_CONNECTION_DONE_FOR_CLOSE\<rparr>, Arrive rest # es)))"

section \<open>Parsing\<close>

text \<open>\<open>strToMethod\<close>: the position in \<open>methodsList\<close>.\<close>

definition methodTable :: "(string \<times> Method) list" where
  "methodTable = zip methodsList [METHOD_GET, METHOD_POST, METHOD_PUT, METHOD_PATCH,
     METHOD_DELETE, METHOD_HEAD, METHOD_OPTIONS]"

definition strToMethod :: "string \<Rightarrow> Method" where
  "strToMethod m = (case map_of methodTable m of None \<Rightarrow> METHOD_UNSUPPORTED | Some x \<Rightarrow> x)"

text \<open>
  \<open>sscanf(requestLine, "%s %s %s", method, path, protocolVersion)\<close> into arrays of 10, 4096
  and 9 characters. A missing token leaves its array uninitialised.
\<close>

definition scan_into :: "nat \<Rightarrow> string \<Rightarrow> (string \<times> string) res" where
  "scan_into n s = (case scan_token s of
       None \<Rightarrow> Inl Uninitialised
     | Some (t, rest) \<Rightarrow> if length t < n then Inr (t, rest) else Inl OutOfBounds)"

definition scanRequestLine :: "string \<Rightarrow> (string \<times> string \<times> string) res" where
  "scanRequestLine s =
     res_bind (scan_into 10 s) (\<lambda>(m, s1).
     res_bind (scan_into 4096 s1) (\<lambda>(p, s2).
     res_bind (scan_into 9 s2) (\<lambda>(v, _). Inr (m, p, v))))"

definition realPath :: "string \<Rightarrow> string" where
  "realPath p = (let q = takeWhile (\<lambda>c. c \<noteq> CHR ''?'') p in
     if q = ''/'' then ''/index.html'' else q)"

text \<open>
  The \<open>strtok(headersString, "\r\n")\<close> loop. \<open>m\<close> is what is left of the array \<open>headersString\<close>
  from \<open>strtok\<close>'s saved position on, its NUL included. \<open>strtok\<close> overwrites the delimiter
  after the token with a NUL; the value is read from \<open>header + nameLen + 2\<close>, whatever
  stands between, and may run into the rest of the array.
\<close>

definition not_eol :: "char \<Rightarrow> bool" where
  "not_eol c \<longleftrightarrow> c \<notin> {CR, LF, NUL}"

definition parseHeader :: "string \<Rightarrow> string \<Rightarrow> (string \<times> string) res" where
  "parseHeader tok after =
     (let nameLen = strcspn tok '': '';
          line = tok @ NUL # tl after;
          name = take nameLen tok
      in if nameLen + 2 < length line
         then Inr (toLower name, takeWhile not_eol (drop (nameLen + 2) line))
         else Inl OutOfBounds)"

function parseHeaders :: "string \<Rightarrow> (string \<times> string) list \<Rightarrow> (string \<times> string) list res" where
  "parseHeaders m acc =
     (let s = dropWhile (\<lambda>c. c = CR \<or> c = LF) m;
          tok = takeWhile not_eol s; after = drop (length tok) s
      in if tok = [] then Inr acc
         else if after = [] then Inl OutOfBounds
         else res_bind (parseHeader tok after) (\<lambda>h.
           parseHeaders (if hd after = NUL then after else tl after) (h # acc)))"
  by pat_completeness auto
termination
proof (relation "measure (\<lambda>(m, acc). length m)", goal_cases)
  case (2 m acc s tok after h)
  have "length s \<le> length m" using 2(1) by (simp add: length_dropWhile_le)
  moreover have "1 \<le> length tok" using 2(4) by (simp add: Suc_le_eq)
  moreover have "length tok \<le> length s" using 2(2) by (simp add: length_takeWhile_le)
  moreover have "length after = length s - length tok" using 2(3) by simp
  ultimately have "length after < length m" by linarith
  then show ?case by auto
qed simp

declare parseHeaders.simps [simp del]

text \<open>
  \<open>processRequest\<close>: the result, and the connection. \<open>peer\<close> is what \<open>getpeername\<close> gives
  (\<open>None\<close> when it fails), \<open>htmlDir\<close> the option.
\<close>

definition parseBody :: "string \<Rightarrow> nat \<Rightarrow> element \<Rightarrow> (bool \<times> element) res" where
  "parseBody buffer firstLineLength c =
     (let rest = drop (firstLineLength + 2) buffer in
      res_bind (strstr CRLFCRLF rest) (\<lambda>r.
      case r of
        None \<Rightarrow> Inr (True, c)
      | Some k \<Rightarrow>
          res_bind (c_string (drop (k + 4) rest)) (\<lambda>body.
          let c1 = (if body = [] then c else c\<lparr>requestBody := Some body\<rparr>);
              headersString = take (k + 6) (drop firstLineLength buffer) @ [NUL]
          in res_bind (parseHeaders headersString (case requestHeaders c of None \<Rightarrow> [] | Some hs \<Rightarrow> hs))
               (\<lambda>hs. Inr (True, c1\<lparr>requestHeaders := (if hs = [] then None else Some hs)\<rparr>)))))"

definition processRequest :: "string \<Rightarrow> string option \<Rightarrow> element \<Rightarrow> (bool \<times> element) res" where
  "processRequest htmlDir peer c0 =
     (case requestBuffer c0 of
        None \<Rightarrow> Inl OutOfBounds
      | Some buffer \<Rightarrow>
          let c1 = c0\<lparr>scheme := ''http''\<rparr> in
          (case peer of
             None \<Rightarrow> Inr (False, c1)
           | Some addr \<Rightarrow>
               let c2 = c1\<lparr>ip := addr\<rparr> in
               res_bind (strstr CRLF buffer) (\<lambda>r.
               case r of
                 None \<Rightarrow> Inr (False, c2)
               | Some firstLineLength \<Rightarrow>
                   res_bind (scanRequestLine (take firstLineLength buffer)) (\<lambda>(method, p, version).
                   let c3 = c2\<lparr>path := Some p, req_method := strToMethod method,
                          protocolVersion := version\<rparr>
                   in if req_method c3 = METHOD_UNSUPPORTED then Inr (False, c3)
                      else parseBody buffer firstLineLength
                             (c3\<lparr>absolutePath := Some (htmlDir @ realPath p)\<rparr>)))))"

section \<open>The header list\<close>

fun addHeader :: "(string \<times> string) list \<Rightarrow> string \<Rightarrow> string \<Rightarrow> (string \<times> string) list" where
  "addHeader [] name val = [(name, val)]"
| "addHeader (h # hs) name val = h # (name, val) # hs"

fun getHeader :: "(string \<times> string) list \<Rightarrow> string \<Rightarrow> string option" where
  "getHeader [] name = None"
| "getHeader ((n, v) # hs) name = (if n = name then Some v else getHeader hs name)"

end
