(* ===== verification/Response.thy ===== *)
theory Response
  imports Request
begin

text \<open>
  Answering a request: \<open>src/response.c\<close>, \<open>sendAll\<close> and \<open>makeDirectory\<close> of \<open>src/helper.c\<close>,
  and the reason phrases of \<open>include/http_status_code.h\<close>.

  The client's side of the socket is a script of what \<open>send\<close> and \<open>sendfile\<close> meet: room for
  a number of bytes, or an error; what they hand over is returned. The file system is a
  record of the files and directories by path and the contents of the open descriptors.
  libmagic, zlib, the formatted dates and the directories \<open>mkdir\<close> refuses are arguments (the
  record \<open>env\<close>): \<open>magic\<close> is the type of a content, \<open>gzip\<close> its compressed form.
\<close>

section \<open>Sending\<close>

datatype send_event = Accept nat | SendEINTR | SendEAGAIN | SendError

text \<open>
  \<open>sendAll\<close>: \<open>send(fd, buffer, count)\<close> always starts at \<open>buffer\<close> and always asks for
  \<open>count\<close> bytes, and \<open>leftToWrite\<close> is a 64-bit \<open>size_t\<close>. \<open>Looping\<close> is a loop that is
  still running when the script ends, with its \<open>leftToWrite\<close>.
\<close>

datatype send_result = Returned "64 word" | Looping "64 word"

fun sendAll_loop :: "send_event list \<Rightarrow> string \<Rightarrow> 64 word \<Rightarrow> send_result \<times> string \<times> send_event list" where
  "sendAll_loop [] buffer left =
     (if left = 0 then (Returned (word_of_nat (length buffer)), [], []) else (Looping left, [], []))"
| "sendAll_loop (e # es) buffer left =
     (if left = 0 then (Returned (word_of_nat (length buffer)), [], e # es)
      else case e of
        SendEINTR \<Rightarrow> sendAll_loop es buffer left
      | SendEAGAIN \<Rightarrow> (Returned (-1), [], es)
      | SendError \<Rightarrow> (Returned (-1), [], es)
      | Accept n \<Rightarrow>
          let written = take n buffer;
              (r, sent, es') = sendAll_loop es buffer (left - word_of_nat (length written))
          in (r, written @ sent, es'))"

definition sendAll :: "send_event list \<Rightarrow> string \<Rightarrow> send_result \<times> string \<times> send_event list" where
  "sendAll es buffer = sendAll_loop es buffer (word_of_nat (length buffer))"

text \<open>
  \<open>sendResponseHeaders\<close>: the connection, the bytes sent and the rest of the script.
  \<open>responseBufferHeaders\<close> is the block \<open>strdup\<close> made, its NUL included.
\<close>

definition window :: "string \<Rightarrow> nat \<Rightarrow> nat \<Rightarrow> string res" where
  "window m offset n = (if offset + n \<le> length m then Inr (take n (drop offset m)) else Inl OutOfBounds)"

fun sendResponseHeaders ::
    "send_event list \<Rightarrow> element \<Rightarrow> (element \<times> string \<times> send_event list) res" where
  "sendResponseHeaders [] c = Inl Spinning"
| "sendResponseHeaders (SendEINTR # es) c = sendResponseHeaders es c"
| "sendResponseHeaders (SendEAGAIN # es) c =
     (if responseBufferHeadersOffset c = responseBufferHeadersLength c
      then Inr (c\<lparr>state := STATE_CONNECTION_SEND_BODY, responseBufferHeadersOffset := 0\<rparr>, [], es)
      else Inr (c, [], es))"
| "sendResponseHeaders (SendError # es) c = Inr (c\<lparr>state := STATE_CONNECTION_DONE_FOR_CLOSE\<rparr>, [], es)"
| "sendResponseHeaders (Accept n # es) c =
     (case responseBufferHeaders c of
        None \<Rightarrow> Inl OutOfBounds
      | Some m \<Rightarrow>
          res_bind (window m (responseBufferHeadersOffset c)
            (responseBufferHeadersLength c - responseBufferHeadersOffset c)) (\<lambda>asked.
          let sent = take n asked;
              c1 = c\<lparr>responseBufferHeadersOffset := responseBufferHeadersOffset c + length sent\<rparr>
          in if sent = [] then Inr (c1\<lparr>state := STATE_CONNECTION_DONE_FOR_CLOSE\<rparr>, [], es)
             else if responseBufferHeadersOffset c1 = responseBufferHeadersLength c1
             then Inr (c1\<lparr>state := STATE_CONNECTION_SEND_BODY, responseBufferHeadersOffset := 0\<rparr>, sent, es)
             else res_bind (sendResponseHeaders es c1) (\<lambda>(c2, more_sent, es').
               Inr (c2, sent @ more_sent, es'))))"

section \<open>The file system\<close>

record inode =
  content :: string
  atime :: int
  modified :: string

datatype node = Absent | Denied | File inode

record fs =
  nodes :: "string \<Rightarrow> node"
  dirs :: "string list"
  opened :: "int \<Rightarrow> inode option"
  nextFd :: int

record env =
  htmlDir :: string
  cwd :: string
  magic :: "string \<Rightarrow> string"
  gzip :: "string \<Rightarrow> string"
  date :: string
  mkdirFails :: "string \<Rightarrow> bool"

definition closeFd :: "int \<Rightarrow> fs \<Rightarrow> fs" where
  "closeFd fd s = s\<lparr>opened := (opened s)(fd := None)\<rparr>"

definition openFile :: "inode \<Rightarrow> fs \<Rightarrow> int \<times> fs" where
  "openFile f s = (nextFd s, s\<lparr>opened := (opened s)(nextFd s := Some f), nextFd := nextFd s + 1\<rparr>)"

text \<open>
  \<open>sendResponseFile\<close>: \<open>sendfile\<close> copies from the file's content at \<open>bodyOffset\<close> and advances it.
\<close>

definition bodyDone :: "element \<Rightarrow> fs \<Rightarrow> element \<times> fs" where
  "bodyDone c s = (c\<lparr>state := STATE_CONNECTION_DONE, bodyOffset := 0, bodyFd := -1\<rparr>, closeFd (bodyFd c) s)"

fun sendfile_loop ::
    "send_event list \<Rightarrow> element \<Rightarrow> fs \<Rightarrow> (element \<times> fs \<times> string \<times> send_event list) res" where
  "sendfile_loop [] c s = Inl Spinning"
| "sendfile_loop (SendEINTR # es) c s = sendfile_loop es c s"
| "sendfile_loop (SendEAGAIN # es) c s =
     (if bodyOffset c = bodyLength c
      then let (c', s') = bodyDone c s in Inr (c', s', [], es) else Inr (c, s, [], es))"
| "sendfile_loop (SendError # es) c s = Inr (c\<lparr>state := STATE_CONNECTION_DONE_FOR_CLOSE\<rparr>, s, [], es)"
| "sendfile_loop (Accept n # es) c s =
     (case opened s (bodyFd c) of
        None \<Rightarrow> Inr (c\<lparr>state := STATE_CONNECTION_DONE_FOR_CLOSE\<rparr>, s, [], Accept n # es)
      | Some f \<Rightarrow>
          let sent = take (min n (bodyLength c - bodyOffset c)) (drop (bodyOffset c) (content f));
              c1 = c\<lparr>bodyOffset := bodyOffset c + length sent\<rparr>
          in if sent = [] then Inr (c1\<lparr>state := STATE_CONNECTION_DONE_FOR_CLOSE\<rparr>, s, [], es)
             else if bodyOffset c1 = bodyLength c1
             then let (c2, s2) = bodyDone c1 s in Inr (c2, s2, sent, es)
             else res_bind (sendfile_loop es c1 s) (\<lambda>(c2, s2, more_sent, es').
               Inr (c2, s2, sent @ more_sent, es')))"

definition sendResponseFile ::
    "send_event list \<Rightarrow> element \<Rightarrow> fs \<Rightarrow> (element \<times> fs \<times> string \<times> send_event list) res" where
  "sendResponseFile es c s =
     (if bodyFd c = -1
      then Inr (c\<lparr>state := STATE_CONNECTION_DONE, bodyOffset := 0\<rparr>, s, [], es)
      else sendfile_loop es c s)"

section \<open>Status codes and the content type\<close>

definition statusTable :: "(nat \<times> string) list" where
  "statusTable =
    [(100, ''Continue''), (101, ''Switching Protocols''), (102, ''Processing''),
     (103, ''Early Hints''), (200, ''OK''), (201, ''Created''), (202, ''Accepted''),
     (203, ''Non-Authoritative Information''), (204, ''No Content''),
     (205, ''Reset Content''), (206, ''Partial Content''), (207, ''Multi-Status''),
     (208, ''Already Reported''), (226, ''IM Used''), (300, ''Multiple Choices''),
     (301, ''Moved Permanently''), (302, ''Found''), (303, ''See Other''),
     (304, ''Not Modified''), (305, ''Use Proxy''), (307, ''Temporary Redirect''),
     (308, ''Permanent Redirect''), (400, ''Bad Request''), (401, ''Unauthorized''),
     (402, ''Payment Required''), (403, ''Forbidden''), (404, ''Not Found''),
     (405, ''Method Not Allowed''), (406, ''Not Acceptable''),
     (407, ''Proxy Authentication Required''), (408, ''Request Timeout''),
     (409, ''Conflict''), (410, ''Gone''), (411, ''Length Required''),
     (412, ''Precondition Failed''), (413, ''Content Too Large''), (414, ''URI Too Long''),
     (415, ''Unsupported Media Type''), (416, ''Range Not Satisfiable''),
     (417, ''Expectation Failed''), (418, ''I'm a teapot''), (421, ''Misdirected Request''),
     (422, ''Unprocessable Content''), (423, ''Locked''), (424, ''Failed Dependency''),
     (425, ''Too Early''), (426, ''Upgrade Required''), (428, ''Precondition Required''),
     (429, ''Too Many Requests''), (431, ''Request Header Fields Too Large''),
     (451, ''Unavailable For Legal Reasons''), (500, ''Internal Server Error''),
     (501, ''Not Implemented''), (502, ''Bad Gateway''), (503, ''Service Unavailable''),
     (504, ''Gateway Timeout''), (505, ''HTTP Version Not Supported''),
     (506, ''Variant Also Negotiates''), (507, ''Insufficient Storage''),
     (508, ''Loop Detected''), (510, ''Not Extended''),
     (511, ''Network Authentication Required'')]"

definition HTTP_STATUS_REASON :: "nat \<Rightarrow> string option" where
  "HTTP_STATUS_REASON code = map_of statusTable code"

text \<open>\<open>strcmp(a, b) > 0\<close>: the first difference, as unsigned characters, is greater in \<open>a\<close>.\<close>

fun strcmp_greater :: "string \<Rightarrow> string \<Rightarrow> bool" where
  "strcmp_greater [] b = False"
| "strcmp_greater (x # a) [] = True"
| "strcmp_greater (x # a) (y # b) =
     (if x = y then strcmp_greater a b else (of_char x :: nat) > of_char y)"

definition getMimeType :: "env \<Rightarrow> string \<Rightarrow> string res" where
  "getMimeType e body =
     res_bind (strCopySafe 150 (magic e body)) (\<lambda>mimeType.
     if strcmp_greater mimeType ''text/''
     then strCopySafe 150 (mimeType @ ''; charset=UTF-8'') else Inr mimeType)"

section \<open>The compressed copy\<close>

text \<open>\<open>%u\<close>, \<open>%lu\<close> and \<open>%ld\<close> of \<open>printf\<close>.\<close>

fun decimal :: "nat \<Rightarrow> string" where
  "decimal n = (if n < 10 then [char_of (48 + n)] else decimal (n div 10) @ [char_of (48 + n mod 10)])"

declare decimal.simps [simp del]

definition signed_decimal :: "int \<Rightarrow> string" where
  "signed_decimal i = (if i < 0 then ''-'' @ decimal (nat (- i)) else decimal (nat i))"

text \<open>
  \<open>makeDirectory\<close> with its array \<open>tmp[CHAR_MAX]\<close>. The directories \<open>mkdir\<close> is asked for are the
  prefixes of the path that end before a \<open>/\<close> after its first character, then the path itself.
  The result is the success and the file system.
\<close>

fun prefixes_before :: "char \<Rightarrow> string \<Rightarrow> string \<Rightarrow> string list" where
  "prefixes_before x done [] = []"
| "prefixes_before x done (c # s) =
     (if c = x then [done] else []) @ prefixes_before x (done @ [c]) s"

fun mkdirs :: "env \<Rightarrow> string list \<Rightarrow> fs \<Rightarrow> bool \<times> fs" where
  "mkdirs e [] s = (True, s)"
| "mkdirs e (d # ds) s =
     (if mkdirFails e d then (False, s)
      else mkdirs e ds (s\<lparr>dirs := List.insert d (dirs s)\<rparr>))"

definition noSlash :: "string \<Rightarrow> string" where
  "noSlash p = (if p \<noteq> [] \<and> List.last p = CHR ''/'' then butlast p else p)"

definition makeDirectory :: "env \<Rightarrow> string \<Rightarrow> fs \<Rightarrow> (bool \<times> fs) res" where
  "makeDirectory e p s =
     (if noSlash p \<in> set (dirs s) then Inr (True, s)
      else res_bind (strCopySafe 127 p) (\<lambda>tmp.
      if tmp = [] then Inl OutOfBounds
      else let tmp = noSlash tmp
           in Inr (mkdirs e (prefixes_before CHR ''/'' (take 1 tmp) (drop 1 tmp) @ [tmp]) s)))"

text \<open>\<open>strrchr(path, '/')\<close> plus one: what stands behind the last slash.\<close>

definition fileName :: "string \<Rightarrow> string option" where
  "fileName p = (if CHR ''/'' \<in> set p then Some (rev (takeWhile (\<lambda>c. c \<noteq> CHR ''/'') (rev p))) else None)"

definition gzipPath :: "string \<Rightarrow> int \<Rightarrow> string \<Rightarrow> string" where
  "gzipPath cache at name = cache @ signed_decimal at @ ''-'' @ name @ ''.gz''"

definition makeContentEncoding :: "env \<Rightarrow> inode \<Rightarrow> element \<Rightarrow> fs \<Rightarrow> (element \<times> fs) res" where
  "makeContentEncoding e stat c s =
     (case absolutePath c of
        None \<Rightarrow> Inl OutOfBounds
      | Some ap \<Rightarrow>
          (case fileName ap of
             None \<Rightarrow> Inl (die (''File name not found in absolute path '' @ ap @ '', possibly a directory''))
           | Some name \<Rightarrow>
               res_bind (strCopySafe (length ap) (drop (length (htmlDir e)) ap)) (\<lambda>relative.
               if length relative < length name then Inl OutOfBounds
               else
                 let cache = cwd e @ ''/cache/gzip'' @ take (length relative - length name) relative in
                 res_bind (makeDirectory e cache s) (\<lambda>(ok, s1).
                 if \<not> ok then Inl (die (''Error creating directory: '' @ cache))
                 else
                   let gz = gzipPath cache (atime stat) name;
                       body = (case opened s1 (bodyFd c) of None \<Rightarrow> [] | Some f \<Rightarrow> content f);
                       s2 = (if nodes s1 gz = Absent
                             then s1\<lparr>nodes := (nodes s1)(gz := File \<lparr>content = gzip e body, atime = 0, modified = date e\<rparr>)\<rparr>
                             else s1);
                       s3 = closeFd (bodyFd c) s2
                   in (case nodes s3 gz of
                         File f \<Rightarrow>
                           let (fd, s4) = openFile f s3
                           in Inr (c\<lparr>bodyFd := fd, bodyLength := length (content f),
                                     contentEncoding := CONTENT_ENCODING_GZIP\<rparr>, s4)
                       | _ \<Rightarrow> Inl (die (''Error opening gzip file '' @ gz)))))))"

section \<open>The response\<close>

text \<open>Opening the requested file, or the page for its error.\<close>

definition openBody :: "env \<Rightarrow> string \<Rightarrow> fs \<Rightarrow> (nat \<times> inode \<times> int \<times> fs) res" where
  "openBody e ap s =
     (case nodes s ap of
        File f \<Rightarrow> let (fd, s') = openFile f s in Inr (200, f, fd, s')
      | n \<Rightarrow>
          let (code, page) = (if n = Absent then (404, htmlDir e @ ''/error/404.html'')
                              else (500, htmlDir e @ ''/error/error.html''))
          in (case nodes s page of
                File f \<Rightarrow> let (fd, s') = openFile f s in Inr (code, f, fd, s')
              | _ \<Rightarrow> Inl (die (''Error template not found '' @ page))))"

definition wantsGzip :: "(string \<times> string) list \<Rightarrow> bool" where
  "wantsGzip hs = (case getHeader hs ''accept-encoding'' of None \<Rightarrow> False
     | Some v \<Rightarrow> strstr ''gzip'' (v @ [NUL]) \<noteq> Inr None)"

definition wantsKeepAlive :: "(string \<times> string) list \<Rightarrow> bool" where
  "wantsKeepAlive hs = (case getHeader hs ''connection'' of None \<Rightarrow> False
     | Some v \<Rightarrow> v \<noteq> [] \<and> hd v = CHR ''k'')"

definition headerText :: "env \<Rightarrow> string \<Rightarrow> string \<Rightarrow> string \<Rightarrow> element \<Rightarrow> string" where
  "headerText e reason mimeType lastModified c =
     protocolVersion c @ '' '' @ decimal (responseStatusCode c) @ '' '' @ reason @ [LF] @
     (if contentEncoding c = CONTENT_ENCODING_GZIP then ''content-encoding: gzip'' @ [LF] else []) @
     (if keepAlive c
      then ''connection: keep-alive'' @ [LF] @ ''keep-alive: timeout='' @
             signed_decimal KEEP_ALIVE_TIMEOUT @ [LF]
      else ''connection: close'' @ [LF]) @
     ''content-length: '' @ decimal (bodyLength c) @ [LF] @
     ''content-type: '' @ mimeType @ [LF] @
     ''date: '' @ date e @ [LF] @
     ''last-modified: '' @ lastModified @ [LF] @
     ''server: Undefined Behaviour Server'' @ [LF] @
     ''cache-control: private, no-cache, no-store, must-revalidate'' @ [LF, LF]"

text \<open>
  \<open>makeResponse\<close>. A header of 1024 bytes or more would pass the array: \<open>offset\<close> counts what
  \<open>snprintf\<close> would have written.
\<close>

definition makeResponse :: "env \<Rightarrow> element \<Rightarrow> fs \<Rightarrow> (element \<times> fs) res" where
  "makeResponse e c s =
     (case absolutePath c of
        None \<Rightarrow> Inl OutOfBounds
      | Some ap \<Rightarrow>
          let hs = (case requestHeaders c of None \<Rightarrow> [] | Some hs \<Rightarrow> hs) in
          res_bind (openBody e ap s) (\<lambda>(code, stat, fd, s1).
          let c1 = c\<lparr>responseStatusCode := code, bodyFd := fd,
                     bodyLength := length (content stat), bodyOffset := 0\<rparr> in
          res_bind (getMimeType e (content stat)) (\<lambda>mimeType.
          res_bind (if wantsGzip hs then makeContentEncoding e stat c1 s1 else Inr (c1, s1)) (\<lambda>(c2, s2).
          case HTTP_STATUS_REASON (responseStatusCode c2) of
            None \<Rightarrow> Inl OutOfBounds
          | Some phrase \<Rightarrow>
              res_bind (strCopySafe 33 phrase) (\<lambda>reason.
              let c3 = c2\<lparr>keepAlive := wantsKeepAlive hs\<rparr>;
                  text = headerText e reason mimeType (modified stat) c3
              in if length text < 1024
                 then Inr (c3\<lparr>responseBufferHeadersOffset := 0,
                             responseBufferHeadersLength := length text,
                             responseBufferHeaders := Some (text @ [NUL])\<rparr>, s2)
                 else Inl OutOfBounds)))))"

end
