(* ===== verification/Connection.thy ===== *)
theory Connection
  imports Response Expiry
begin

text \<open>
  The state machine of one client in \<open>handleEpoll\<close> (\<open>src/accept_client_epoll.c\<close>): what the
  thread does with a readable descriptor, from \<open>getConnectionOrCreateByFd\<close> to the end of the
  \<open>do ... while (repeat)\<close> loop.

  \<open>connection\<close> is a pointer into the queue's array, here the position \<open>pos\<close>. The socket is a
  record of the two scripts, the bytes handed to the client and the file system.
  What the operating system answers besides is in \<open>host\<close>, an extension of \<open>env\<close>:
  \<open>getpeername\<close>, \<open>time\<close>, the block \<open>malloc\<close> returns and the results of \<open>epoll_ctl\<close>.
\<close>

section \<open>Fixed responses\<close>

definition lines :: "string list \<Rightarrow> string" where
  "lines ls = concat (map (\<lambda>l. l @ [LF]) ls)"

definition helloBody :: "string list" where
  "helloBody = [''<html>'', '' <body>'', ''  <h1>Hello world!</h1>'', '' </body>'', ''</html>'']"

definition helloResponseTemplate :: string where
  "helloResponseTemplate = lines ([''HTTP/1.1 200 OK'', ''Content-type: text/html; charset=UTF-8'',
     ''Content-Length: 56'', ''Connection: close'', []] @ helloBody)"

definition badRequestResponseTemplate :: string where
  "badRequestResponseTemplate = lines [''HTTP/1.1 400 Bad Request'',
     ''Content-type: text/html; charset=UTF-8'', ''Connection: close'', [], ''<html>'', '' <body>'',
     ''  <h1>Bad Request</h1>'', ''  <p>This server did not understand your request.</p>'',
     '' </body>'', ''</html>'']"

definition versionNotSupportedResponse :: "string \<Rightarrow> string" where
  "versionNotSupportedResponse v = lines [''HTTP/1.1 505 HTTP Version Not Supported'',
     ''Content-type: text/html; charset=UTF-8'', ''Connection: close'', [], ''<html>'', '' <body>'',
     ''  <h1>HTTP Version <'' @ v @ ''> Not Supported</h1>'', '' </body>'', ''</html>'']"

section \<open>The socket\<close>

record socket =
  recvs :: "recv_event list"
  sends :: "send_event list"
  wire :: string
  fsys :: fs

record host = env +
  peer :: "string option"
  now :: int
  mem :: string
  delClient :: "int \<Rightarrow> ctl_result"
  modFails :: bool

text \<open>\<open>sendAll\<close> on the socket; its result is not used.\<close>

definition sendFixed :: "string \<Rightarrow> socket \<Rightarrow> socket res" where
  "sendFixed text w =
     (case sendAll (sends w) text of
        (Looping _, _, _) \<Rightarrow> Inl Spinning
      | (Returned _, sent, es) \<Rightarrow> Inr (w\<lparr>sends := es, wire := wire w @ sent\<rparr>))"

definition badRequestResponse :: "socket \<Rightarrow> socket res" where
  "badRequestResponse w = sendFixed badRequestResponseTemplate w"

definition unsupportedProtocolResponse :: "string \<Rightarrow> socket \<Rightarrow> socket res" where
  "unsupportedProtocolResponse v w = sendFixed (take 1023 (versionNotSupportedResponse v)) w"

definition helloResponse :: "socket \<Rightarrow> socket res" where
  "helloResponse w = sendFixed helloResponseTemplate w"

section \<open>The states\<close>

definition failWith :: "(socket \<Rightarrow> socket res) \<Rightarrow> element \<Rightarrow> socket \<Rightarrow> (element \<times> socket) res" where
  "failWith respond c w = res_bind (respond w) (\<lambda>w'.
     Inr (c\<lparr>state := STATE_CONNECTION_DONE_FOR_CLOSE\<rparr>, w'))"

definition respondHeaders :: "host \<Rightarrow> element \<Rightarrow> socket \<Rightarrow> (element \<times> socket) res" where
  "respondHeaders h c w =
     res_bind (if responseBufferHeaders c = None then makeResponse (env.truncate h) c (fsys w)
               else Inr (c, fsys w)) (\<lambda>(c1, s1).
     res_bind (sendResponseHeaders (sends w) c1) (\<lambda>(c2, sent, es).
     Inr (c2, w\<lparr>fsys := s1, sends := es, wire := wire w @ sent\<rparr>)))"

definition stateSendHeaders :: "host \<Rightarrow> element \<Rightarrow> socket \<Rightarrow> (element \<times> socket) res" where
  "stateSendHeaders h c w =
     (if requestHeaders c = None then
        res_bind (processRequest (htmlDir h) (peer h) c) (\<lambda>(valid, c1).
        if \<not> valid then failWith badRequestResponse c1 w
        else if protocolVersion c1 \<noteq> ''HTTP/1.0'' \<and> protocolVersion c1 \<noteq> ''HTTP/1.1''
        then failWith (unsupportedProtocolResponse (protocolVersion c1)) c1 w
        else if path c1 = Some ''/hello'' then failWith helloResponse c1 w
        else respondHeaders h c1 w)
      else respondHeaders h c w)"

definition stateSendBody :: "element \<Rightarrow> socket \<Rightarrow> (element \<times> socket) res" where
  "stateSendBody c w =
     res_bind (sendResponseFile (sends w) c (fsys w)) (\<lambda>(c1, s1, sent, es).
     Inr (c1, w\<lparr>fsys := s1, sends := es, wire := wire w @ sent\<rparr>))"

definition stateRecv :: "element \<Rightarrow> socket \<Rightarrow> (element \<times> socket) res" where
  "stateRecv c w = res_bind (recvRequest (recvs w) c) (\<lambda>(c1, es). Inr (c1, w\<lparr>recvs := es\<rparr>))"

text \<open>The three states that work on the connection alone.\<close>

definition advanceState :: "host \<Rightarrow> element \<Rightarrow> socket \<Rightarrow> (element \<times> socket) res" where
  "advanceState h c w =
     (case state c of
        STATE_CONNECTION_RECV \<Rightarrow> stateRecv c w
      | STATE_CONNECTION_SEND_HEADERS \<Rightarrow> stateSendHeaders h c w
      | STATE_CONNECTION_SEND_BODY \<Rightarrow> stateSendBody c w
      | STATE_CONNECTION_DONE \<Rightarrow> Inr (c\<lparr>state := STATE_CONNECTION_DONE_FOR_CLOSE\<rparr>, w)
      | STATE_CONNECTION_DONE_FOR_CLOSE \<Rightarrow> Inr (c, w))"

section \<open>The loop\<close>

record worker =
  queue :: queue
  socket :: socket
  rearmed :: "int list"
  closedFds :: "int list"
  freed :: "released list"

definition rearm :: "host \<Rightarrow> int \<Rightarrow> worker \<Rightarrow> worker res" where
  "rearm h fd w =
     res_bind (existsConnection (queue w) fd) (\<lambda>ex.
     if \<not> ex then Inr w
     else res_bind (updateQueueConnection (queue w) fd (now h) (mem h)) (\<lambda>(q, rel).
       if modFails h then Inl (Died ''EPOLL_CTL_MOD failed'')
       else Inr (w\<lparr>queue := q, freed := freed w @ rel, rearmed := rearmed w @ [fd]\<rparr>)))"

definition dropClient :: "host \<Rightarrow> int \<Rightarrow> worker \<Rightarrow> worker res" where
  "dropClient h fd w =
     res_bind (existsConnection (queue w) fd) (\<lambda>ex.
     if \<not> ex then Inr w
     else res_bind (dequeueConnectionByFd (queue w) fd) (\<lambda>(q, rel).
       res_bind (closeEpollClient (delClient h) fd) (\<lambda>closedFd.
       Inr (w\<lparr>queue := q, freed := freed w @ rel, closedFds := closedFds w @ [closedFd]\<rparr>))))"

text \<open>One turn: the value of \<open>repeat\<close> and the new state.\<close>

definition connStep :: "host \<Rightarrow> int \<Rightarrow> nat \<Rightarrow> worker \<Rightarrow> (bool \<times> worker) res" where
  "connStep h fd pos w =
     res_bind (getConn (queue w) (int pos)) (\<lambda>c.
     if state c = STATE_CONNECTION_DONE \<and> keepAlive c then
       res_bind (rearm h fd w) (\<lambda>w'. Inr (False, w'))
     else if state c = STATE_CONNECTION_DONE_FOR_CLOSE then
       res_bind (dropClient h fd w) (\<lambda>w'. Inr (False, w'))
     else
       res_bind (advanceState h c (socket w)) (\<lambda>(c', s').
       res_bind (setConn (queue w) (int pos) c') (\<lambda>q.
       Inr (True, w\<lparr>queue := q, socket := s'\<rparr>))))"

partial_function (option) serve :: "host \<Rightarrow> int \<Rightarrow> nat \<Rightarrow> worker \<Rightarrow> worker res option" where
  "serve h fd pos w =
     (case connStep h fd pos w of
        Inl e \<Rightarrow> Some (Inl e)
      | Inr (again, w') \<Rightarrow> if again then serve h fd pos w' else Some (Inr w'))"

definition handleClient :: "host \<Rightarrow> int \<Rightarrow> worker \<Rightarrow> worker res option" where
  "handleClient h fd w =
     (case getConnectionOrCreateByFd (queue w) fd (now h) (mem h) of
        Inl e \<Rightarrow> Some (Inl e)
      | Inr (q, pos) \<Rightarrow> serve h fd pos (w\<lparr>queue := q\<rparr>))"

end
