(* ===== verification/Event_Loop.thy ===== *)
theory Event_Loop
  imports Connection
begin

text \<open>
  The event loop and its threads: \<open>handleEpoll\<close> and the epoll calls around it
  (\<open>src/accept_client_epoll.c\<close>), started once by \<open>handleEpollFacade\<close> or once per processor
  by \<open>acceptClientsThreadEpoll\<close> (\<open>src/accept_client_thread_epoll.c\<close>).

  The threads share one epoll instance, the process's descriptors and the file system; each has
  a connection queue of its own. \<open>interest\<close> holds the client descriptors that are open and in the
  epoll set, with \<open>True\<close> while \<open>EPOLLONESHOT\<close> has not disarmed them. A thread is where its control
  flow is: at the head of \<open>while\<close>, in \<open>epoll_wait\<close>, in the \<open>for\<close> loop with the events still to do,
  or in the \<open>do ... while (repeat)\<close> loop of one client; \<open>written\<close> is what has been written to a
  client. What the threads do interleaves at these points and between two turns of a client's
  loop; the two critical sections of \<open>queueMutex\<close> lie inside one step each.

  The kernel answers from \<open>interest\<close>: a call on a descriptor that another thread has closed gives
  \<open>EBADF\<close>. Which events are ready, what \<open>accept\<close>, \<open>recv\<close> and \<open>send\<close> meet and the contents of a
  block from \<open>malloc\<close> are left open by the step relation.
\<close>

section \<open>The state\<close>

record epoll_event =
  data_fd :: int
  epollin :: bool

datatype control = AtHead | AtWait | Handling "epoll_event list" | Serving int nat "epoll_event list"
  | Stopped "released list"

record thread =
  tqueue :: queue
  control :: control

type_synonym epoll_set = "int \<rightharpoonup> bool"

record sys =
  threads :: "thread list"
  interest :: epoll_set
  clock :: int
  disk :: fs
  written :: "int \<Rightarrow> string"
  sigintReceived :: bool

section \<open>The calls on the epoll set\<close>

definition addEpollClient :: "int \<Rightarrow> epoll_set \<Rightarrow> epoll_set res" where
  "addEpollClient fd m =
     (if m fd \<noteq> None then Inl (Died ''EPOLL_CTL_ADD failed'') else Inr (m(fd \<mapsto> True)))"

definition modEpollClient :: "int \<Rightarrow> epoll_set \<Rightarrow> epoll_set res" where
  "modEpollClient fd m =
     (if m fd = None then Inl (Died ''EPOLL_CTL_MOD failed'') else Inr (m(fd \<mapsto> True)))"

text \<open>The \<open>accept\<close> loop over the results of \<open>accept\<close>, \<open>None\<close> for a failure (\<open>EAGAIN\<close> among them).\<close>

fun acceptEpollConnection :: "int option list \<Rightarrow> epoll_set \<Rightarrow> epoll_set res" where
  "acceptEpollConnection [] m = Inl Spinning"
| "acceptEpollConnection (None # rs) m = Inr m"
| "acceptEpollConnection (Some fd # rs) m =
     res_bind (addEpollClient fd m) (\<lambda>m'. acceptEpollConnection rs m')"

definition closeFds :: "int list \<Rightarrow> epoll_set \<Rightarrow> epoll_set" where
  "closeFds fds m = m |` (- set fds)"

text \<open>\<open>epoll_wait\<close> disarms what it reports, but not the listening socket, added without \<open>EPOLLONESHOT\<close>.\<close>

definition ready :: "int \<Rightarrow> epoll_set \<Rightarrow> epoll_event list \<Rightarrow> bool" where
  "ready srv m evs \<longleftrightarrow> length evs \<le> MAX_EPOLL_EVENTS \<and> distinct (map data_fd evs) \<and>
     (\<forall>e \<in> set evs. data_fd e = srv \<or> m (data_fd e) = Some True)"

definition disarm :: "epoll_event list \<Rightarrow> epoll_set \<Rightarrow> epoll_set" where
  "disarm evs m = (\<lambda>fd. if fd \<in> data_fd ` set evs \<and> m fd \<noteq> None then Some False else m fd)"

section \<open>One thread\<close>

definition closedIn :: "epoll_set \<Rightarrow> int \<Rightarrow> bool" where
  "closedIn m fd \<longleftrightarrow> m fd = None"

text \<open>The head of the loop: the expired connections are closed, then the thread waits.\<close>

definition headStep :: "sys \<Rightarrow> thread \<Rightarrow> (sys \<times> thread) res option" where
  "headStep s t =
     map_option (\<lambda>r. res_bind r (\<lambda>(q, ev).
         Inr (s\<lparr>interest := closeFds (map fst ev) (interest s)\<rparr>, t\<lparr>tqueue := q, control := AtWait\<rparr>)))
       (closeExpired (delResult (closedIn (interest s))) (clock s) (tqueue t))"

text \<open>After \<open>SIGINT\<close> the connections of the thread are freed.\<close>

definition stopThread :: "thread \<Rightarrow> thread" where
  "stopThread t = t\<lparr>control := Stopped (concat (map (\<lambda>i. freeConnection (connections (tqueue t) ! i))
     [0..<currentSize (tqueue t)]))\<rparr>"

definition acceptStep :: "int list \<Rightarrow> epoll_event list \<Rightarrow> sys \<Rightarrow> thread \<Rightarrow> (sys \<times> thread) res" where
  "acceptStep fds evs s t =
     res_bind (acceptEpollConnection (map Some fds @ [None]) (interest s)) (\<lambda>m.
     Inr (s\<lparr>interest := m, written := (\<lambda>fd. if fd \<in> set fds then [] else written s fd)\<rparr>,
          t\<lparr>control := Handling evs\<rparr>))"

definition serveStart :: "int \<Rightarrow> string \<Rightarrow> epoll_event list \<Rightarrow> sys \<Rightarrow> thread \<Rightarrow> (sys \<times> thread) res" where
  "serveStart fd buf evs s t =
     res_bind (getConnectionOrCreateByFd (tqueue t) fd (clock s) buf) (\<lambda>(q, pos).
     Inr (s, t\<lparr>tqueue := q, control := Serving fd pos evs\<rparr>))"

text \<open>The operating system's side of a turn for \<open>fd\<close>: on a closed descriptor every call fails.\<close>

definition answers :: "sys \<Rightarrow> int \<Rightarrow> host \<Rightarrow> host" where
  "answers s fd h = h\<lparr>now := clock s, delClient := delResult (closedIn (interest s)),
     modFails := closedIn (interest s) fd, peer := (if closedIn (interest s) fd then None else peer h)\<rparr>"

definition socketOf :: "sys \<Rightarrow> int \<Rightarrow> recv_event list \<Rightarrow> send_event list \<Rightarrow> socket" where
  "socketOf s fd rs ss =
     (if closedIn (interest s) fd
      then \<lparr>recvs = [RecvError], sends = [SendError], wire = written s fd, fsys = disk s\<rparr>
      else \<lparr>recvs = rs, sends = ss, wire = written s fd, fsys = disk s\<rparr>)"

text \<open>What a turn did to the epoll set: \<open>connStep\<close> re-arms or closes at most its own descriptor.\<close>

definition settle :: "int list \<Rightarrow> int list \<Rightarrow> epoll_set \<Rightarrow> epoll_set res" where
  "settle armed closedNow m =
     res_bind (fold (\<lambda>fd r. res_bind r (modEpollClient fd)) armed (Inr m)) (\<lambda>m'.
     Inr (closeFds closedNow m'))"

definition turnStep :: "host \<Rightarrow> recv_event list \<Rightarrow> send_event list \<Rightarrow> int \<Rightarrow> nat \<Rightarrow> epoll_event list
    \<Rightarrow> sys \<Rightarrow> thread \<Rightarrow> (sys \<times> thread) res" where
  "turnStep h rs ss fd pos evs s t =
     res_bind (connStep (answers s fd h) fd pos
       \<lparr>queue = tqueue t, socket = socketOf s fd rs ss, rearmed = [], closedFds = [], freed = []\<rparr>)
       (\<lambda>(again, w).
     res_bind (settle (rearmed w) (closedFds w) (interest s)) (\<lambda>m.
     Inr (s\<lparr>interest := m, disk := fsys (socket w), written := (written s)(fd := wire (socket w))\<rparr>,
          t\<lparr>tqueue := queue w, control := (if again then Serving fd pos evs else Handling evs)\<rparr>)))"

text \<open>A descriptor \<open>accept\<close> may return: one that is not in use.\<close>

definition fresh :: "int \<Rightarrow> epoll_set \<Rightarrow> int list \<Rightarrow> bool" where
  "fresh srv m fds \<longleftrightarrow> distinct fds \<and> (\<forall>fd \<in> set fds. 0 \<le> fd \<and> fd \<noteq> srv \<and> m fd = None)"

inductive thread_step :: "int \<Rightarrow> sys \<Rightarrow> thread \<Rightarrow> (sys \<times> thread) res \<Rightarrow> bool" for srv where
  Head: "control t = AtHead \<Longrightarrow> \<not> sigintReceived s \<Longrightarrow> headStep s t = Some r \<Longrightarrow>
    thread_step srv s t r"
| Stop: "control t = AtHead \<Longrightarrow> sigintReceived s \<Longrightarrow> thread_step srv s t (Inr (s, stopThread t))"
| Wait: "control t = AtWait \<Longrightarrow> ready srv (interest s) evs \<Longrightarrow>
    thread_step srv s t (Inr (s\<lparr>interest := disarm evs (interest s)\<rparr>, t\<lparr>control := Handling evs\<rparr>))"
| Accept: "control t = Handling (e # evs) \<Longrightarrow> data_fd e = srv \<Longrightarrow> fresh srv (interest s) fds \<Longrightarrow>
    thread_step srv s t (acceptStep fds evs s t)"
| Serve: "control t = Handling (e # evs) \<Longrightarrow> data_fd e \<noteq> srv \<Longrightarrow> epollin e \<Longrightarrow>
    length buf = BUFFER_REQUEST_SIZE \<Longrightarrow> thread_step srv s t (serveStart (data_fd e) buf evs s t)"
| Ignore: "control t = Handling (e # evs) \<Longrightarrow> data_fd e \<noteq> srv \<Longrightarrow> \<not> epollin e \<Longrightarrow>
    thread_step srv s t (Inr (s, t\<lparr>control := Handling evs\<rparr>))"
| Turn: "control t = Serving fd pos evs \<Longrightarrow> length (mem h) = BUFFER_REQUEST_SIZE \<Longrightarrow>
    thread_step srv s t (turnStep h rs ss fd pos evs s t)"
| Done: "control t = Handling [] \<Longrightarrow> thread_step srv s t (Inr (s, t\<lparr>control := AtHead\<rparr>))"

inductive_cases thread_stepE [consumes 1, case_names Head Stop Wait Accept Serve Ignore Turn Done]: "thread_step srv s t r"

section \<open>The process\<close>

definition install :: "nat \<Rightarrow> sys \<times> thread \<Rightarrow> sys" where
  "install i = (\<lambda>(s, t). s\<lparr>threads := (threads s)[i := t]\<rparr>)"

text \<open>A failing step ends the process.\<close>

inductive sys_step :: "int \<Rightarrow> sys \<Rightarrow> sys res \<Rightarrow> bool" for srv where
  Thread: "i < length (threads s) \<Longrightarrow> thread_step srv s (threads s ! i) (Inr z) \<Longrightarrow>
    sys_step srv s (Inr (install i z))"
| Die: "i < length (threads s) \<Longrightarrow> thread_step srv s (threads s ! i) (Inl e) \<Longrightarrow> sys_step srv s (Inl e)"
| Tick: "0 \<le> d \<Longrightarrow> sys_step srv s (Inr (s\<lparr>clock := clock s + d\<rparr>))"
| Signal: "sys_step srv s (Inr (s\<lparr>sigintReceived := True\<rparr>))"

inductive_cases sys_stepE [consumes 1, case_names Thread Tick Signal]: "sys_step srv s (Inr s')"
inductive_cases sys_dieE [consumes 1, case_names Die]: "sys_step srv s (Inl e)"

definition workThreadEpoll :: thread where
  "workThreadEpoll = \<lparr>tqueue = createQueueConnections, control = AtHead\<rparr>"

text \<open>\<open>n\<close> threads: one for \<open>handleEpollFacade\<close>, the number of processors otherwise.\<close>

definition acceptClientsThreadEpoll :: "nat \<Rightarrow> int \<Rightarrow> fs \<Rightarrow> sys" where
  "acceptClientsThreadEpoll n time0 files =
     \<lparr>threads = replicate n workThreadEpoll, interest = Map.empty, clock = time0, disk = files,
      written = (\<lambda>_. []), sigintReceived = False\<rparr>"

inductive reached :: "int \<Rightarrow> nat \<Rightarrow> sys \<Rightarrow> bool" for srv n where
  reached_start: "reached srv n (acceptClientsThreadEpoll n time0 files)"
| reached_step: "reached srv n s \<Longrightarrow> sys_step srv s (Inr s') \<Longrightarrow> reached srv n s'"

end
