(* ===== verification/Request_Correct.thy ===== *)
theory Request_Correct
  imports Request
begin

text \<open>
  What receiving and parsing do with a well-formed request: the receive loop over any
  chunking of the bytes, and the parser against the printer \<open>requestText\<close>.
\<close>

section \<open>Receiving\<close>

text \<open>A connection that has received \<open>p\<close> into a zeroed block of \<open>n\<close> bytes.\<close>

definition block :: "nat \<Rightarrow> string \<Rightarrow> string" where
  "block n p = p @ replicate (n - length p) NUL"

definition received :: "nat \<Rightarrow> string \<Rightarrow> element \<Rightarrow> element" where
  "received n p c = c\<lparr>requestBuffer := Some (block n p),
     requestBufferLength := n, requestBufferOffset := length p\<rparr>"

text \<open>The first empty line of \<open>s\<close> starts at \<open>k\<close>.\<close>

definition head_at :: "nat \<Rightarrow> string \<Rightarrow> bool" where
  "head_at k s \<longleftrightarrow> free_upto CRLFCRLF s k \<and> take 4 (drop k s) = CRLFCRLF"

lemma free_upto_prefix:
  assumes "free_upto CRLFCRLF (p @ q) k" "length p < k + 4"
  shows "free_upto CRLFCRLF p (length p)"
  unfolding free_upto_def
proof (intro allI impI notI)
  fix i assume i: "i < length p" and t: "take (length CRLFCRLF) (drop i p) = CRLFCRLF"
  from arg_cong [OF t, of length] have "length (take 4 (drop i p)) = 4"
    by (simp add: CRLFCRLF_def)
  then have "i + 4 \<le> length p" by simp
  with assms(2) have "i < k" by simp
  moreover have "take (length CRLFCRLF) (drop i (p @ q)) = CRLFCRLF"
    using t i \<open>i + 4 \<le> length p\<close> by (simp add: CRLFCRLF_def)
  ultimately show False using assms(1) by (auto simp: free_upto_def)
qed

lemma strstr_head:
  assumes "head_at k s" "NUL \<notin> set s"
  shows "strstr CRLFCRLF (s @ m) = Inr (Some k)"
proof -
  have "length (take 4 (drop k s)) = 4" using assms(1) by (simp add: head_at_def CRLFCRLF_def)
  then have k: "k + 4 \<le> length s" by simp
  have s: "s = take k s @ CRLFCRLF @ drop (k + 4) s"
    using assms(1) by (metis append_take_drop_id drop_drop head_at_def add.commute)
  have "free_upto CRLFCRLF (s @ m) k"
    using assms(1) k by (auto simp: head_at_def free_upto_def CRLFCRLF_def)
  then have "free_upto CRLFCRLF (take k s @ CRLFCRLF @ (drop (k + 4) s @ m)) (length (take k s))"
    using k s by (metis append_assoc length_take min.absorb2 add_leD1)
  then have "strstr CRLFCRLF (take k s @ CRLFCRLF @ (drop (k + 4) s @ m)) = Inr (Some (length (take k s)))"
    using assms(2) by (intro strstr_found) (auto dest: in_set_takeD)
  then show ?thesis using k s by (metis append_assoc length_take min.absorb2 add_leD1)
qed

lemma incomplete_prefix:
  assumes "NUL \<notin> set p" "free_upto CRLFCRLF (p @ q) k" "length p < k + 4" "length p < n"
  shows "isRequestComplete (block n p) = Inr False"
proof -
  have "NUL \<notin> set CRLFCRLF" "CRLFCRLF \<noteq> []" by (simp_all add: CRLFCRLF_def)
  moreover have "replicate (n - length p) NUL = NUL # replicate (n - length p - 1) NUL"
    using assms(4) by (cases "n - length p") auto
  ultimately show ?thesis
    using strstr_absent [OF assms(1) _ _ free_upto_prefix [OF assms(2,3)]]
    by (simp add: isRequestComplete_def block_def)
qed

lemma store_block:
  "length p + length b \<le> n \<Longrightarrow> store (block n p) (length p) b = block n (p @ b)"
  by (simp add: store_def block_def)

lemma recv_step:
  assumes "b \<noteq> []" "length p + length b \<le> n"
  shows "recvRequest (Arrive b # es) (received n p c) =
    res_bind (isRequestComplete (block n (p @ b))) (\<lambda>done.
      if done then res_bind (completeRequest (received n (p @ b) c) (block n (p @ b)))
        (\<lambda>c'. Inr (c', es))
      else recvRequest es (received n (p @ b) c))"
proof -
  have "take (n - length p) b = b" "drop (n - length p) b = []" using assms(2) by simp_all
  moreover have eq: "received n p c\<lparr>requestBuffer := Some (block n (p @ b)),
      requestBufferOffset := length p + length b\<rparr> = received n (p @ b) c"
    by (cases c) (simp add: received_def)
  moreover have "requestBuffer (received n p c) = Some (block n p)"
    "requestBufferLength (received n p c) = n" "requestBufferOffset (received n p c) = length p"
    by (simp_all add: received_def)
  moreover have "length p < n" using assms by (cases b) auto
  ultimately show ?thesis
    using assms store_block [of p b n]
    by (simp only: recvRequest.simps option.case Let_def if_False, simp only: eq, simp)
qed

text \<open>The whole loop: only the chunk that completes the head ends it.\<close>

lemma recv_loop:
  assumes "filter (\<lambda>e. e \<noteq> RecvEINTR) es = map Arrive cs" "\<forall>x \<in> set cs. x \<noteq> []" "b \<noteq> []"
    "r = p @ concat cs @ b" "NUL \<notin> set r" "head_at k r"
    "length (p @ concat cs) < k + 4" "length r \<le> n"
  shows "recvRequest (es @ Arrive b # later) (received n p c)
    = res_bind (completeRequest (received n r c) (block n r)) (\<lambda>c'. Inr (c', later))"
  using assms
proof (induction es arbitrary: p cs)
  case Nil
  then have "r = p @ b" by simp
  moreover have "isRequestComplete (block n r) = Inr True"
    using strstr_head [OF Nil.prems(6,5)] by (simp add: isRequestComplete_def block_def)
  ultimately show ?case using Nil.prems(3,8) by (simp add: recv_step del: recvRequest.simps(5))
next
  case (Cons e es)
  show ?case
  proof (cases "e = RecvEINTR")
    case True
    with Cons show ?thesis by simp
  next
    case False
    with Cons.prems(1) obtain x xs where cs: "cs = x # xs" "e = Arrive x"
      "filter (\<lambda>e. e \<noteq> RecvEINTR) es = map Arrive xs" by (cases cs) auto
    have "1 \<le> length b" using Cons.prems(3) by (cases b) auto
    moreover have "length p + length x + length (concat xs) + length b \<le> n"
      using Cons.prems(4,8) cs by simp
    ultimately have x: "x \<noteq> []" "length p + length x < n"
      using Cons.prems(2) cs by auto
    have "isRequestComplete (block n (p @ x)) = Inr False"
      using Cons.prems(3-7) cs x
      by (intro incomplete_prefix [where q = "concat xs @ b" and k = k]) (auto simp: head_at_def)
    then have "recvRequest ((e # es) @ Arrive b # later) (received n p c)
      = recvRequest (es @ Arrive b # later) (received n (p @ x) c)"
      using cs x by (simp add: recv_step del: recvRequest.simps(5))
    also have "\<dots> = res_bind (completeRequest (received n r c) (block n r)) (\<lambda>c'. Inr (c', later))"
      using Cons.prems cs by (intro Cons.IH [where cs = xs]) auto
    finally show ?thesis .
  qed
qed

section \<open>A request as text\<close>

definition headerLine :: "string \<times> string \<Rightarrow> string" where
  "headerLine h = fst h @ '': '' @ snd h @ CRLF"

definition headerLines :: "(string \<times> string) list \<Rightarrow> string" where
  "headerLines hs = concat (map headerLine hs)"

definition requestLine :: "Method \<Rightarrow> string \<Rightarrow> string \<Rightarrow> string" where
  "requestLine m p v = methodsList ! (case m of METHOD_GET \<Rightarrow> 0 | METHOD_POST \<Rightarrow> 1
     | METHOD_PUT \<Rightarrow> 2 | METHOD_PATCH \<Rightarrow> 3 | METHOD_DELETE \<Rightarrow> 4 | METHOD_HEAD \<Rightarrow> 5
     | METHOD_OPTIONS \<Rightarrow> 6 | METHOD_UNSUPPORTED \<Rightarrow> 7) @ '' '' @ p @ '' '' @ v"

definition requestText ::
  "Method \<Rightarrow> string \<Rightarrow> string \<Rightarrow> (string \<times> string) list \<Rightarrow> string \<Rightarrow> string" where
  "requestText m p v hs body = requestLine m p v @ CRLF @ headerLines hs @ CRLF @ body"

definition token :: "string \<Rightarrow> bool" where
  "token s \<longleftrightarrow> s \<noteq> [] \<and> (\<forall>c \<in> set s. \<not> space c \<and> c \<noteq> NUL)"

definition good_header :: "string \<times> string \<Rightarrow> bool" where
  "good_header h \<longleftrightarrow> token (fst h) \<and> CHR '':'' \<notin> set (fst h) \<and> (\<forall>c \<in> set (snd h). not_eol c)"

definition well_formed ::
  "Method \<Rightarrow> string \<Rightarrow> string \<Rightarrow> (string \<times> string) list \<Rightarrow> string \<Rightarrow> bool" where
  "well_formed m p v hs body \<longleftrightarrow> m \<noteq> METHOD_UNSUPPORTED \<and> token p \<and> length p < 4096 \<and>
     token v \<and> length v < 9 \<and> hs \<noteq> [] \<and> (\<forall>h \<in> set hs. good_header h) \<and> NUL \<notin> set body"

section \<open>The parser's pieces\<close>

lemma token_not_eol: "token s \<Longrightarrow> c \<in> set s \<Longrightarrow> not_eol c"
  by (auto simp: token_def space_def not_eol_def)

lemma strToMethod_methodsList:
  "m \<noteq> METHOD_UNSUPPORTED \<Longrightarrow> strToMethod (methodsList ! (case m of METHOD_GET \<Rightarrow> 0
     | METHOD_POST \<Rightarrow> 1 | METHOD_PUT \<Rightarrow> 2 | METHOD_PATCH \<Rightarrow> 3 | METHOD_DELETE \<Rightarrow> 4
     | METHOD_HEAD \<Rightarrow> 5 | METHOD_OPTIONS \<Rightarrow> 6 | METHOD_UNSUPPORTED \<Rightarrow> 7)) = m"
  by (cases m) (simp_all add: strToMethod_def methodTable_def methodsList_def)

lemma method_token:
  "m \<noteq> METHOD_UNSUPPORTED \<Longrightarrow> w = methodsList ! (case m of METHOD_GET \<Rightarrow> 0
     | METHOD_POST \<Rightarrow> 1 | METHOD_PUT \<Rightarrow> 2 | METHOD_PATCH \<Rightarrow> 3 | METHOD_DELETE \<Rightarrow> 4
     | METHOD_HEAD \<Rightarrow> 5 | METHOD_OPTIONS \<Rightarrow> 6 | METHOD_UNSUPPORTED \<Rightarrow> 7) \<Longrightarrow>
   token w \<and> length w < 10"
  by (cases m) (simp_all add: methodsList_def token_def space_def)

lemma scan_into_token:
  assumes "token w" "length w < n" "s = [] \<or> space (hd s)"
  shows "scan_into n (w @ s) = Inr (w, s)"
  using assms scan_token_word [of w s] by (simp add: scan_into_def token_def)

lemma scan_into_skip: "space c \<Longrightarrow> scan_into n (c # s) = scan_into n s"
  by (simp add: scan_into_def scan_token_skip)

lemma scanRequestLine_requestLine:
  assumes "m \<noteq> METHOD_UNSUPPORTED" "token p" "length p < 4096" "token v" "length v < 9"
  shows "\<exists>w. scanRequestLine (requestLine m p v) = Inr (w, p, v) \<and> strToMethod w = m"
proof -
  define w where "w = methodsList ! (case m of METHOD_GET \<Rightarrow> 0
     | METHOD_POST \<Rightarrow> 1 | METHOD_PUT \<Rightarrow> 2 | METHOD_PATCH \<Rightarrow> 3 | METHOD_DELETE \<Rightarrow> 4
     | METHOD_HEAD \<Rightarrow> 5 | METHOD_OPTIONS \<Rightarrow> 6 | METHOD_UNSUPPORTED \<Rightarrow> 7)"
  have w: "token w" "length w < 10" using method_token [OF assms(1) w_def] by auto
  have sp: "space CHR '' ''" by (simp add: space_def)
  have "scan_into 10 (w @ '' '' @ p @ '' '' @ v) = Inr (w, '' '' @ p @ '' '' @ v)"
    "scan_into 4096 ('' '' @ p @ '' '' @ v) = Inr (p, '' '' @ v)"
    "scan_into 9 ('' '' @ v) = Inr (v, [])"
    using w assms sp scan_into_token [of v 9 "[]"] by (simp_all add: scan_into_token scan_into_skip)
  then have "scanRequestLine (requestLine m p v) = Inr (w, p, v)"
    unfolding scanRequestLine_def requestLine_def w_def [symmetric] by simp
  with strToMethod_methodsList [OF assms(1)] show ?thesis by (auto simp: w_def)
qed

lemma strstr_skip:
  assumes "q \<notin> set s" "NUL \<notin> set s"
  shows "strstr (q # p) (s @ m) = res_bind (strstr (q # p) m) (\<lambda>r. Inr (map_option ((+) (length s)) r))"
  using assms
proof (induction s)
  case Nil
  then show ?case
    by (cases "strstr (q # p) m") (simp_all add: option.map_id0 [unfolded id_def] option.map_ident)
next
  case (Cons c s)
  then show ?case
    by (cases "strstr (q # p) m") (auto simp: strstr_Cons option.map_comp comp_def)
qed

lemma good_header_chars:
  assumes "good_header (n, v)" "c \<in> set (n @ '': '' @ v)"
  shows "not_eol c"
proof -
  have "not_eol CHR '':''" "not_eol CHR '' ''" by (simp_all add: not_eol_def)
  with assms show ?thesis by (auto simp: good_header_def dest: token_not_eol)
qed

text \<open>The empty line after a list of headers is found behind the last one.\<close>

lemma strstr_headers:
  assumes "hs \<noteq> []" "\<forall>h \<in> set hs. good_header h"
  shows "strstr CRLFCRLF (headerLines hs @ CRLF @ m) = Inr (Some (length (headerLines hs) - 2))"
  using assms
proof (induction hs)
  case (Cons h hs)
  obtain n v where h: "h = (n, v)" by (cases h)
  define l where "l = n @ '': '' @ v"
  have good: "\<And>c. c \<in> set l \<Longrightarrow> not_eol c"
    using Cons.prems(2) h good_header_chars [of n v] by (auto simp: l_def)
  then have l: "CR \<notin> set l" "NUL \<notin> set l" by (auto simp: not_eol_def)
  have shift: "strstr CRLFCRLF (l @ x) = res_bind (strstr CRLFCRLF x) (\<lambda>r. Inr (map_option ((+) (length l)) r))" for x
    using strstr_skip [OF l] by (simp add: CRLFCRLF_def)
  have split: "headerLines (h # hs) @ CRLF @ m = l @ CRLF @ headerLines hs @ CRLF @ m"
    by (simp add: headerLines_def headerLine_def h l_def)
  have len: "length (headerLines (h # hs)) = length l + 2 + length (headerLines hs)"
    by (simp add: headerLines_def headerLine_def h l_def CRLF_def)
  show ?case
  proof (cases hs)
    case Nil
    have "strstr CRLFCRLF (CRLF @ headerLines hs @ CRLF @ m) = Inr (Some 0)"
      by (simp add: Nil headerLines_def CRLF_def CRLFCRLF_def strstr_Cons)
    with shift show ?thesis unfolding split len by (simp add: Nil headerLines_def)
  next
    case (Cons g gs)
    with Cons.prems(2) have g: "token (fst g)" by (simp add: good_header_def)
    then obtain a y where y: "fst g = a # y" by (cases "fst g") (auto simp: token_def)
    then have a: "not_eol a" using token_not_eol [OF g] by simp
    have z: "headerLines hs @ CRLF @ m = a # y @ '': '' @ snd g @ CRLF @ headerLines gs @ CRLF @ m"
      by (simp add: Cons headerLines_def headerLine_def y)
    have "strstr CRLFCRLF (headerLines hs @ CRLF @ m) = Inr (Some (length (headerLines hs) - 2))"
      using Cons.IH Cons.prems(2) Cons by auto
    then have "strstr CRLFCRLF (CRLF @ headerLines hs @ CRLF @ m) = Inr (Some (length (headerLines hs) - 2 + 2))"
      unfolding z using a by (simp add: CRLF_def CRLFCRLF_def strstr_Cons not_eol_def)
    moreover have "2 \<le> length (headerLines hs)"
      by (simp add: Cons headerLines_def headerLine_def CRLF_def)
    ultimately show ?thesis using shift unfolding split len by simp
  qed
qed simp

end
