(* ===== verification/Request_Properties.thy ===== *)
theory Request_Properties
  imports Request_Correct
begin

text \<open>
  The properties of receiving and parsing: the loop and the parser on well-formed requests,
  the two ends of the request buffer, and the header list.
\<close>

section \<open>The header loop on printed headers\<close>

definition parsed :: "string \<times> string \<Rightarrow> string \<times> string" where
  "parsed h = (toLower (fst h), snd h)"

lemma parseHeader_line:
  assumes "good_header (n, v)"
  shows "parseHeader (n @ '': '' @ v) (CR # z) = Inr (toLower n, v)"
proof -
  have n: "CHR '':'' \<notin> set n" "CHR '' '' \<notin> set n" "NUL \<notin> set n"
    using assms by (auto simp: good_header_def token_def space_def)
  have "takeWhile (\<lambda>c. c \<noteq> NUL \<and> c \<notin> set '': '') (n @ '': '' @ v) = n"
    using n by (subst takeWhile_append2) auto
  then have "strcspn (n @ '': '' @ v) '': '' = length n"
    by (simp add: strcspn_def)
  moreover have "takeWhile not_eol (v @ NUL # z) = v"
    using assms by (subst takeWhile_append2) (auto simp: good_header_def not_eol_def)
  ultimately show ?thesis by (simp add: parseHeader_def)
qed

lemma parseHeaders_lines:
  assumes "\<forall>h \<in> set hs. good_header h" "set lead \<subseteq> {CR, LF}"
  shows "parseHeaders (lead @ headerLines hs @ CRLF @ [NUL]) acc = Inr (rev (map parsed hs) @ acc)"
  using assms
proof (induction hs arbitrary: lead acc)
  case Nil
  then have "dropWhile (\<lambda>c. c = CR \<or> c = LF) (lead @ [CR, LF, NUL]) = [NUL]"
    by (subst dropWhile_append2) auto
  then show ?case
    by (subst parseHeaders.simps) (simp add: headerLines_def CRLF_def not_eol_def)
next
  case (Cons h hs)
  obtain n v where h: "h = (n, v)" by (cases h)
  define l where "l = n @ '': '' @ v"
  define z where "z = headerLines hs @ CRLF @ [NUL]"
  have good: "good_header (n, v)" using Cons.prems h by simp
  then have l: "\<And>c. c \<in> set l \<Longrightarrow> not_eol c" using good_header_chars l_def by blast
  have ne: "l \<noteq> []" by (simp add: l_def)
  have split: "lead @ headerLines (h # hs) @ CRLF @ [NUL] = lead @ l @ CR # LF # z"
    by (simp add: headerLines_def headerLine_def h l_def z_def CRLF_def)
  have "dropWhile (\<lambda>c. c = CR \<or> c = LF) (lead @ l @ CR # LF # z) = l @ CR # LF # z"
    using Cons.prems(2) l ne by (subst dropWhile_append2) (cases l; auto simp: not_eol_def)+
  moreover have "takeWhile not_eol (l @ CR # LF # z) = l"
    using l by (subst takeWhile_append2) (auto simp: not_eol_def)
  moreover have "parseHeader l (CR # LF # z) = Inr (parsed h)"
    using parseHeader_line [OF good] by (simp add: l_def parsed_def h)
  ultimately have "parseHeaders (lead @ l @ CR # LF # z) acc = parseHeaders ([LF] @ z) (parsed h # acc)"
    using ne by (subst parseHeaders.simps) simp
  then show ?case
    using Cons.IH [of "[LF]"] Cons.prems(1) by (simp add: split z_def)
qed

lemma strstr_requestLine:
  assumes "well_formed m p v hs body"
  shows "strstr CRLF (requestLine m p v @ CRLF @ x) = Inr (Some (length (requestLine m p v)))"
proof -
  define w where "w = methodsList ! (case m of METHOD_GET \<Rightarrow> 0
     | METHOD_POST \<Rightarrow> 1 | METHOD_PUT \<Rightarrow> 2 | METHOD_PATCH \<Rightarrow> 3 | METHOD_DELETE \<Rightarrow> 4
     | METHOD_HEAD \<Rightarrow> 5 | METHOD_OPTIONS \<Rightarrow> 6 | METHOD_UNSUPPORTED \<Rightarrow> 7)"
  have "token w" "token p" "token v"
    using assms method_token [OF _ w_def] by (auto simp: well_formed_def)
  then have "\<forall>c \<in> set (requestLine m p v). not_eol c"
    unfolding requestLine_def w_def [symmetric]
    by (auto dest: token_not_eol) (simp_all add: not_eol_def)
  then have "CR \<notin> set (requestLine m p v)" "NUL \<notin> set (requestLine m p v)"
    by (auto simp: not_eol_def)
  then have "strstr CRLF (requestLine m p v @ CRLF @ x)
    = res_bind (strstr CRLF (CRLF @ x)) (\<lambda>r. Inr (map_option ((+) (length (requestLine m p v))) r))"
    using strstr_skip by (simp add: CRLF_def)
  then show ?thesis by (simp add: CRLF_def strstr_Cons)
qed

text \<open>The connection \<open>processRequest\<close> leaves behind for a well-formed request.\<close>

definition requested ::
  "string \<Rightarrow> string \<Rightarrow> Method \<Rightarrow> string \<Rightarrow> string \<Rightarrow> (string \<times> string) list \<Rightarrow> string \<Rightarrow> element \<Rightarrow> element" where
  "requested dir addr m p v hs body c =
     c\<lparr>scheme := ''http'', ip := addr, path := Some p, req_method := m, protocolVersion := v,
       absolutePath := Some (dir @ realPath p),
       requestBody := (if body = [] then requestBody c else Some body),
       requestHeaders := Some (rev (map parsed hs))\<rparr>"

lemma parseBody_headers:
  assumes "hs \<noteq> []" "\<forall>h \<in> set hs. good_header h" "NUL \<notin> set body" "requestHeaders c = None"
  shows "parseBody (r @ CRLF @ headerLines hs @ CRLF @ body @ NUL # junk) (length r) c
    = Inr (True, (if body = [] then c else c\<lparr>requestBody := Some body\<rparr>)
                   \<lparr>requestHeaders := Some (rev (map parsed hs))\<rparr>)"
proof -
  define H where "H = headerLines hs"
  obtain g gs where "hs = g # gs" using assms(1) by (cases hs) auto
  then have two: "2 \<le> length H" by (simp add: H_def headerLines_def headerLine_def CRLF_def)
  define rest where "rest = H @ CRLF @ body @ NUL # junk"
  have s: "strstr CRLFCRLF rest = Inr (Some (length H - 2))"
    using strstr_headers [OF assms(1,2)] by (simp add: rest_def H_def)
  have "length H - 2 + 4 = length (H @ CRLF)" "length H - 2 + 6 = length (CRLF @ H @ CRLF)"
    using two by (simp_all add: CRLF_def)
  then have d: "drop (length H - 2 + 4) rest = body @ NUL # junk"
    "take (length H - 2 + 6) (CRLF @ rest) = CRLF @ H @ CRLF"
    by (simp_all only: rest_def append_assoc [symmetric] drop_append take_append) simp_all
  have "parseHeaders (CRLF @ H @ CRLF @ [NUL]) [] = Inr (rev (map parsed hs))"
    using parseHeaders_lines [OF assms(2), of CRLF "[]"] by (simp add: H_def CRLF_def)
  moreover have "drop (length r + 2) (r @ CRLF @ rest) = rest"
    "drop (length r) (r @ CRLF @ rest) = CRLF @ rest" by (simp_all add: CRLF_def)
  ultimately show ?thesis
    using s d c_string_terminated [OF assms(3), of junk] assms(1,4)
    by (simp add: parseBody_def H_def [symmetric] rest_def [symmetric] Let_def
        del: drop_append take_append)
qed

lemma requestText_NUL:
  assumes "well_formed m p v hs body"
  shows "NUL \<notin> set (requestText m p v hs body)"
proof -
  define w where "w = methodsList ! (case m of METHOD_GET \<Rightarrow> 0
     | METHOD_POST \<Rightarrow> 1 | METHOD_PUT \<Rightarrow> 2 | METHOD_PATCH \<Rightarrow> 3 | METHOD_DELETE \<Rightarrow> 4
     | METHOD_HEAD \<Rightarrow> 5 | METHOD_OPTIONS \<Rightarrow> 6 | METHOD_UNSUPPORTED \<Rightarrow> 7)"
  have "token w" "token p" "token v"
    using assms method_token [OF _ w_def] by (auto simp: well_formed_def)
  then have "NUL \<notin> set (requestLine m p v)"
    unfolding requestLine_def w_def [symmetric] by (auto simp: token_def)
  moreover have "NUL \<notin> set (headerLine h)" if "h \<in> set hs" for h
  proof -
    obtain n x where h: "h = (n, x)" by (cases h)
    with that assms have "good_header (n, x)" by (auto simp: well_formed_def)
    then have "NUL \<notin> set (n @ '': '' @ x)"
      using good_header_chars [of n x NUL] by (auto simp: not_eol_def)
    then show ?thesis by (simp add: headerLine_def h CRLF_def)
  qed
  ultimately show ?thesis
    using assms by (auto simp: requestText_def headerLines_def CRLF_def well_formed_def)
qed

lemma processRequest_text:
  assumes "well_formed m p v hs body" "requestHeaders c = None"
    "requestBuffer c = Some (requestText m p v hs body @ NUL # junk)"
  shows "processRequest dir (Some addr) c = Inr (True, requested dir addr m p v hs body c)"
proof -
  define r where "r = requestLine m p v"
  define x where "x = headerLines hs @ CRLF @ body @ NUL # junk"
  have b: "requestBuffer c = Some (r @ CRLF @ x)"
    using assms(3) by (simp add: requestText_def r_def x_def)
  have s: "strstr CRLF (r @ CRLF @ x) = Inr (Some (length r))"
    using strstr_requestLine [OF assms(1)] by (simp add: r_def)
  obtain w where w: "scanRequestLine r = Inr (w, p, v)" "strToMethod w = m"
    using scanRequestLine_requestLine [of m p v] assms(1) by (auto simp: r_def well_formed_def)
  have t: "take (length r) (r @ CRLF @ x) = r" by simp
  note body = parseBody_headers [where hs = hs and body = body and junk = junk and r = r, folded x_def]
  show ?thesis
    using assms(1,2) w
    by (simp add: processRequest_def b s t body well_formed_def requested_def Let_def
        del: take_append)
qed

lemma completeRequest_block:
  assumes "length r < n"
  shows "completeRequest (received n r c) (block n r)
    = Inr (c\<lparr>requestBuffer := Some (block n r), requestBufferLength := n,
             state := STATE_CONNECTION_SEND_HEADERS, requestBufferOffset := 0\<rparr>)"
proof -
  have "poke (block n r) (length r) NUL = Inr (block n r)"
    using assms by (simp add: poke_def block_def list_update_append)
      (metis list_update_id nth_replicate zero_less_diff)
  then show ?thesis by (cases c) (simp add: completeRequest_def received_def)
qed

section \<open>Properties\<close>

text \<open>
  C20: parsing inverts printing. A well-formed request, printed with CRLF line ends and ended
  by a NUL, is accepted whatever stands behind it in the buffer, and the connection gets the
  method, the path, the version, the absolute path under the document root, the headers with
  lower-case names (the last header first) and the body.
\<close>

theorem request_round_trip:
  assumes "well_formed m p v hs body" "requestHeaders c = None"
    "requestBuffer c = Some (requestText m p v hs body @ NUL # junk)"
  shows "processRequest dir (Some addr) c = Inr (True, requested dir addr m p v hs body c)"
  using assms by (rule processRequest_text)

theorem request_round_trip_witness:
  "processRequest ''html'' (Some ''10.0.0.1'')
     (emptyConnection\<lparr>requestBuffer := Some (requestText METHOD_GET ''/a?b'' ''HTTP/1.1''
        [(''Host'', ''x''), (''Accept'', [])] ''hi'' @ NUL # ''junk'')\<rparr>)
   = Inr (True, requested ''html'' ''10.0.0.1'' METHOD_GET ''/a?b'' ''HTTP/1.1''
        [(''Host'', ''x''), (''Accept'', [])] ''hi''
        (emptyConnection\<lparr>requestBuffer := Some (requestText METHOD_GET ''/a?b'' ''HTTP/1.1''
           [(''Host'', ''x''), (''Accept'', [])] ''hi'' @ NUL # ''junk'')\<rparr>))"
  by (rule request_round_trip [where junk = "''junk''"])
    (simp_all add: well_formed_def token_def good_header_def space_def not_eol_def emptyConnection_def)

text \<open>
  C19: a request whose head ends within the buffer is received in full however the network
  cuts it up and however often \<open>recv\<close> is interrupted: when the bytes are \<open>r\<close>, the first empty
  line of \<open>r\<close> is completed by the last piece and \<open>r\<close> is shorter than the zeroed buffer, the
  loop stops with \<open>r\<close> in the buffer, NUL-terminated, and the state \<open>SEND_HEADERS\<close>.
\<close>

theorem recv_any_chunking:
  assumes "filter (\<lambda>e. e \<noteq> RecvEINTR) es = map Arrive cs" "\<forall>x \<in> set cs. x \<noteq> []" "b \<noteq> []"
    "r = concat cs @ b" "NUL \<notin> set r" "head_at k r" "length (concat cs) < k + 4"
    "length r < n"
  shows "recvRequest (es @ Arrive b # later) (received n [] c)
    = Inr (c\<lparr>requestBuffer := Some (block n r), requestBufferLength := n,
             state := STATE_CONNECTION_SEND_HEADERS, requestBufferOffset := 0\<rparr>, later)"
  using recv_loop [of es cs b r "[]" k n later c] assms completeRequest_block [of r n c] by simp

theorem recv_any_chunking_witness:
  "recvRequest ([RecvEINTR, Arrive ''GET /'', RecvEINTR] @ Arrive (CRLFCRLF @ ''hi'') # [RecvError])
     (received 16 [] emptyConnection)
   = Inr (emptyConnection\<lparr>requestBuffer := Some (block 16 (''GET /'' @ CRLFCRLF @ ''hi'')),
            requestBufferLength := 16, state := STATE_CONNECTION_SEND_HEADERS,
            requestBufferOffset := 0\<rparr>, [RecvError])"
proof -
  have "head_at 5 (''GET /'' @ CRLFCRLF @ ''hi'')" by code_simp
  then show ?thesis
    by (intro recv_any_chunking [where cs = "[''GET /'']" and k = 5]) (auto simp: CRLFCRLF_def)
qed

text \<open>
  C21: bytes that fill the request buffer take the server out of it. Whatever \<open>p\<close> has been
  received, when the next bytes reach the end of the \<open>n\<close> byte block and none of them is a NUL,
  the loop either searches for the empty line behind the block or finds it and writes the
  terminating NUL at index \<open>n\<close>.
\<close>

theorem full_buffer_out_of_bounds:
  assumes "length p < n" "n \<le> length p + length b" "NUL \<notin> set p" "NUL \<notin> set b"
  shows "recvRequest (Arrive b # es) (received n p c) = Inl OutOfBounds"
proof -
  define got where "got = take (n - length p) b"
  have len: "length got = n - length p" using assms(2) by (simp add: got_def)
  then have ne: "got \<noteq> []" using assms(1) by auto
  have blk: "block n (p @ got) = p @ got" using len by (simp add: block_def)
  have nul: "NUL \<notin> set (p @ got)" using assms(3,4) by (auto simp: got_def dest: in_set_takeD)
  have store: "store (block n p) (length p) got = block n (p @ got)"
    using len assms(1) by (intro store_block) simp
  have full: "poke (p @ got) (length p + length got) NUL = Inl OutOfBounds"
    by (simp add: poke_def)
  from strstr_without_NUL [OF nul, of CRLFCRLF]
  consider "isRequestComplete (p @ got) = Inl OutOfBounds" | "isRequestComplete (p @ got) = Inr True"
    by (auto simp: isRequestComplete_def)
  then show ?thesis
    using ne full store assms(1) ne [unfolded got_def, simplified]
    by cases (simp_all add: received_def Let_def got_def [symmetric] blk completeRequest_def)
qed

theorem full_buffer_out_of_bounds_witness:
  "recvRequest [Arrive CRLFCRLF] (received 8 ''GET '' emptyConnection) = Inl OutOfBounds"
  by (rule full_buffer_out_of_bounds) (simp_all add: CRLFCRLF_def)

text \<open>
  The buffer is not cleared, so a piece of a request can be completed by what the block
  held before. If the \<open>p\<close> bytes received so far have no NUL and the old bytes behind them have
  an empty line before their first NUL, the request counts as complete after \<open>p\<close> alone.
\<close>

theorem stale_buffer_completes:
  assumes "p \<noteq> []" "length p < length old" "requestBuffer c = Some old" "requestBufferOffset c = 0"
    "requestBufferLength c = length old" "head_at k (p @ stale)" "NUL \<notin> set (p @ stale)"
    "drop (length p) old = stale @ older"
  shows "recvRequest (Arrive p # es) c
    = Inr (c\<lparr>requestBuffer := Some (p @ NUL # tl (drop (length p) old)),
             state := STATE_CONNECTION_SEND_HEADERS, requestBufferOffset := 0\<rparr>, es)"
proof -
  have st: "store old 0 p = p @ stale @ older" using assms(8) by (simp add: store_def)
  have "isRequestComplete (p @ stale @ older) = Inr True"
    using strstr_head [OF assms(6,7), of older] by (simp add: isRequestComplete_def)
  moreover have "poke (p @ stale @ older) (length p) NUL = Inr (p @ NUL # tl (stale @ older))"
    using assms(2) unfolding assms(8) [symmetric]
    by (cases "drop (length p) old") (simp_all add: poke_def list_update_append)
  ultimately show ?thesis
    using assms st by (cases c, cases old) (simp_all add: Let_def completeRequest_def)
qed

theorem stale_buffer_completes_witness:
  "recvRequest [Arrive ''GE''] (emptyConnection\<lparr>requestBufferLength := 8,
       requestBuffer := Some (''xx'' @ CRLFCRLF @ [NUL, NUL])\<rparr>)
   = Inr (emptyConnection\<lparr>requestBufferLength := 8,
       requestBuffer := Some (''GE'' @ NUL # tl (drop 2 (''xx'' @ CRLFCRLF @ [NUL, NUL]))),
       state := STATE_CONNECTION_SEND_HEADERS, requestBufferOffset := 0\<rparr>, [])"
proof -
  have "head_at 2 (''GE'' @ CRLFCRLF)" by code_simp
  then show ?thesis
    using stale_buffer_completes [of "''GE''" "''xx'' @ CRLFCRLF @ [NUL, NUL]"
        "emptyConnection\<lparr>requestBufferLength := 8,
           requestBuffer := Some (''xx'' @ CRLFCRLF @ [NUL, NUL])\<rparr>" 2 CRLFCRLF "[NUL, NUL]" "[]"]
    by (simp add: CRLFCRLF_def emptyConnection_def)
qed

text \<open>
  A lookup in the headers of a parsed request finds the last header of that name the
  client sent, whatever case it was sent in.
\<close>

theorem getHeader_last:
  assumes "hs = before @ (n, v) # after" "toLower n = name" "\<forall>h \<in> set after. toLower (fst h) \<noteq> name"
  shows "getHeader (rev (map parsed hs)) name = Some v"
proof -
  have "getHeader (rev (map parsed after) @ x) name = getHeader x name" for x
    using assms(3)
  proof (induction after arbitrary: x)
    case (Cons a after)
    then show ?case by (simp add: parsed_def)
  qed simp
  then show ?thesis using assms(1,2) by (simp add: parsed_def)
qed

theorem getHeader_last_witness:
  "getHeader (rev (map parsed [(''Host'', ''a''), (''HOST'', ''b''), (''X'', ''c'')])) ''host'' = Some ''b''"
  by (rule getHeader_last [where before = "[(''Host'', ''a'')]" and n = "''HOST''" and after = "[(''X'', ''c'')]"])
    (simp_all add: toLower_def tolower_def char_of_def bit_Suc_0_iff)

end
