(* ===== verification/Connection_Transfer.thy ===== *)
theory Connection_Transfer
  imports Connection_Correct Request_Properties
begin

text \<open>
  One response from the first byte to the last: the turns of the loop as a step relation, the
  two sending states over partial sends, interruptions and a full socket, and the turns from a
  received request to the end of the response.
\<close>

section \<open>Turns of the loop\<close>

definition turning :: "element \<Rightarrow> bool" where
  "turning c \<longleftrightarrow> state c \<noteq> STATE_CONNECTION_DONE_FOR_CLOSE \<and>
     \<not> (state c = STATE_CONNECTION_DONE \<and> keepAlive c)"

inductive turns :: "host \<Rightarrow> element \<times> socket \<Rightarrow> element \<times> socket \<Rightarrow> bool" for h where
  turns_refl: "turns h x x"
| turns_step: "turning c \<Longrightarrow> advanceState h c w = Inr y \<Longrightarrow> turns h y z \<Longrightarrow> turns h (c, w) z"

inductive_cases turns_from: "turns h (c, w) z"

lemma turns_trans: "turns h x y \<Longrightarrow> turns h y z \<Longrightarrow> turns h x z"
  by (induction rule: turns.induct) (auto intro: turns.intros)

definition workerAt :: "nat \<Rightarrow> worker \<Rightarrow> element \<times> socket \<Rightarrow> worker" where
  "workerAt pos w x = w\<lparr>queue := (queue w)\<lparr>connections := (connections (queue w))[pos := fst x]\<rparr>,
     socket := snd x\<rparr>"

lemma connStep_turning:
  assumes "turning c" "advanceState h c s = Inr y" "pos < length (connections (queue w))"
  shows "connStep h fd pos (workerAt pos w (c, s)) = Inr (True, workerAt pos w y)"
  using assms by (cases y) (auto simp: connStep_def turning_def workerAt_def getConn_def setConn_def)

lemma serve_step:
  assumes "turning c" "advanceState h c s = Inr y" "pos < length (connections (queue w))"
  shows "serve h fd pos (workerAt pos w (c, s)) = serve h fd pos (workerAt pos w y)"
  using connStep_turning [OF assms] by (subst serve.simps) simp

lemma serve_turns:
  assumes "turns h x y" "pos < length (connections (queue w))"
  shows "serve h fd pos (workerAt pos w x) = serve h fd pos (workerAt pos w y)"
  using assms by (induction rule: turns.induct) (auto simp: serve_step)

section \<open>Sending a block\<close>

text \<open>A client that takes at least a byte at a time and does not fail; it may be busy.\<close>

definition polite :: "send_event list \<Rightarrow> bool" where
  "polite es \<longleftrightarrow> (\<forall>e \<in> set es. e \<noteq> SendError \<and> e \<noteq> Accept 0)"

fun accepts :: "send_event list \<Rightarrow> nat" where
  "accepts [] = 0"
| "accepts (Accept n # es) = Suc (accepts es)"
| "accepts (e # es) = accepts es"

lemma polite_simps [simp]:
  "polite []" "polite (e # es) \<longleftrightarrow> e \<noteq> SendError \<and> e \<noteq> Accept 0 \<and> polite es"
  by (auto simp: polite_def)

text \<open>
  What a sending state promises: \<open>run\<close> is its loop on a connection with the file system, \<open>t\<close>
  the block it sends, \<open>offset\<close> how much is out, \<open>upd\<close> sets it and \<open>finish\<close> is the state it
  ends in. \<open>turn\<close> is a turn of the connection loop in this state.
\<close>

type_synonym conn = "element \<times> fs"

locale transfer =
  fixes run :: "send_event list \<Rightarrow> conn \<Rightarrow> (conn \<times> string \<times> send_event list) res"
    and t :: string
    and ready :: "conn \<Rightarrow> bool"
    and offset :: "conn \<Rightarrow> nat"
    and upd :: "nat \<Rightarrow> conn \<Rightarrow> conn"
    and finish :: "conn \<Rightarrow> conn"
    and h :: host
  assumes interrupted: "ready c \<Longrightarrow> run (SendEINTR # es) c = run es c"
    and busy: "ready c \<Longrightarrow> run (SendEAGAIN # es) c = Inr (c, [], es)"
    and accept: "ready c \<Longrightarrow> 0 < n \<Longrightarrow> i = min n (length t - offset c) \<Longrightarrow>
      run (Accept n # es) c =
        (if offset c + i = length t then Inr (finish c, take i (drop (offset c) t), es)
         else res_bind (run es (upd (offset c + i) c)) (\<lambda>(c2, more_sent, es').
           Inr (c2, take i (drop (offset c) t) @ more_sent, es')))"
    and ready_bound: "ready c \<Longrightarrow> offset c < length t"
    and ready_upd: "ready c \<Longrightarrow> k < length t \<Longrightarrow> ready (upd k c)"
    and offset_upd: "ready c \<Longrightarrow> offset (upd k c) = k"
    and upd_offset: "ready c \<Longrightarrow> upd (offset c) c = c"
    and upd_upd: "upd j (upd k c) = upd j c"
    and finish_upd: "finish (upd k c) = finish c"
    and turn: "ready (con, fsys w) \<Longrightarrow> turning con \<and> advanceState h con w =
      res_bind (run (sends w) (con, fsys w)) (\<lambda>((con', s'), sent, es).
        Inr (con', w\<lparr>fsys := s', sends := es, wire := wire w @ sent\<rparr>))"
begin

lemma run_polite:
  assumes "ready c" "polite es" "length t - offset c \<le> accepts es"
  shows "\<exists>j es'. offset c + j \<le> length t \<and> polite es' \<and> accepts es - j \<le> accepts es' \<and>
    (offset c + j < length t \<and> length es' < length es \<and>
       run es c = Inr (upd (offset c + j) c, take j (drop (offset c) t), es') \<or>
     offset c + j = length t \<and> run es c = Inr (finish c, drop (offset c) t, es'))"
  using assms
proof (induction es arbitrary: c)
  case Nil
  then show ?case using ready_bound [of c] by simp
next
  case (Cons e es)
  note k = ready_bound [OF Cons.prems(1)]
  show ?case
  proof (cases e)
    case (Accept n)
    define i where "i = min n (length t - offset c)"
    have i: "0 < i" "offset c + i \<le> length t" "0 < n"
      using Cons.prems(2) k Accept by (auto simp: i_def)
    note step = accept [OF Cons.prems(1) i(3) i_def, of es]
    show ?thesis
    proof (cases "offset c + i = length t")
      case True
      then show ?thesis
        using step Cons.prems(2) Accept i by (intro exI [of _ i] exI [of _ es]) auto
    next
      case False
      define d where "d = upd (offset c + i) c"
      have d: "ready d" "offset d = offset c + i"
        using False i ready_upd [OF Cons.prems(1)] offset_upd [OF Cons.prems(1)] by (auto simp: d_def)
      have "length t - (offset c + i) \<le> accepts es" using Cons.prems(3) Accept i(1) by simp
      then obtain j es' where j: "offset d + j \<le> length t" "polite es'" "accepts es - j \<le> accepts es'"
        "(offset d + j < length t \<and> length es' < length es \<and>
            run es d = Inr (upd (offset d + j) d, take j (drop (offset d) t), es') \<or>
          offset d + j = length t \<and> run es d = Inr (finish d, drop (offset d) t, es'))"
        using Cons.IH [OF d(1)] Cons.prems(2) d(2) by auto
      have a: "take i (drop (offset c) t) @ take j (drop (offset c + i) t) = take (i + j) (drop (offset c) t)"
        "take i (drop (offset c) t) @ drop (offset c + i) t = drop (offset c) t"
        using append_take_drop_id [of i "drop (offset c) t"] by (simp_all add: take_add add.commute)
      show ?thesis
        using j step False i Accept a d(2)
        by (intro exI [of _ "i + j"] exI [of _ es'])
          (auto simp: d_def [symmetric] add.assoc, auto simp: d_def upd_upd finish_upd)
    qed
  next
    case SendEINTR
    with Cons.IH [OF Cons.prems(1)] Cons.prems show ?thesis
      by (auto simp: less_Suc_eq interrupted)
  next
    case SendEAGAIN
    with Cons.prems k show ?thesis
      by (intro exI [of _ 0] exI [of _ es]) (auto simp: busy upd_offset)
  qed (use Cons.prems in auto)
qed

text \<open>However often the socket is full, the loop sends the rest of the block, once.\<close>

lemma turns_polite:
  assumes "ready (c, fsys w)" "polite (sends w)" "length t - offset (c, fsys w) \<le> accepts (sends w)"
  shows "\<exists>es'. polite es' \<and> accepts (sends w) - (length t - offset (c, fsys w)) \<le> accepts es' \<and>
    turns h (c, w) (fst (finish (c, fsys w)), w\<lparr>fsys := snd (finish (c, fsys w)), sends := es',
      wire := wire w @ drop (offset (c, fsys w)) t\<rparr>)"
  using assms
proof (induction "length (sends w)" arbitrary: c w rule: less_induct)
  case less
  let ?x = "(c, fsys w)"
  let ?k = "offset ?x"
  note tn = turn [OF less.prems(1)]
  obtain j es' where j: "?k + j \<le> length t" "polite es'" "accepts (sends w) - j \<le> accepts es'"
    and r: "?k + j < length t \<and> length es' < length (sends w) \<and>
       run (sends w) ?x = Inr (upd (?k + j) ?x, take j (drop ?k t), es') \<or>
     ?k + j = length t \<and> run (sends w) ?x = Inr (finish ?x, drop ?k t, es')"
    using run_polite [OF less.prems] by auto
  from r show ?case
  proof
    assume part: "?k + j < length t \<and> length es' < length (sends w) \<and>
       run (sends w) ?x = Inr (upd (?k + j) ?x, take j (drop ?k t), es')"
    obtain c1 s1 where u: "upd (?k + j) ?x = (c1, s1)" by (cases "upd (?k + j) ?x")
    define w1 where "w1 = w\<lparr>fsys := s1, sends := es', wire := wire w @ take j (drop ?k t)\<rparr>"
    have x1: "(c1, fsys w1) = upd (?k + j) ?x" by (simp add: w1_def u)
    have r1: "ready (c1, fsys w1)" "offset (c1, fsys w1) = ?k + j" "finish (c1, fsys w1) = finish ?x"
      using part ready_upd [OF less.prems(1)] offset_upd [OF less.prems(1)] x1 finish_upd by auto
    have "turns h (c, w) (c1, w1)"
      using tn part u by (intro turns_step [OF _ _ turns_refl]) (auto simp: w1_def)
    moreover have "length (sends w1) < length (sends w)" "polite (sends w1)"
      "length t - offset (c1, fsys w1) \<le> accepts (sends w1)"
      using part j less.prems(3) r1(2) by (auto simp: w1_def)
    then obtain es'' where e: "polite es''"
      "accepts (sends w1) - (length t - (?k + j)) \<le> accepts es''"
      "turns h (c1, w1) (fst (finish ?x), w1\<lparr>fsys := snd (finish ?x), sends := es'',
         wire := wire w1 @ drop (?k + j) t\<rparr>)"
      using less.hyps [OF _ r1(1)] r1 by auto
    moreover have "wire w1 @ drop (?k + j) t = wire w @ drop ?k t"
      using append_take_drop_id [of j "drop ?k t"] by (simp add: w1_def add.commute)
    moreover have "w1\<lparr>fsys := snd (finish ?x), sends := es'', wire := wire w @ drop ?k t\<rparr>
      = w\<lparr>fsys := snd (finish ?x), sends := es'', wire := wire w @ drop ?k t\<rparr>"
      by (simp add: w1_def)
    moreover have "accepts (sends w) - (length t - ?k) \<le> accepts es''"
    proof -
      have "accepts es' - (length t - (?k + j)) \<le> accepts es''" using e(2) by (simp add: w1_def)
      with j(3) part show ?thesis by linarith
    qed
    ultimately show ?thesis
      by (intro exI [of _ es'']) (auto simp: w1_def intro: turns_trans)
  next
    assume full: "?k + j = length t \<and> run (sends w) ?x = Inr (finish ?x, drop ?k t, es')"
    obtain c1 s1 where u: "finish ?x = (c1, s1)" by (cases "finish ?x")
    have "turns h (c, w) (c1, w\<lparr>fsys := s1, sends := es', wire := wire w @ drop ?k t\<rparr>)"
      using tn full u by (intro turns_step [OF _ _ turns_refl]) auto
    moreover have "j = length t - ?k" using full by linarith
    ultimately show ?thesis using j u by (intro exI [of _ es']) auto
  qed
qed

end

section \<open>The two sending states\<close>

definition runHeaders :: "send_event list \<Rightarrow> conn \<Rightarrow> (conn \<times> string \<times> send_event list) res" where
  "runHeaders es c = res_bind (sendResponseHeaders es (fst c)) (\<lambda>(c', sent, es').
     Inr ((c', snd c), sent, es'))"

definition sendingHeaders :: "string \<Rightarrow> conn \<Rightarrow> bool" where
  "sendingHeaders t x \<longleftrightarrow> (let c = fst x in
     state c = STATE_CONNECTION_SEND_HEADERS \<and> requestHeaders c \<noteq> None \<and>
     responseBufferHeaders c = Some (t @ [NUL]) \<and> responseBufferHeadersLength c = length t \<and>
     responseBufferHeadersOffset c < length t)"

definition setHeadersOffset :: "nat \<Rightarrow> conn \<Rightarrow> conn" where
  "setHeadersOffset k x = ((fst x)\<lparr>responseBufferHeadersOffset := k\<rparr>, snd x)"

definition headersSent :: "conn \<Rightarrow> conn" where
  "headersSent x =
     ((fst x)\<lparr>state := STATE_CONNECTION_SEND_BODY, responseBufferHeadersOffset := 0\<rparr>, snd x)"

lemma take_min_drop: "k \<le> length t \<Longrightarrow> take n (take (length t - k) (drop k (t @ r))) =
    take (min n (length t - k)) (drop k t)"
  by (cases "n \<le> length t - k") (simp_all add: min_def)

interpretation headers: transfer runHeaders t "sendingHeaders t"
  "\<lambda>x. responseBufferHeadersOffset (fst x)" setHeadersOffset headersSent h for t h
proof unfold_locales
  fix c :: conn and n i es
  assume a: "sendingHeaders t c" "0 < n" "i = min n (length t - responseBufferHeadersOffset (fst c))"
  define k where "k = responseBufferHeadersOffset (fst c)"
  have k: "k < length t" using a(1) by (simp add: sendingHeaders_def k_def Let_def)
  have ne: "take i (drop k t) \<noteq> []" "length (take i (drop k t)) = i" using a(2,3) k by (auto simp: k_def)
  have w: "window (t @ [NUL]) k (length t - k) = Inr (take (length t - k) (drop k (t @ [NUL])))"
    using k by (simp add: window_def)
  have m: "take n (take (length t - k) (drop k (t @ [NUL]))) = take i (drop k t)"
    using take_min_drop [of k t n "[NUL]"] k a(3) by (simp add: k_def)
  show "runHeaders (Accept n # es) c =
      (if responseBufferHeadersOffset (fst c) + i = length t
       then Inr (headersSent c, take i (drop (responseBufferHeadersOffset (fst c)) t), es)
       else res_bind (runHeaders es (setHeadersOffset (responseBufferHeadersOffset (fst c) + i) c))
         (\<lambda>(c2, more_sent, es').
           Inr (c2, take i (drop (responseBufferHeadersOffset (fst c)) t) @ more_sent, es')))"
    using a(1,2) ne w m unfolding k_def [symmetric]
    by (cases "sendResponseHeaders es ((fst c)\<lparr>responseBufferHeadersOffset := k + i\<rparr>)")
      (auto simp: runHeaders_def sendingHeaders_def headersSent_def setHeadersOffset_def Let_def
        k_def [symmetric] simp del: take_append drop_append split: prod.splits)
next
  fix c and w :: socket
  assume "sendingHeaders t (c, fsys w)"
  then show "turning c \<and> advanceState h c w =
      res_bind (runHeaders (sends w) (c, fsys w)) (\<lambda>((c', s'), sent, es).
        Inr (c', w\<lparr>fsys := s', sends := es, wire := wire w @ sent\<rparr>))"
    by (cases "sendResponseHeaders (sends w) c")
      (auto simp: sendingHeaders_def turning_def advanceState_def stateSendHeaders_def
        respondHeaders_def runHeaders_def Let_def)
qed (auto simp: runHeaders_def sendingHeaders_def headersSent_def setHeadersOffset_def Let_def)

definition runBody :: "send_event list \<Rightarrow> conn \<Rightarrow> (conn \<times> string \<times> send_event list) res" where
  "runBody es x = res_bind (sendResponseFile es (fst x) (snd x)) (\<lambda>(c', s', sent, es').
     Inr ((c', s'), sent, es'))"

definition sendingBody :: "string \<Rightarrow> conn \<Rightarrow> bool" where
  "sendingBody t x \<longleftrightarrow> (let (c, s) = x in
     state c = STATE_CONNECTION_SEND_BODY \<and> bodyFd c \<noteq> -1 \<and>
     (\<exists>f. opened s (bodyFd c) = Some f \<and> content f = t) \<and> bodyLength c = length t \<and>
     bodyOffset c < length t)"

definition setBodyOffset :: "nat \<Rightarrow> conn \<Rightarrow> conn" where
  "setBodyOffset k x = ((fst x)\<lparr>bodyOffset := k\<rparr>, snd x)"

definition bodySent :: "conn \<Rightarrow> conn" where
  "bodySent x = bodyDone (fst x) (snd x)"

interpretation body: transfer runBody t "sendingBody t"
  "\<lambda>x. bodyOffset (fst x)" setBodyOffset bodySent h for t h
proof unfold_locales
  fix c :: conn and n i es
  assume a: "sendingBody t c" "0 < n" "i = min n (length t - bodyOffset (fst c))"
  define k where "k = bodyOffset (fst c)"
  have k: "k < length t" using a(1) by (auto simp: sendingBody_def k_def)
  have ne: "take i (drop k t) \<noteq> []" "length (take i (drop k t)) = i" using a(2,3) k by (auto simp: k_def)
  have i: "min n (length t - k) = i" using a(3) by (simp add: k_def)
  obtain e s f where c: "c = (e, s)" "opened s (bodyFd e) = Some f" "content f = t"
    "bodyLength e = length t" "bodyFd e \<noteq> -1" "bodyOffset e = k"
    using a(1) by (auto simp: sendingBody_def k_def)
  show "runBody (Accept n # es) c =
      (if bodyOffset (fst c) + i = length t
       then Inr (bodySent c, take i (drop (bodyOffset (fst c)) t), es)
       else res_bind (runBody es (setBodyOffset (bodyOffset (fst c) + i) c))
         (\<lambda>(c2, more_sent, es').
           Inr (c2, take i (drop (bodyOffset (fst c)) t) @ more_sent, es')))"
    using ne i c
    by (cases "sendfile_loop es (e\<lparr>bodyOffset := k + i\<rparr>) s")
      (auto simp: runBody_def sendResponseFile_def bodySent_def setBodyOffset_def bodyDone_def Let_def
        split: prod.splits)
next
  fix c and w :: socket
  assume "sendingBody t (c, fsys w)"
  then show "turning c \<and> advanceState h c w =
      res_bind (runBody (sends w) (c, fsys w)) (\<lambda>((c', s'), sent, es).
        Inr (c', w\<lparr>fsys := s', sends := es, wire := wire w @ sent\<rparr>))"
    by (cases "sendResponseFile (sends w) c (fsys w)")
      (auto simp: sendingBody_def turning_def advanceState_def stateSendBody_def runBody_def)
qed (auto simp: runBody_def sendingBody_def bodySent_def setBodyOffset_def bodyDone_def
    sendResponseFile_def)

end
