(* ===== verification/Connection_Properties.thy ===== *)
theory Connection_Properties
  imports Connection_Transfer
begin

text \<open>
  The properties of the connection loop and of the senders: one request served from its first
  byte to its last, the loop's end, its behaviour on a silent client, and what \<open>sendAll\<close> and
  the compressed copies do.
\<close>

section \<open>From the request to the response\<close>

lemma received_fresh:
  "received 1024 [] (freshConnection fd t (replicate 1024 NUL)) = freshConnection fd t (replicate 1024 NUL)"
  by (simp add: received_def block_def freshConnection_def emptyConnection_def BUFFER_REQUEST_SIZE_def)

definition requestRead :: "int \<Rightarrow> int \<Rightarrow> string \<Rightarrow> element" where
  "requestRead fd t r = (freshConnection fd t (replicate 1024 NUL))\<lparr>requestBuffer := Some (block 1024 r),
     state := STATE_CONNECTION_SEND_HEADERS\<rparr>"

lemma turns_recv:
  assumes "filter (\<lambda>e. e \<noteq> RecvEINTR) es = map Arrive cs" "\<forall>x \<in> set cs. x \<noteq> []" "b \<noteq> []"
    "r = concat cs @ b" "NUL \<notin> set r" "head_at k r" "length (concat cs) < k + 4"
    "length r < 1024" "recvs w = es @ Arrive b # later"
  shows "turns h (freshConnection fd t (replicate 1024 NUL), w) (requestRead fd t r, w\<lparr>recvs := later\<rparr>)"
proof -
  let ?c = "freshConnection fd t (replicate 1024 NUL)"
  have "recvRequest (recvs w) ?c = Inr (?c\<lparr>requestBuffer := Some (block 1024 r),
      requestBufferLength := 1024, state := STATE_CONNECTION_SEND_HEADERS, requestBufferOffset := 0\<rparr>, later)"
    using recv_loop [of es cs b r "[]" k 1024 later ?c] assms completeRequest_block [of r 1024 ?c]
    by (simp add: received_fresh)
  also have "?c\<lparr>requestBuffer := Some (block 1024 r), requestBufferLength := 1024,
      state := STATE_CONNECTION_SEND_HEADERS, requestBufferOffset := 0\<rparr> = requestRead fd t r"
    by (simp add: requestRead_def freshConnection_def emptyConnection_def BUFFER_REQUEST_SIZE_def)
  finally show ?thesis
    by (intro turns_step [OF _ _ turns_refl])
      (auto simp: turning_def advanceState_def stateRecv_def freshConnection_def emptyConnection_def)
qed

text \<open>The header of a file that is found and sent as it is.\<close>

definition okHeader :: "env \<Rightarrow> string \<Rightarrow> bool \<Rightarrow> string \<Rightarrow> inode \<Rightarrow> string" where
  "okHeader e v ka mimeType f = headerText e ''OK'' mimeType (modified f)
     (emptyConnection\<lparr>protocolVersion := v, keepAlive := ka, bodyLength := length (content f)\<rparr>)"

definition answered :: "env \<Rightarrow> string \<Rightarrow> inode \<Rightarrow> fs \<Rightarrow> element \<Rightarrow> element" where
  "answered e mimeType f s c =
     (let hs = (case requestHeaders c of None \<Rightarrow> [] | Some hs \<Rightarrow> hs);
          t = okHeader e (protocolVersion c) (wantsKeepAlive hs) mimeType f in
      c\<lparr>responseStatusCode := 200, bodyFd := nextFd s, bodyLength := length (content f), bodyOffset := 0,
        keepAlive := wantsKeepAlive hs, responseBufferHeadersOffset := 0,
        responseBufferHeadersLength := length t, responseBufferHeaders := Some (t @ [NUL])\<rparr>)"

lemma makeResponse_found:
  assumes "absolutePath c = Some ap" "nodes s ap = File f" "requestHeaders c = Some hs"
    "\<not> wantsGzip hs" "getMimeType e (content f) = Inr mimeType" "contentEncoding c = CONTENT_ENCODING_NONE"
    "length (okHeader e (protocolVersion c) (wantsKeepAlive hs) mimeType f) < 1024"
  shows "makeResponse e c s = Inr (answered e mimeType f s c, snd (openFile f s))"
proof -
  let ?c = "c\<lparr>responseStatusCode := 200, bodyFd := nextFd s, bodyLength := length (content f),
      bodyOffset := 0, keepAlive := wantsKeepAlive hs\<rparr>"
  have t: "headerText e ''OK'' mimeType (modified f) ?c
    = okHeader e (protocolVersion c) (wantsKeepAlive hs) mimeType f"
    using assms(6) by (simp add: headerText_def okHeader_def emptyConnection_def)
  have r: "HTTP_STATUS_REASON 200 = Some ''OK''"
    by (simp add: HTTP_STATUS_REASON_def statusTable_def)
  show ?thesis
    using assms t
    by (simp add: makeResponse_def openBody_def openFile_def r strCopySafe_def answered_def Let_def)
qed

lemma turns_other:
  assumes "turns h (c2, w2) z" "(c2, w2) \<noteq> z" "turning c" "advanceState h c w = advanceState h c2 w2"
  shows "turns h (c, w) z"
proof (rule turns_from [OF assms(1)])
  fix y
  assume "advanceState h c2 w2 = Inr y" "turns h y z"
  then show ?thesis using assms(3,4) by (intro turns_step [of c h w y z]) simp_all
qed (use assms(2) in simp)

text \<open>The turns that send the header and the content of a response that is ready.\<close>

lemma turns_answered:
  assumes "sendingHeaders t (c, fsys w)" "responseBufferHeadersOffset c = 0"
    "bodyFd c \<noteq> -1" "opened (fsys w) (bodyFd c) = Some f" "bodyLength c = length (content f)"
    "bodyOffset c = 0" "content f \<noteq> []" "polite (sends w)"
    "length t + length (content f) \<le> accepts (sends w)"
  shows "\<exists>c' es s'. turns h (c, w) (c', w\<lparr>fsys := s', sends := es, wire := wire w @ t @ content f\<rparr>) \<and>
    state c' = STATE_CONNECTION_DONE \<and> keepAlive c' = keepAlive c \<and>
    clientFd c' = clientFd c \<and> priorityTime c' = priorityTime c \<and>
    nodes s' = nodes (fsys w) \<and> nextFd s' = nextFd (fsys w)"
proof -
  let ?c1 = "c\<lparr>state := STATE_CONNECTION_SEND_BODY, responseBufferHeadersOffset := 0\<rparr>"
  obtain es where es: "polite es" "accepts (sends w) - length t \<le> accepts es"
    "turns h (c, w) (?c1, w\<lparr>sends := es, wire := wire w @ t\<rparr>)"
    using headers.turns_polite [OF assms(1,8)] assms(2,9) by (auto simp: headersSent_def)
  let ?w1 = "w\<lparr>sends := es, wire := wire w @ t\<rparr>"
  have "sendingBody (content f) (?c1, fsys ?w1)" "polite (sends ?w1)"
    "length (content f) - bodyOffset (fst (?c1, fsys ?w1)) \<le> accepts (sends ?w1)"
    using assms es by (auto simp: sendingBody_def)
  from body.turns_polite [OF this] assms(6) obtain es' where
    "turns h (?c1, ?w1) (fst (bodyDone ?c1 (fsys w)), ?w1\<lparr>fsys := snd (bodyDone ?c1 (fsys w)),
      sends := es', wire := wire ?w1 @ content f\<rparr>)"
    by (auto simp: bodySent_def)
  from turns_trans [OF es(3) this]
  have "turns h (c, w) (fst (bodyDone ?c1 (fsys w)), w\<lparr>fsys := snd (bodyDone ?c1 (fsys w)),
      sends := es', wire := wire w @ t @ content f\<rparr>)" by simp
  then show ?thesis by (intro exI conjI) (assumption, simp_all add: bodyDone_def closeFd_def)
qed

lemma turns_response:
  assumes c: "state c = STATE_CONNECTION_SEND_HEADERS" "requestHeaders c = None"
      "responseBufferHeaders c = None"
    and p: "processRequest (htmlDir h) (peer h) c = Inr (True, d)"
    and d: "protocolVersion d \<in> {''HTTP/1.0'', ''HTTP/1.1''}" "path d \<noteq> Some ''/hello''"
      "absolutePath d = Some ap" "requestHeaders d = Some hs" "\<not> wantsGzip hs"
      "contentEncoding d = CONTENT_ENCODING_NONE" "responseBufferHeaders d = None"
    and f: "nodes (fsys w) ap = File f" "content f \<noteq> []" "0 \<le> nextFd (fsys w)"
      "getMimeType (env.truncate h) (content f) = Inr mimeType"
    and t: "t = okHeader (env.truncate h) (protocolVersion d) (wantsKeepAlive hs) mimeType f"
      "t \<noteq> []" "length t < 1024"
    and s: "polite (sends w)" "length t + length (content f) \<le> accepts (sends w)"
  shows "\<exists>c' es s'. turns h (c, w) (c', w\<lparr>fsys := s', sends := es, wire := wire w @ t @ content f\<rparr>) \<and>
    state c' = STATE_CONNECTION_DONE \<and> keepAlive c' = wantsKeepAlive hs \<and>
    clientFd c' = clientFd d \<and> priorityTime c' = priorityTime d \<and>
    nodes s' = nodes (fsys w) \<and> nextFd s' = nextFd (fsys w) + 1"
proof -
  define e where "e = env.truncate h"
  define c2 where "c2 = answered e mimeType f (fsys w) d"
  define w2 where "w2 = w\<lparr>fsys := snd (openFile f (fsys w))\<rparr>"
  have sd: "state d = STATE_CONNECTION_SEND_HEADERS" using state_processRequest [OF p] c by simp
  have m: "makeResponse e d (fsys w) = Inr (c2, fsys w2)"
    using makeResponse_found [OF d(3) f(1) d(4,5) _ d(6)] f(4) t by (simp add: e_def c2_def w2_def)
  have c2: "state c2 = STATE_CONNECTION_SEND_HEADERS" "requestHeaders c2 = Some hs"
    "responseBufferHeaders c2 = Some (t @ [NUL])" "responseBufferHeadersLength c2 = length t"
    "responseBufferHeadersOffset c2 = 0" "bodyFd c2 = nextFd (fsys w)" "bodyOffset c2 = 0"
    "bodyLength c2 = length (content f)" "keepAlive c2 = wantsKeepAlive hs"
    "clientFd c2 = clientFd d" "priorityTime c2 = priorityTime d"
    using sd d(4) t(1) by (simp_all add: c2_def answered_def Let_def e_def)
  have "stateSendHeaders h c w = respondHeaders h d w"
    using c(2) p d(1,2) by (auto simp: stateSendHeaders_def)
  also have "\<dots> = respondHeaders h c2 w2"
    using m d(7) c2(3) by (simp add: respondHeaders_def e_def w2_def)
  also have "\<dots> = advanceState h c2 w2"
    using c2 by (simp add: advanceState_def stateSendHeaders_def)
  finally have adv: "advanceState h c w = advanceState h c2 w2"
    using c(1) by (simp add: advanceState_def)
  have "sendingHeaders t (c2, fsys w2)" using c2 t(2) by (simp add: sendingHeaders_def)
  moreover have "opened (fsys w2) (bodyFd c2) = Some f" "bodyFd c2 \<noteq> -1"
    using c2 f(3) by (simp_all add: w2_def openFile_def)
  moreover have "polite (sends w2)" "length t + length (content f) \<le> accepts (sends w2)"
    using s by (simp_all add: w2_def)
  ultimately obtain c3 es s' where tr: "turns h (c2, w2)
      (c3, w2\<lparr>fsys := s', sends := es, wire := wire w2 @ t @ content f\<rparr>)"
    and c3: "state c3 = STATE_CONNECTION_DONE" "keepAlive c3 = keepAlive c2"
      "clientFd c3 = clientFd c2" "priorityTime c3 = priorityTime c2"
      "nodes s' = nodes (fsys w)" "nextFd s' = nextFd (fsys w) + 1"
    using turns_answered [of t c2 w2 f h] c2 f(2) by (auto simp: w2_def openFile_def)
  have "c2 \<noteq> c3" using c2(1) c3(1) by auto
  then have "turns h (c, w) (c3, w2\<lparr>fsys := s', sends := es, wire := wire w2 @ t @ content f\<rparr>)"
    using c(1) by (intro turns_other [OF tr _ _ adv]) (auto simp: turning_def)
  moreover have "w2\<lparr>fsys := s', sends := es, wire := wire w2 @ t @ content f\<rparr>
    = w\<lparr>fsys := s', sends := es, wire := wire w @ t @ content f\<rparr>" by (simp add: w2_def)
  ultimately show ?thesis using c2 c3 by (intro exI [of _ c3] exI [of _ es] exI [of _ s']) simp
qed

section \<open>The end of a response\<close>

lemma connStep_end:
  assumes "pos < length (connections (queue w))" "connections (queue w) ! pos = c"
    "state c = STATE_CONNECTION_DONE \<and> keepAlive c \<or> state c = STATE_CONNECTION_DONE_FOR_CLOSE"
  shows "connStep h fd pos w = res_bind (if state c = STATE_CONNECTION_DONE then rearm h fd w
    else dropClient h fd w) (\<lambda>w'. Inr (False, w'))"
  using assms by (auto simp: connStep_def getConn_def)

lemma rearm_ok:
  assumes "wf_queue (queue w)" "index_ok (queue w)" "connOf (queue w) fd = Some c" "valid_fd fd"
    "priorityTime c \<le> now h" "\<not> modFails h"
  shows "\<exists>q. rearm h fd w = Inr (w\<lparr>queue := q, freed := freed w @ freeConnection c,
      rearmed := rearmed w @ [fd]\<rparr>) \<and> wf_queue q \<and> index_ok q \<and>
    connOf q = (connOf (queue w))(fd \<mapsto> freshConnection fd (now h) (mem h))"
  using updateQueue_map [OF assms(1-3,5), of "mem h"] existsConnection_correct [OF assms(1,4)] assms(3,6)
  by (auto simp: rearm_def)

lemma dropClient_ok:
  assumes "wf_queue (queue w)" "index_ok (queue w)" "connOf (queue w) fd = Some c" "valid_fd fd"
    "delClient h fd \<noteq> CtlError"
  shows "\<exists>q. dropClient h fd w = Inr (w\<lparr>queue := q, freed := freed w @ freeConnection c,
      closedFds := closedFds w @ [fd]\<rparr>) \<and> wf_queue q \<and> index_ok q \<and>
    connOf q = (connOf (queue w))(fd := None)"
  using dequeueByFd_map [OF assms(1-3)] existsConnection_correct [OF assms(1,4)] assms(3,5)
  by (auto simp: dropClient_def closeEpollClient_def)

text \<open>What is left of a turn when the response is done.\<close>

definition finished :: "host \<Rightarrow> bool \<Rightarrow> int \<Rightarrow> worker \<Rightarrow> socket \<Rightarrow> worker \<Rightarrow> bool" where
  "finished h ka fd w s w' \<longleftrightarrow> wf_queue (queue w') \<and> index_ok (queue w') \<and> socket w' = s \<and>
     connOf (queue w') = (connOf (queue w))(fd := (if ka then Some (freshConnection fd (now h) (mem h)) else None)) \<and>
     rearmed w' = rearmed w @ (if ka then [fd] else []) \<and>
     closedFds w' = closedFds w @ (if ka then [] else [fd])"

lemma workerAt_queue:
  assumes "wf_queue (queue w)" "index_ok (queue w)" "pos < currentSize (queue w)"
    "connections (queue w) ! pos = c" "clientFd c = fd" "clientFd d = fd"
  shows "wf_queue (queue (workerAt pos w (d, s)))" "index_ok (queue (workerAt pos w (d, s)))"
    "connOf (queue (workerAt pos w (d, s))) = (connOf (queue w))(fd \<mapsto> d)"
proof -
  note r = replace_ok [OF assms(1-3), of d, unfolded assms(4)]
  have c: "connOf (queue w) fd = Some c"
    using nth_active [OF assms(1,3)] assms(4,5) by (simp add: connOf_Some_iff [OF assms(1,2)])
  show "wf_queue (queue (workerAt pos w (d, s)))" "index_ok (queue (workerAt pos w (d, s)))"
    using r assms(5,6) by (simp_all add: workerAt_def)
  show "connOf (queue (workerAt pos w (d, s))) = (connOf (queue w))(fd \<mapsto> d)"
    using connOf_replaced [OF assms(1,2) r(1,2) c assms(6) r(3)] assms(5,6)
    by (simp add: workerAt_def)
qed

lemma serve_done:
  assumes q: "wf_queue (queue w)" "index_ok (queue w)" "pos < currentSize (queue w)"
      "connections (queue w) ! pos = c" "clientFd c = fd" "valid_fd fd"
    and d: "state d = STATE_CONNECTION_DONE" "clientFd d = fd" "priorityTime d \<le> now h"
    and os: "\<not> modFails h" "delClient h fd \<noteq> CtlError"
  shows "\<exists>w'. serve h fd pos (workerAt pos w (d, s)) = Some (Inr w') \<and> finished h (keepAlive d) fd w s w'"
proof -
  have len: "pos < length (connections (queue w))" using q(3) wf_queueD [OF q(1)] by simp
  have at: "connections (queue (workerAt pos w (x, s))) ! pos = x"
    "pos < length (connections (queue (workerAt pos w (x, s))))" for x
    using len by (simp_all add: workerAt_def)
  show ?thesis
  proof (cases "keepAlive d")
    case True
    note wq = workerAt_queue [OF q(1-5) d(2), of s]
    obtain w' where "rearm h fd (workerAt pos w (d, s)) = Inr w'" "finished h True fd w s w'"
      using rearm_ok [OF wq(1,2) _ q(6) d(3) os(1)] wq(3)
      by (auto simp: finished_def workerAt_def)
    then show ?thesis
      using connStep_end [OF at(2) at(1), of d h fd] d(1) True by (subst serve.simps) auto
  next
    case False
    define e where "e = d\<lparr>state := STATE_CONNECTION_DONE_FOR_CLOSE\<rparr>"
    have "turns h (d, s) (e, s)"
      using d(1) False by (intro turns_step [OF _ _ turns_refl])
        (auto simp: turning_def advanceState_def e_def)
    then have "serve h fd pos (workerAt pos w (d, s)) = serve h fd pos (workerAt pos w (e, s))"
      using len by (rule serve_turns)
    moreover have e: "clientFd e = fd" using d(2) by (simp add: e_def)
    note wq = workerAt_queue [OF q(1-5) e, of s]
    obtain w' where "dropClient h fd (workerAt pos w (e, s)) = Inr w'" "finished h False fd w s w'"
      using dropClient_ok [OF wq(1,2) _ q(6) os(2)] wq(3)
      by (auto simp: finished_def workerAt_def)
    then have "serve h fd pos (workerAt pos w (e, s)) = Some (Inr w')"
      using connStep_end [OF at(2) at(1), of e h fd] by (subst serve.simps) (auto simp: e_def)
    ultimately show ?thesis using \<open>finished h False fd w s w'\<close> False by auto
  qed
qed

section \<open>One request\<close>

text \<open>The turns of a new connection, from its first byte to the last of the response.\<close>

lemma turns_request:
  assumes request: "well_formed m p v hs body" "v \<in> {''HTTP/1.0'', ''HTTP/1.1''}" "p \<noteq> ''/hello''"
      "\<not> wantsGzip (rev (map parsed hs))" "ka = wantsKeepAlive (rev (map parsed hs))"
    and arrival: "recvs w = es @ Arrive b # later" "b \<noteq> []"
      "filter (\<lambda>e. e \<noteq> RecvEINTR) es = map Arrive cs" "\<forall>x \<in> set cs. x \<noteq> []"
      "concat cs @ b = requestText m p v hs body" "length (requestText m p v hs body) < 1024"
      "head_at k (requestText m p v hs body)" "length (concat cs) < k + 4"
    and disk: "nodes (fsys w) (htmlDir h @ realPath p) = File f" "content f \<noteq> []"
      "0 \<le> nextFd (fsys w)" "getMimeType (env.truncate h) (content f) = Inr mimeType"
      "t = okHeader (env.truncate h) v ka mimeType f" "length t < 1024"
    and client: "peer h = Some addr" "polite (sends w)"
      "length t + length (content f) \<le> accepts (sends w)"
  shows "\<exists>c se s'. turns h (freshConnection fd time0 (replicate 1024 NUL), w)
      (c, w\<lparr>recvs := later, fsys := s', sends := se, wire := wire w @ t @ content f\<rparr>) \<and>
    state c = STATE_CONNECTION_DONE \<and> keepAlive c = ka \<and> clientFd c = fd \<and> priorityTime c = time0 \<and>
    nodes s' = nodes (fsys w) \<and> nextFd s' = nextFd (fsys w) + 1"
proof -
  define r where "r = requestText m p v hs body"
  let ?c = "freshConnection fd time0 (replicate 1024 NUL)"
  have r: "NUL \<notin> set r" "length r < 1024" "r = concat cs @ b" "head_at k r"
    using requestText_NUL [OF request(1)] arrival by (simp_all add: r_def)
  define c1 where "c1 = requestRead fd time0 r"
  define s1 where "s1 = w\<lparr>recvs := later\<rparr>"
  define d where "d = requested (htmlDir h) addr m p v hs body c1"
  have t1: "turns h (?c, w) (c1, s1)"
    unfolding c1_def s1_def
    using turns_recv [OF arrival(3,4,2) r(3,1,4) arrival(8) r(2) arrival(1)] .
  have fields: "state c1 = STATE_CONNECTION_SEND_HEADERS" "requestHeaders c1 = None"
    "responseBufferHeaders c1 = None" "clientFd c1 = fd" "priorityTime c1 = time0"
    "contentEncoding c1 = CONTENT_ENCODING_NONE"
    "requestBuffer c1 = Some (r @ NUL # replicate (1023 - length r) NUL)"
  proof -
    show "requestBuffer c1 = Some (r @ NUL # replicate (1023 - length r) NUL)"
      using r(2) by (simp add: c1_def requestRead_def block_def replicate_Suc [symmetric] Suc_diff_le
          del: replicate_Suc)
  qed (simp_all add: c1_def requestRead_def freshConnection_def emptyConnection_def)
  have p: "processRequest (htmlDir h) (peer h) c1 = Inr (True, d)"
    using processRequest_text [OF request(1) fields(2)] fields(7) client(1) by (simp add: d_def r_def)
  have df: "protocolVersion d \<in> {''HTTP/1.0'', ''HTTP/1.1''}" "path d \<noteq> Some ''/hello''"
    "absolutePath d = Some (htmlDir h @ realPath p)" "requestHeaders d = Some (rev (map parsed hs))"
    "contentEncoding d = CONTENT_ENCODING_NONE" "responseBufferHeaders d = None"
    "clientFd d = fd" "priorityTime d = time0" "protocolVersion d = v"
    using request(2,3) fields by (auto simp: d_def requested_def)
  have s1: "nodes (fsys s1) (htmlDir h @ realPath p) = File f" "0 \<le> nextFd (fsys s1)"
    "polite (sends s1)" "length t + length (content f) \<le> accepts (sends s1)"
    using disk client by (simp_all add: s1_def)
  have t: "t = okHeader (env.truncate h) (protocolVersion d) (wantsKeepAlive (rev (map parsed hs))) mimeType f"
    "t \<noteq> []" using disk(5) request(5) df(9) by (simp_all add: okHeader_def headerText_def)
  obtain c3 se s' where t2: "turns h (c1, s1)
      (c3, s1\<lparr>fsys := s', sends := se, wire := wire s1 @ t @ content f\<rparr>)"
    and c3: "state c3 = STATE_CONNECTION_DONE" "keepAlive c3 = ka" "clientFd c3 = fd"
      "priorityTime c3 = time0" "nodes s' = nodes (fsys s1)" "nextFd s' = nextFd (fsys s1) + 1"
    using turns_response [OF fields(1-3) p df(1-4) request(4) df(5,6) s1(1) disk(2) s1(2) disk(4)
        t disk(6) s1(3,4)] df request(5) by auto
  have "s1\<lparr>fsys := s', sends := se, wire := wire s1 @ t @ content f\<rparr>
      = w\<lparr>recvs := later, fsys := s', sends := se, wire := wire w @ t @ content f\<rparr>"
    by (simp add: s1_def)
  with turns_trans [OF t1 t2] c3 show ?thesis by (auto simp: s1_def)
qed

section \<open>Properties\<close>


text \<open>A request, a file and a client to run the server on.\<close>

definition demoHost :: host where
  "demoHost = \<lparr>htmlDir = ''/srv'', cwd = ''/'', magic = (\<lambda>_. ''text/html''), gzip = (\<lambda>x. x),
     date = ''now'', mkdirFails = (\<lambda>_. False), peer = Some ''10.0.0.1'', now = 7,
     mem = replicate 1024 NUL, delClient = (\<lambda>_. CtlOk), modFails = False\<rparr>"

definition demoFile :: inode where
  "demoFile = \<lparr>content = ''<html>'', atime = 1, modified = ''then''\<rparr>"

definition demoHeaders :: "(string \<times> string) list" where
  "demoHeaders = [(''Host'', ''x''), (''Connection'', ''keep-alive'')]"

definition demoRequest :: string where
  "demoRequest = requestText METHOD_GET ''/'' ''HTTP/1.1'' demoHeaders []"

definition demoWorker :: worker where
  "demoWorker = \<lparr>queue = createQueueConnections,
     socket = \<lparr>recvs = [RecvEINTR, Arrive (take 9 demoRequest), RecvEINTR] @ Arrive (drop 9 demoRequest) # [RecvEAGAIN],
       sends = SendEAGAIN # SendEINTR # replicate 400 (Accept 20), wire = [],
       fsys = \<lparr>nodes = (\<lambda>p. if p = ''/srv/index.html'' then File demoFile else Absent), dirs = [],
         opened = (\<lambda>_. None), nextFd = 9\<rparr>\<rparr>,
     rearmed = [], closedFds = [], freed = []\<rparr>"

definition demoText :: string where
  "demoText = okHeader (env.truncate demoHost) ''HTTP/1.1'' True ''text/html; charset=UTF-8'' demoFile"

lemma served_demo_facts:
  "well_formed METHOD_GET ''/'' ''HTTP/1.1'' demoHeaders []"
  "\<not> wantsGzip (rev (map parsed demoHeaders))"
  "wantsKeepAlive (rev (map parsed demoHeaders))"
  "length demoRequest < 1024" "head_at 47 demoRequest" "length demoText < 300"
  "drop 9 demoRequest \<noteq> []" "take 9 demoRequest \<noteq> []"
  "getMimeType (env.truncate demoHost) (content demoFile) = Inr ''text/html; charset=UTF-8''"
  "realPath ''/'' = ''/index.html''"
  by code_simp+

lemma accepts_replicate [simp]: "accepts (replicate n (Accept k)) = n"
  by (induction n) simp_all

lemma polite_replicate [simp]: "0 < k \<Longrightarrow> polite (replicate n (Accept k))"
  by (induction n) simp_all



text \<open>
  C8: a silent client keeps its thread busy. While the request is incomplete, each
  \<open>EAGAIN\<close> of \<open>recv\<close> is answered by another \<open>recv\<close>: the loop never gives the thread back to
  \<open>epoll_wait\<close>, so it does nothing but poll for as long as the client is silent, and its
  behaviour is that of the loop started when the client speaks again.
\<close>

theorem silent_client_spins:
  assumes "pos < length (connections (queue w))" "connections (queue w) ! pos = c"
    "state c = STATE_CONNECTION_RECV" "requestBuffer c = Some b" "isRequestComplete b = Inr False"
  shows "serve h fd pos (w\<lparr>socket := (socket w)\<lparr>recvs := replicate n RecvEAGAIN @ es\<rparr>\<rparr>)
      = serve h fd pos (w\<lparr>socket := (socket w)\<lparr>recvs := es\<rparr>\<rparr>) \<and>
    serve h fd pos (w\<lparr>socket := (socket w)\<lparr>recvs := replicate n RecvEAGAIN\<rparr>\<rparr>) = Some (Inl Spinning)"
proof -
  have q: "(connections (queue w))[pos := c] = connections (queue w)"
    using list_update_id [of "connections (queue w)" pos] assms(2) by simp
  have one: "serve h fd pos (w\<lparr>socket := (socket w)\<lparr>recvs := RecvEAGAIN # rs\<rparr>\<rparr>)
      = serve h fd pos (w\<lparr>socket := (socket w)\<lparr>recvs := rs\<rparr>\<rparr>)" for rs
  proof -
    have "connStep h fd pos (w\<lparr>socket := (socket w)\<lparr>recvs := RecvEAGAIN # rs\<rparr>\<rparr>)
      = Inr (True, w\<lparr>socket := (socket w)\<lparr>recvs := rs\<rparr>\<rparr>)"
      using assms q by (cases w, cases "queue w")
        (simp add: connStep_def getConn_def setConn_def advanceState_def stateRecv_def)
    then show ?thesis by (subst serve.simps) simp
  qed
  have all: "serve h fd pos (w\<lparr>socket := (socket w)\<lparr>recvs := replicate n RecvEAGAIN @ rs\<rparr>\<rparr>)
      = serve h fd pos (w\<lparr>socket := (socket w)\<lparr>recvs := rs\<rparr>\<rparr>)" for rs
    by (induction n) (simp_all add: one)
  have "connStep h fd pos (w\<lparr>socket := (socket w)\<lparr>recvs := []\<rparr>\<rparr>) = Inl Spinning"
    using assms(1-3) by (simp add: connStep_def getConn_def advanceState_def stateRecv_def)
  then have "serve h fd pos (w\<lparr>socket := (socket w)\<lparr>recvs := []\<rparr>\<rparr>) = Some (Inl Spinning)"
    by (subst serve.simps) simp
  then show ?thesis using all [of es] all [of "[]"] by simp
qed

text \<open>
  \<open>sendAll\<close> sends too much after a partial write. If \<open>send\<close> first takes \<open>k\<close> of \<open>n\<close> bytes
  and all \<open>n\<close> afterwards, each call starts at the beginning again and \<open>leftToWrite\<close> wraps below
  zero: after \<open>m\<close> more calls the client has the \<open>k\<close> bytes and \<open>m\<close> copies of the whole buffer,
  and the loop still runs.
\<close>

theorem sendAll_resends:
  assumes "n = length buffer" "0 < k" "k < n" "0 < m" "n * m < 2 ^ 64"
  shows "sendAll (Accept k # replicate m (Accept n)) buffer
    = (Looping (- word_of_nat (n * (m - 1) + k)), take k buffer @ concat (replicate m buffer), [])"
proof -
  have nz: "(word_of_nat a :: 64 word) \<noteq> 0" if "0 < a" "a < 2 ^ 64" for a
    using that by (simp add: word_of_nat_eq_0_iff) (use nat_dvd_not_less in auto)
  have loop: "sendAll_loop (replicate j (Accept n)) buffer (- word_of_nat a)
      = (Looping (- word_of_nat (a + n * j)), concat (replicate j buffer), [])"
    if "0 < a" "a + n * j < 2 ^ 64" for a j
    using that
  proof (induction j arbitrary: a)
    case 0
    then show ?case using nz [of a] by simp
  next
    case (Suc j)
    have IH: "sendAll_loop (replicate j (Accept n)) buffer (- word_of_nat (a + n))
      = (Looping (- word_of_nat (a + n + n * j)), concat (replicate j buffer), [])"
      using Suc.IH [of "a + n"] Suc.prems by (simp del: of_nat_add add: add.assoc)
    have "(- word_of_nat a :: 64 word) - word_of_nat n = - word_of_nat (a + n)" by simp
    then show ?case
      using IH Suc.prems nz [of a] assms(1) by (simp del: of_nat_add add: add.assoc)
  qed
  have n64: "n < 2 ^ 64" using assms(4,5) by (cases m) auto
  obtain j where m: "m = Suc j" using assms(4) by (cases m) auto
  have bound: "k + n * j < 2 ^ 64" using assms(3,5) m by simp
  have left: "word_of_nat n - word_of_nat k - word_of_nat n = (- word_of_nat k :: 64 word)" by simp
  have "(word_of_nat n :: 64 word) - word_of_nat k = word_of_nat (n - k)"
    using assms(3) by (simp add: of_nat_diff)
  then have ne: "(word_of_nat n :: 64 word) - word_of_nat k \<noteq> 0"
    using nz [of "n - k"] assms(3) n64 by simp
  have "sendAll_loop (replicate m (Accept n)) buffer (word_of_nat n - word_of_nat k)
    = (Looping (- word_of_nat (k + n * j)), concat (replicate m buffer), [])"
    using ne left loop [OF assms(2) bound] assms(1) by (simp add: m)
  moreover have "0 < n" using assms(2,3) by simp
  then have "(word_of_nat n :: 64 word) \<noteq> 0" using n64 by (rule nz)
  moreover have "length (take k buffer) = k" using assms(1,3) by simp
  moreover have "n * (m - 1) + k = k + n * j" by (simp add: m)
  ultimately show ?thesis
    by (simp only: sendAll_def assms(1) [symmetric] sendAll_loop.simps if_False
        send_event.case Let_def prod.case)
qed

theorem sendAll_resends_witness:
  "sendAll (Accept 2 # replicate 3 (Accept 5)) ''hello''
    = (Looping (- word_of_nat (5 * (3 - 1) + 2)), take 2 ''hello'' @ concat (replicate 3 ''hello''), [])"
  by (rule sendAll_resends) simp_all

definition silentWorker :: worker where
  "silentWorker = demoWorker\<lparr>queue := createQueueConnections\<lparr>connections :=
     freshConnection 5 7 (''GET'' @ [NUL]) # replicate 1023 emptyConnection\<rparr>\<rparr>"

theorem silent_client_spins_witness:
  "serve demoHost 5 0 (silentWorker\<lparr>socket := (socket silentWorker)\<lparr>recvs := replicate 9 RecvEAGAIN @ []\<rparr>\<rparr>)
     = serve demoHost 5 0 (silentWorker\<lparr>socket := (socket silentWorker)\<lparr>recvs := []\<rparr>\<rparr>) \<and>
   serve demoHost 5 0 (silentWorker\<lparr>socket := (socket silentWorker)\<lparr>recvs := replicate 9 RecvEAGAIN\<rparr>\<rparr>)
     = Some (Inl Spinning)"
proof (rule silent_client_spins [where c = "freshConnection 5 7 (''GET'' @ [NUL])"])
  show "isRequestComplete (''GET'' @ [NUL]) = Inr False" by code_simp
qed (simp_all add: silentWorker_def freshConnection_def emptyConnection_def)

section \<open>The compressed copies\<close>

lemma mkdirs_dirs:
  "mkdirs e ds s = (True, s') \<Longrightarrow> set ds \<union> set (dirs s) \<subseteq> set (dirs s')"
  by (induction ds arbitrary: s) (fastforce split: if_splits)+

lemma makeDirectory_dirs:
  assumes "makeDirectory e p s = Inr (True, s')"
  shows "noSlash p \<in> set (dirs s')"
  using assms by (auto simp: makeDirectory_def strCopySafe_def Let_def split: if_splits
      dest!: mkdirs_dirs)

lemma gzipPath_differs:
  assumes "fileName ap = Some name"
  shows "gzipPath cache at name \<noteq> ap"
proof
  assume eq: "gzipPath cache at name = ap"
  let ?P = "\<lambda>c. c \<noteq> CHR ''/''"
  have name: "name = rev (takeWhile ?P (rev ap))"
    using assms by (auto simp: fileName_def split: if_splits)
  then have "\<forall>c \<in> set (rev name). ?P c" by (auto dest: set_takeWhileD)
  then have "takeWhile ?P (''zg.'' @ rev name @ ''-'' @ rev (cache @ signed_decimal at))
      = ''zg.'' @ rev name @ takeWhile ?P (''-'' @ rev (cache @ signed_decimal at))"
    by (simp add: takeWhile_append)
  moreover have "rev ap = ''zg.'' @ rev name @ ''-'' @ rev (cache @ signed_decimal at)"
    by (simp add: eq [symmetric] gzipPath_def)
  ultimately have "length (rev (takeWhile ?P (rev ap))) > length name" by simp
  then show False using name by simp
qed

definition cachePath :: "env \<Rightarrow> string \<Rightarrow> string \<Rightarrow> string" where
  "cachePath e ap name = (let relative = drop (length (htmlDir e)) ap in
     cwd e @ ''/cache/gzip'' @ take (length relative - length name) relative)"

text \<open>The copy that a compressed response leaves and serves.\<close>

lemma makeContentEncoding_copy:
  assumes "makeContentEncoding e f c s = Inr (c1, s1)" "absolutePath c = Some ap"
  obtains name copy where "fileName ap = Some name" "length ap > length (drop (length (htmlDir e)) ap)"
    "length name \<le> length (drop (length (htmlDir e)) ap)"
    "noSlash (cachePath e ap name) \<in> set (dirs s1)"
    "nodes s1 (gzipPath (cachePath e ap name) (atime f) name) = File copy"
    "opened s1 (bodyFd c1) = Some copy" "bodyLength c1 = length (content copy)"
  using assms
  by (auto simp: makeContentEncoding_def strCopySafe_def cachePath_def closeFd_def openFile_def Let_def
      split: option.splits if_splits node.splits dest!: makeDirectory_dirs)

text \<open>
  The compressed copy of a file is found by its access time, not by its contents. After one
  compressed response, a file whose contents changed while its access time did not (a volume
  mounted with \<open>noatime\<close>) is answered with the copy of the old contents.
\<close>

theorem gzip_cache_serves_stale:
  assumes "makeContentEncoding e f c s = Inr (c1, s1)" "absolutePath c = Some ap"
    "atime g = atime f" "\<forall>x. x \<noteq> ap \<longrightarrow> nodes s2 x = nodes s1 x" "dirs s2 = dirs s1"
    "absolutePath d = Some ap"
  shows "\<exists>d1 s3. makeContentEncoding e g d s2 = Inr (d1, s3) \<and>
    opened s3 (bodyFd d1) = opened s1 (bodyFd c1) \<and> bodyLength d1 = bodyLength c1"
proof -
  obtain name copy where n: "fileName ap = Some name" "length ap > length (drop (length (htmlDir e)) ap)"
    "length name \<le> length (drop (length (htmlDir e)) ap)"
    "noSlash (cachePath e ap name) \<in> set (dirs s1)"
    "nodes s1 (gzipPath (cachePath e ap name) (atime f) name) = File copy"
    "opened s1 (bodyFd c1) = Some copy" "bodyLength c1 = length (content copy)"
    by (rule makeContentEncoding_copy [OF assms(1,2)])
  have "nodes s2 (gzipPath (cachePath e ap name) (atime g) name) = File copy"
    using assms(3,4) gzipPath_differs [OF n(1)] n(5) by simp
  moreover have "makeDirectory e (cachePath e ap name) s2 = Inr (True, s2)"
    using n(4) assms(5) by (simp add: makeDirectory_def)
  ultimately show ?thesis
    using n assms(6) by (simp add: makeContentEncoding_def strCopySafe_def cachePath_def closeFd_def
        openFile_def Let_def)
qed

definition zipHost :: env where
  "zipHost = env.truncate (demoHost\<lparr>gzip := (\<lambda>x. ''gz '' @ x)\<rparr>)"

definition zipConnection :: "int \<Rightarrow> element" where
  "zipConnection fd = emptyConnection\<lparr>absolutePath := Some ''/srv/a.html'', bodyFd := fd\<rparr>"

definition zipDisk :: "inode \<Rightarrow> fs" where
  "zipDisk f = \<lparr>nodes = (\<lambda>p. if p = ''/srv/a.html'' then File f else Absent), dirs = [],
     opened = (\<lambda>_. None)(3 := Some f), nextFd = 4\<rparr>"

definition afterFirst :: "element \<times> fs" where
  "afterFirst = (case makeContentEncoding zipHost demoFile (zipConnection 3) (zipDisk demoFile) of
     Inr x \<Rightarrow> x | Inl _ \<Rightarrow> (emptyConnection, zipDisk demoFile))"

theorem gzip_cache_serves_stale_witness:
  "\<exists>d1 s3. makeContentEncoding zipHost (demoFile\<lparr>content := ''new''\<rparr>) (zipConnection 9)
      ((snd afterFirst)\<lparr>nodes := (nodes (snd afterFirst))(''/srv/a.html'' := File (demoFile\<lparr>content := ''new''\<rparr>)),
        opened := (opened (snd afterFirst))(9 := Some (demoFile\<lparr>content := ''new''\<rparr>))\<rparr>) = Inr (d1, s3) \<and>
    opened s3 (bodyFd d1) = opened (snd afterFirst) (bodyFd (fst afterFirst)) \<and>
    bodyLength d1 = bodyLength (fst afterFirst)"
proof (rule gzip_cache_serves_stale)
  have "(case makeContentEncoding zipHost demoFile (zipConnection 3) (zipDisk demoFile) of
      Inr _ \<Rightarrow> True | Inl _ \<Rightarrow> False)" by code_simp
  then show "makeContentEncoding zipHost demoFile (zipConnection 3) (zipDisk demoFile)
      = Inr (fst afterFirst, snd afterFirst)"
    by (auto simp: afterFirst_def split: sum.splits)
qed (simp_all add: zipConnection_def emptyConnection_def)

end
