(* ===== verification/Event_Loop_Correct.thy ===== *)
theory Event_Loop_Correct
  imports Event_Loop Connection_Properties
begin

text \<open>
  What one step of a thread does to its queue and to the epoll set: a turn of the client's loop
  keeps the queue's index and the identity of the connection it works on, and re-arms or closes
  its own descriptor at most once; the head of the loop closes only descriptors of its own queue.
\<close>

section \<open>A turn works on one connection\<close>

definition same_client :: "element \<Rightarrow> element \<Rightarrow> bool" where
  "same_client c c' \<longleftrightarrow> clientFd c' = clientFd c \<and> priorityTime c' = priorityTime c"

lemma same_client_refl [simp]: "same_client c c"
  by (simp add: same_client_def)

lemma client_completeRequest: "completeRequest c b = Inr c' \<Longrightarrow> same_client c c'"
  by (auto simp: completeRequest_def same_client_def)

lemma client_recvRequest: "recvRequest es c = Inr (c', es') \<Longrightarrow> same_client c c'"
proof (induction es c rule: recvRequest.induct)
  case (3 es c)
  then show ?case by (auto split: option.splits if_splits dest: client_completeRequest)
next
  case (5 bs es c)
  from 5(2) show ?case
    by (auto simp: Let_def same_client_def split: option.splits if_splits
        dest!: client_completeRequest 5(1))
qed (auto simp: same_client_def)

lemma client_sendResponseHeaders:
  "sendResponseHeaders es c = Inr (c', sent, es') \<Longrightarrow> same_client c c'"
proof (induction es arbitrary: c sent)
  case (Cons e es)
  then show ?case
    by (cases e) (fastforce simp: Let_def same_client_def split: option.splits if_splits)+
qed simp

lemma client_sendfile: "sendfile_loop es c s = Inr (c', s', sent, es') \<Longrightarrow> same_client c c'"
proof (induction es arbitrary: c sent)
  case (Cons e es)
  then show ?case
    by (cases e) (fastforce simp: Let_def bodyDone_def same_client_def split: option.splits if_splits)+
qed simp

lemma client_processRequest: "processRequest dir p c = Inr (v, c') \<Longrightarrow> same_client c c'"
  by (auto simp: processRequest_def parseBody_def Let_def same_client_def split: option.splits if_splits)

lemma client_makeResponse: "makeResponse e c s = Inr (c', s') \<Longrightarrow> same_client c c'"
  by (auto simp: makeResponse_def makeContentEncoding_def Let_def same_client_def
      split: option.splits if_splits node.splits prod.splits)

lemma client_respondHeaders: "respondHeaders h c w = Inr (c', w') \<Longrightarrow> same_client c c'"
  by (auto simp: respondHeaders_def same_client_def split: if_splits
      dest!: client_makeResponse client_sendResponseHeaders)

lemma client_advanceState: "advanceState h c w = Inr (c', w') \<Longrightarrow> same_client c c'"
  by (auto simp: advanceState_def stateRecv_def stateSendHeaders_def stateSendBody_def failWith_def
      sendResponseFile_def split: stateConnection.splits if_splits
      dest!: client_recvRequest client_processRequest client_respondHeaders client_sendfile)
    (auto simp: same_client_def)

text \<open>The thread works on the connection of \<open>fd\<close>, stored at \<open>pos\<close>.\<close>

definition serving_at :: "queue \<Rightarrow> int \<Rightarrow> nat \<Rightarrow> bool" where
  "serving_at q fd pos \<longleftrightarrow> valid_fd fd \<and> pos < currentSize q \<and> clientFd (connections q ! pos) = fd"

lemma serving_connOf:
  assumes "indexed q" "serving_at q fd pos"
  shows "connOf q fd = Some (connections q ! pos)"
  using assms connOf_Some_iff [of q fd "connections q ! pos"] nth_active [of q pos]
  by (auto simp: indexed_def serving_at_def)

lemma serving_getConn:
  assumes "indexed q" "serving_at q fd pos"
  shows "getConn q (int pos) = Inr (connections q ! pos)"
    "setConn q (int pos) d = Inr (q\<lparr>connections := (connections q)[pos := d]\<rparr>)"
  using assms wf_queueD [of q] by (auto simp: indexed_def serving_at_def getConn_def setConn_def)

definition before :: "int \<Rightarrow> queue \<Rightarrow> bool" where
  "before t q \<longleftrightarrow> (\<forall>fd t'. timeOf q fd = Some t' \<longrightarrow> t' \<le> t)"

lemma replaced_queue:
  assumes "indexed q" "serving_at q fd pos" "same_client (connections q ! pos) d"
  shows "indexed (q\<lparr>connections := (connections q)[pos := d]\<rparr>)"
    "serving_at (q\<lparr>connections := (connections q)[pos := d]\<rparr>) fd pos"
    "timeOf (q\<lparr>connections := (connections q)[pos := d]\<rparr>) = timeOf q"
proof -
  have q: "wf_queue q" "index_ok q" "pos < currentSize q" "clientFd (connections q ! pos) = fd"
    "clientFd d = fd" "priorityTime d = priorityTime (connections q ! pos)" "valid_fd fd"
    using assms by (simp_all add: indexed_def serving_at_def same_client_def)
  note r = workerAt_queue [of "\<lparr>queue = q, socket = undefined, rearmed = [], closedFds = [], freed = []\<rparr>"
    pos _ fd d undefined, simplified workerAt_def, simplified, OF q(1-3) refl q(4,5)]
  show "indexed (q\<lparr>connections := (connections q)[pos := d]\<rparr>)" using r by (simp add: indexed_def)
  show "serving_at (q\<lparr>connections := (connections q)[pos := d]\<rparr>) fd pos"
    using q wf_queueD [OF q(1)] by (simp add: serving_at_def)
  show "timeOf (q\<lparr>connections := (connections q)[pos := d]\<rparr>) = timeOf q"
    using r(3) q(6) serving_connOf [OF assms(1,2)] by (auto simp: timeOf_def fun_eq_iff)
qed

text \<open>The three ways a turn ends well.\<close>

definition goesOn :: "int \<Rightarrow> nat \<Rightarrow> worker \<Rightarrow> worker \<Rightarrow> bool" where
  "goesOn fd pos w w' \<longleftrightarrow> serving_at (queue w') fd pos \<and> timeOf (queue w') = timeOf (queue w) \<and>
     rearmed w' = rearmed w \<and> closedFds w' = closedFds w"

definition isRearmed :: "host \<Rightarrow> int \<Rightarrow> worker \<Rightarrow> worker \<Rightarrow> bool" where
  "isRearmed h fd w w' \<longleftrightarrow> timeOf (queue w') = (timeOf (queue w))(fd \<mapsto> now h) \<and>
     socket w' = socket w \<and> rearmed w' = rearmed w @ [fd] \<and> closedFds w' = closedFds w \<and> \<not> modFails h"

definition isDropped :: "int \<Rightarrow> worker \<Rightarrow> worker \<Rightarrow> bool" where
  "isDropped fd w w' \<longleftrightarrow> timeOf (queue w') = (timeOf (queue w))(fd := None) \<and>
     socket w' = socket w \<and> rearmed w' = rearmed w \<and> closedFds w' = closedFds w @ [fd]"

lemma rearm_serving:
  assumes "indexed (queue w)" "serving_at (queue w) fd pos" "before (now h) (queue w)"
  shows "if modFails h then rearm h fd w = Inl (Died ''EPOLL_CTL_MOD failed'')
    else \<exists>w'. rearm h fd w = Inr w' \<and> indexed (queue w') \<and> isRearmed h fd w w'"
proof -
  have q: "wf_queue (queue w)" "index_ok (queue w)" "valid_fd fd"
    using assms by (simp_all add: indexed_def serving_at_def)
  note c = serving_connOf [OF assms(1,2)]
  have t: "priorityTime (connections (queue w) ! pos) \<le> now h"
    using assms(3) c by (auto simp: before_def timeOf_def)
  show ?thesis
  proof (cases "modFails h")
    case True
    obtain q' rel where "updateQueueConnection (queue w) fd (now h) (mem h) = Inr (q', rel)"
      using updateQueue_map [OF q(1,2) c t] by blast
    then show ?thesis
      using True existsConnection_correct [OF q(1,3)] c by (simp add: rearm_def)
  next
    case False
    then obtain q' where q': "rearm h fd w = Inr (w\<lparr>queue := q',
        freed := freed w @ freeConnection (connections (queue w) ! pos), rearmed := rearmed w @ [fd]\<rparr>)"
      "wf_queue q'" "index_ok q'"
      "connOf q' = (connOf (queue w))(fd \<mapsto> freshConnection fd (now h) (mem h))"
      using rearm_ok [OF q(1,2) c q(3) t] by blast
    have "timeOf q' = (timeOf (queue w))(fd \<mapsto> now h)"
      using q'(4) by (auto simp: timeOf_def fun_eq_iff)
    then show ?thesis using q' False by (simp add: indexed_def isRearmed_def)
  qed
qed

lemma drop_serving:
  assumes "indexed (queue w)" "serving_at (queue w) fd pos" "delClient h fd \<noteq> CtlError"
  shows "\<exists>w'. dropClient h fd w = Inr w' \<and> indexed (queue w') \<and> isDropped fd w w'"
proof -
  have q: "wf_queue (queue w)" "index_ok (queue w)" "valid_fd fd"
    using assms by (simp_all add: indexed_def serving_at_def)
  obtain q' where q': "dropClient h fd w = Inr (w\<lparr>queue := q',
      freed := freed w @ freeConnection (connections (queue w) ! pos), closedFds := closedFds w @ [fd]\<rparr>)"
    "wf_queue q'" "index_ok q'" "connOf q' = (connOf (queue w))(fd := None)"
    using dropClient_ok [OF q(1,2) serving_connOf [OF assms(1,2)] q(3) assms(3)] by blast
  then show ?thesis
    using timeOf_updates [OF q'(4)] by (simp add: indexed_def isDropped_def)
qed

lemma connStep_serving:
  assumes q: "indexed (queue w)" "serving_at (queue w) fd pos" "before (now h) (queue w)"
    and del: "delClient h fd \<noteq> CtlError"
  shows "case connStep h fd pos w of
      Inr (again, w') \<Rightarrow> indexed (queue w') \<and>
        (if again then goesOn fd pos w w' else isRearmed h fd w w' \<or> isDropped fd w w')
    | Inl e \<Rightarrow> modFails h \<and> e = Died ''EPOLL_CTL_MOD failed'' \<or> (\<exists>c s. advanceState h c s = Inl e)"
proof -
  define c where "c = connections (queue w) ! pos"
  note at = serving_getConn [OF q(1,2), folded c_def]
  consider "state c = STATE_CONNECTION_DONE \<and> keepAlive c"
    | "state c = STATE_CONNECTION_DONE_FOR_CLOSE"
    | "\<not> (state c = STATE_CONNECTION_DONE \<and> keepAlive c)" "state c \<noteq> STATE_CONNECTION_DONE_FOR_CLOSE"
    by blast
  then show ?thesis
  proof cases
    case 1
    then show ?thesis
      using rearm_serving [OF q] by (auto simp: connStep_def at split: if_splits)
  next
    case 2
    then show ?thesis
      using drop_serving [OF q(1,2) del] by (auto simp: connStep_def at)
  next
    case 3
    show ?thesis
    proof (cases "advanceState h c (socket w)")
      case (Inl e)
      then show ?thesis using 3 by (auto simp: connStep_def at)
    next
      case (Inr z)
      obtain d s' where z: "z = (d, s')" by (cases z)
      have "same_client c d" using client_advanceState Inr z by blast
      note r = replaced_queue [OF q(1,2) this [unfolded c_def]]
      show ?thesis using 3 Inr z r by (auto simp: connStep_def at goesOn_def)
    qed
  qed
qed

section \<open>The steps of a thread\<close>

definition thread_ok :: "int \<Rightarrow> thread \<Rightarrow> bool" where
  "thread_ok t0 t \<longleftrightarrow> indexed (tqueue t) \<and> before t0 (tqueue t) \<and>
     (case control t of Serving fd pos evs \<Rightarrow> serving_at (tqueue t) fd pos | _ \<Rightarrow> True)"

lemma headStep_ok:
  assumes "indexed (tqueue t)"
  shows "\<exists>q fds. headStep s t = Some (Inr (s\<lparr>interest := closeFds fds (interest s)\<rparr>,
      t\<lparr>tqueue := q, control := AtWait\<rparr>)) \<and> indexed q \<and> timeOf q = timeOf (tqueue t) |` (- set fds) \<and>
    (\<forall>fd \<in> set fds. \<exists>t0. timeOf (tqueue t) fd = Some t0 \<and> KEEP_ALIVE_TIMEOUT \<le> clock s - t0)"
proof -
  obtain q ev where r: "closeExpired (delResult (closedIn (interest s))) (clock s) (tqueue t) = Some (Inr (q, ev))"
    "indexed q" "timeOf q = timeOf (tqueue t) |` (- set (map fst ev))"
    "\<forall>fd \<in> set (map fst ev). \<exists>t0. timeOf (tqueue t) fd = Some t0 \<and> KEEP_ALIVE_TIMEOUT \<le> clock s - t0"
    using conn_index.loop_drains [OF assms, of "closedIn (interest s)" "clock s" "[]"]
    unfolding closeExpired_def append_Nil by blast
  then show ?thesis
    by (intro exI [of _ q] exI [of _ "map fst ev"]) (simp add: headStep_def)
qed

lemma serveStart_ok:
  assumes "indexed (tqueue t)" "before (clock s) (tqueue t)" "valid_fd fd"
  shows "\<exists>q pos. serveStart fd buf evs s t = Inr (s, t\<lparr>tqueue := q, control := Serving fd pos evs\<rparr>) \<and>
    indexed q \<and> serving_at q fd pos \<and>
    timeOf q = (if timeOf (tqueue t) fd = None then (timeOf (tqueue t))(fd \<mapsto> clock s)
                else timeOf (tqueue t)) \<and>
    (timeOf (tqueue t) fd = None \<longrightarrow> connections q ! pos = freshConnection fd (clock s) buf)"
proof -
  let ?q = "tqueue t"
  have q: "wf_queue ?q" "index_ok ?q" using assms(1) by (simp_all add: indexed_def)
  have "times_before (connOf ?q) (clock s)"
    using assms(2) by (auto simp: before_def timeOf_def times_before_def)
  from not_before_map [OF q this] have "not_before ?q (clock s)" by simp
  from getOrCreate_correct [OF q assms(3) this, of buf] obtain q' pos where q':
    "getConnectionOrCreateByFd ?q fd (clock s) buf = Inr (q', pos)" "wf_queue q'" "index_ok q'"
    "pos < currentSize q'" "clientFd (connections q' ! pos) = fd"
    "connOf q' = (if connOf ?q fd = None then (connOf ?q)(fd \<mapsto> freshConnection fd (clock s) buf)
                  else connOf ?q)" by blast
  have "timeOf q' = (if timeOf ?q fd = None then (timeOf ?q)(fd \<mapsto> clock s) else timeOf ?q)"
    using q'(6) by (auto simp: timeOf_def fun_eq_iff)
  moreover have s: "indexed q'" "serving_at q' fd pos"
    using q' assms(3) by (simp_all add: indexed_def serving_at_def)
  moreover have "connections q' ! pos = freshConnection fd (clock s) buf" if "timeOf ?q fd = None"
    using serving_connOf [OF s] q'(6) that by (simp add: timeOf_def)
  ultimately show ?thesis
    using q'(1) by (intro exI [of _ q'] exI [of _ pos]) (simp add: serveStart_def)
qed

lemma serveStart_invalid:
  assumes "indexed (tqueue t)" "\<not> valid_fd fd"
  shows "serveStart fd buf evs s t = Inl OutOfBounds"
  using assms by (simp add: serveStart_def getConnectionOrCreateByFd_def getIndex_invalid indexed_def)

definition afterTurn :: "int \<Rightarrow> nat \<Rightarrow> epoll_event list \<Rightarrow> sys \<Rightarrow> thread \<Rightarrow> epoll_set \<Rightarrow> thread \<Rightarrow> bool" where
  "afterTurn fd pos evs s t m t' \<longleftrightarrow> indexed (tqueue t') \<and>
    (control t' = Serving fd pos evs \<and> m = interest s \<and> serving_at (tqueue t') fd pos \<and>
       timeOf (tqueue t') = timeOf (tqueue t) \<or>
     control t' = Handling evs \<and> interest s fd \<noteq> None \<and> m = (interest s)(fd \<mapsto> True) \<and>
       timeOf (tqueue t') = (timeOf (tqueue t))(fd \<mapsto> clock s) \<or>
     control t' = Handling evs \<and> m = (interest s)(fd := None) \<and>
       timeOf (tqueue t') = (timeOf (tqueue t))(fd := None))"

lemma settle_simps:
  "settle [] [] m = Inr m"
  "settle [] [fd] m = Inr (m(fd := None))"
  "m fd \<noteq> None \<Longrightarrow> settle [fd] [] m = Inr (m(fd \<mapsto> True))"
  by (auto simp: settle_def closeFds_def modEpollClient_def restrict_map_def)

lemma settle_turn:
  assumes "isRearmed (answers s fd h) fd w w' \<or> isDropped fd w w'" "rearmed w = []" "closedFds w = []"
  obtains m where "settle (rearmed w') (closedFds w') (interest s) = Inr m"
    "interest s fd \<noteq> None \<and> m = (interest s)(fd \<mapsto> True) \<and>
       timeOf (queue w') = (timeOf (queue w))(fd \<mapsto> clock s) \<or>
     m = (interest s)(fd := None) \<and> timeOf (queue w') = (timeOf (queue w))(fd := None)"
proof (cases "isRearmed (answers s fd h) fd w w'")
  case True
  then show ?thesis
    using that [of "(interest s)(fd \<mapsto> True)"] assms(2,3)
    by (simp add: isRearmed_def answers_def closedIn_def settle_simps)
next
  case False
  then show ?thesis
    using that [of "(interest s)(fd := None)"] assms by (simp add: isDropped_def settle_simps)
qed

lemma turnStep_ok:
  assumes ok: "thread_ok (clock s) t" and at: "control t = Serving fd pos evs"
  shows "case turnStep h rs ss fd pos evs s t of
      Inr (s', t') \<Rightarrow> (\<exists>m d out. s' = s\<lparr>interest := m, disk := d, written := out\<rparr> \<and> afterTurn fd pos evs s t m t')
    | Inl e \<Rightarrow> interest s fd = None \<and> e = Died ''EPOLL_CTL_MOD failed'' \<or>
        (\<exists>h c w. advanceState h c w = Inl e)"
proof -
  let ?w = "\<lparr>queue = tqueue t, socket = socketOf s fd rs ss, rearmed = [], closedFds = [], freed = []\<rparr>"
  let ?h = "answers s fd h"
  have "indexed (queue ?w)" "serving_at (queue ?w) fd pos" "before (now ?h) (queue ?w)"
    using ok at by (simp_all add: thread_ok_def answers_def)
  moreover have "delClient ?h fd \<noteq> CtlError" by (simp add: answers_def delResult_def)
  ultimately have step: "case connStep ?h fd pos ?w of
      Inr (again, w') \<Rightarrow> indexed (queue w') \<and>
        (if again then goesOn fd pos ?w w' else isRearmed ?h fd ?w w' \<or> isDropped fd ?w w')
    | Inl e \<Rightarrow> modFails ?h \<and> e = Died ''EPOLL_CTL_MOD failed'' \<or> (\<exists>c s. advanceState ?h c s = Inl e)"
    by (rule connStep_serving)
  show ?thesis
  proof (cases "connStep ?h fd pos ?w")
    case (Inl e)
    then show ?thesis using step by (auto simp: turnStep_def answers_def closedIn_def)
  next
    case (Inr z)
    obtain again w' where z: "z = (again, w')" by (cases z)
    show ?thesis
    proof (cases again)
      case True
      then have "goesOn fd pos ?w w'" "indexed (queue w')" using step Inr z by auto
      then show ?thesis using Inr z True
        by (auto simp: turnStep_def settle_simps goesOn_def afterTurn_def)
    next
      case False
      then have r: "indexed (queue w')" "isRearmed ?h fd ?w w' \<or> isDropped fd ?w w'"
        using step Inr z by auto
      obtain m where m: "settle (rearmed w') (closedFds w') (interest s) = Inr m"
        "interest s fd \<noteq> None \<and> m = (interest s)(fd \<mapsto> True) \<and>
           timeOf (queue w') = (timeOf (tqueue t))(fd \<mapsto> clock s) \<or>
         m = (interest s)(fd := None) \<and> timeOf (queue w') = (timeOf (tqueue t))(fd := None)"
        using settle_turn [OF r(2)] by auto
      then have "turnStep h rs ss fd pos evs s t = Inr (s\<lparr>interest := m, disk := fsys (socket w'),
          written := (written s)(fd := wire (socket w'))\<rparr>, t\<lparr>tqueue := queue w', control := Handling evs\<rparr>)"
        using Inr z False by (simp add: turnStep_def)
      moreover have "afterTurn fd pos evs s t m (t\<lparr>tqueue := queue w', control := Handling evs\<rparr>)"
        using r(1) m(2) by (simp add: afterTurn_def)
      ultimately show ?thesis by auto
    qed
  qed
qed

lemma accept_fresh:
  assumes "fresh srv m fds"
  shows "acceptEpollConnection (map Some fds @ [None]) m
    = Inr (\<lambda>fd. if fd \<in> set fds then Some True else m fd)"
  using assms
proof (induction fds arbitrary: m)
  case (Cons fd fds)
  have "fresh srv (m(fd \<mapsto> True)) fds" using Cons.prems by (auto simp: fresh_def)
  moreover have "m fd = None" using Cons.prems by (simp add: fresh_def)
  ultimately show ?case
    using Cons.IH [of "m(fd \<mapsto> True)"]
    by (simp add: addEpollClient_def del: fun_upd_apply) (simp add: fun_eq_iff)
qed simp

section \<open>What a thread owns\<close>

fun todo :: "control \<Rightarrow> int list" where
  "todo (Handling evs) = map data_fd evs"
| "todo (Serving fd pos evs) = fd # map data_fd evs"
| "todo _ = []"

definition owned :: "thread \<Rightarrow> int set" where
  "owned t = dom (timeOf (tqueue t)) \<union> set (todo (control t))"

lemma Inr_turnE:
  assumes "Inr (s', t') = turnStep h rs ss fd pos evs s t" "thread_ok (clock s) t"
    "control t = Serving fd pos evs"
  obtains m d out where "s' = s\<lparr>interest := m, disk := d, written := out\<rparr>" "afterTurn fd pos evs s t m t'"
  using turnStep_ok [OF assms(2,3), of h rs ss] assms(1) [symmetric] by auto

lemma Inr_serveE:
  assumes "Inr (s', t') = serveStart fd buf evs s t" "thread_ok (clock s) t"
  obtains q pos where "valid_fd fd" "s' = s" "t' = t\<lparr>tqueue := q, control := Serving fd pos evs\<rparr>"
    "indexed q" "serving_at q fd pos"
    "timeOf q = (if timeOf (tqueue t) fd = None then (timeOf (tqueue t))(fd \<mapsto> clock s)
                 else timeOf (tqueue t))"
proof -
  have ok: "indexed (tqueue t)" "before (clock s) (tqueue t)" using assms(2) by (simp_all add: thread_ok_def)
  have "valid_fd fd" using serveStart_invalid [OF ok(1), of fd buf evs s] assms(1) by (cases "valid_fd fd") simp_all
  then show thesis using that serveStart_ok [OF ok, of fd buf evs] assms(1) [symmetric] by auto
qed

lemma Inr_headE:
  assumes "headStep s t = Some (Inr (s', t'))" "thread_ok (clock s) t"
  obtains q fds where "s' = s\<lparr>interest := closeFds fds (interest s)\<rparr>"
    "t' = t\<lparr>tqueue := q, control := AtWait\<rparr>" "indexed q" "timeOf q = timeOf (tqueue t) |` (- set fds)"
    "\<forall>fd \<in> set fds. \<exists>t0. timeOf (tqueue t) fd = Some t0 \<and> KEEP_ALIVE_TIMEOUT \<le> clock s - t0"
  using headStep_ok [of t s] assms by (auto simp: thread_ok_def)

lemma thread_step_keeps:
  assumes "thread_step srv s t (Inr (s', t'))" "thread_ok (clock s) t"
  shows "thread_ok (clock s) t' \<and> clock s' = clock s \<and> threads s' = threads s \<and>
    sigintReceived s' = sigintReceived s"
  using assms(1)
proof (cases rule: thread_stepE)
  case Head
  obtain q fds where "s' = s\<lparr>interest := closeFds fds (interest s)\<rparr>"
    "t' = t\<lparr>tqueue := q, control := AtWait\<rparr>" "indexed q" "timeOf q = timeOf (tqueue t) |` (- set fds)"
    by (rule Inr_headE [OF Head(3) assms(2)])
  then show ?thesis using assms(2) by (auto simp: thread_ok_def before_def restrict_map_def split: if_splits)
next
  case (Accept e evs fds)
  then show ?thesis using assms(2) accept_fresh by (auto simp: acceptStep_def thread_ok_def)
next
  case (Serve e evs buf)
  obtain q pos where "s' = s" "t' = t\<lparr>tqueue := q, control := Serving (data_fd e) pos evs\<rparr>"
    "indexed q" "serving_at q (data_fd e) pos"
    "timeOf q = (if timeOf (tqueue t) (data_fd e) = None then (timeOf (tqueue t))(data_fd e \<mapsto> clock s)
                 else timeOf (tqueue t))"
    by (rule Inr_serveE [OF Serve(1) assms(2)])
  then show ?thesis using assms(2) by (auto simp: thread_ok_def before_def split: if_splits)
next
  case (Turn fd pos evs h rs ss)
  obtain m d out where "s' = s\<lparr>interest := m, disk := d, written := out\<rparr>" "afterTurn fd pos evs s t m t'"
    by (rule Inr_turnE [OF Turn(1) assms(2) Turn(2)])
  then show ?thesis using assms(2)
    by (auto simp: thread_ok_def before_def afterTurn_def split: if_splits)
qed (use assms(2) in \<open>auto simp: thread_ok_def stopThread_def\<close>)

text \<open>A descriptor the thread does not own stays as it is, unless the thread is told of it.\<close>

definition told :: "thread \<Rightarrow> thread \<Rightarrow> int \<Rightarrow> bool" where
  "told t t' fd \<longleftrightarrow> control t = AtWait \<and> fd \<in> set (todo (control t'))"

lemma thread_step_idle:
  assumes "thread_step srv s t (Inr (s', t'))" "thread_ok (clock s) t" "fd \<notin> owned t"
    "interest s fd \<noteq> None" "\<not> told t t' fd"
  shows "fd \<notin> owned t' \<and> interest s' fd = interest s fd"
  using assms(1)
proof (cases rule: thread_stepE)
  case Head
  obtain q fds where "s' = s\<lparr>interest := closeFds fds (interest s)\<rparr>"
    "t' = t\<lparr>tqueue := q, control := AtWait\<rparr>" "timeOf q = timeOf (tqueue t) |` (- set fds)"
    "\<forall>fd \<in> set fds. \<exists>t0. timeOf (tqueue t) fd = Some t0 \<and> KEEP_ALIVE_TIMEOUT \<le> clock s - t0"
    by (rule Inr_headE [OF Head(3) assms(2)])
  then show ?thesis using assms(3)
    by (auto simp: owned_def closeFds_def restrict_map_def split: if_splits)
next
  case (Wait evs)
  then show ?thesis using assms(3,5) by (auto simp: told_def owned_def disarm_def)
next
  case (Accept e evs fds)
  then show ?thesis using assms(3,4) accept_fresh [OF Accept(4)]
    by (auto simp: acceptStep_def owned_def fresh_def)
next
  case (Serve e evs buf)
  obtain q pos where "s' = s" "t' = t\<lparr>tqueue := q, control := Serving (data_fd e) pos evs\<rparr>"
    "timeOf q = (if timeOf (tqueue t) (data_fd e) = None then (timeOf (tqueue t))(data_fd e \<mapsto> clock s)
                 else timeOf (tqueue t))"
    by (rule Inr_serveE [OF Serve(1) assms(2)])
  then show ?thesis using assms(3) Serve(2) by (auto simp: owned_def split: if_splits)
next
  case (Turn fd' pos evs h rs ss)
  obtain m d out where "s' = s\<lparr>interest := m, disk := d, written := out\<rparr>" "afterTurn fd' pos evs s t m t'"
    by (rule Inr_turnE [OF Turn(1) assms(2) Turn(2)])
  then show ?thesis using assms(3) Turn(2)
    by (auto simp: owned_def afterTurn_def)
qed (use assms(3) in \<open>auto simp: owned_def stopThread_def\<close>)

text \<open>A thread on its own: what it owns is open and named once.\<close>

definition owner_ok :: "int \<Rightarrow> sys \<Rightarrow> thread \<Rightarrow> bool" where
  "owner_ok srv s t \<longleftrightarrow> distinct (todo (control t)) \<and> 
     (\<forall>fd \<in> owned t. fd = srv \<or> (\<exists>armed. interest s fd = Some armed)) \<and>
     interest s srv = None \<and> timeOf (tqueue t) srv = None \<and>
     (\<forall>fd pos evs. control t = Serving fd pos evs \<longrightarrow> fd \<noteq> srv)"

lemma thread_step_owner:
  assumes "thread_step srv s t (Inr (s', t'))" "thread_ok (clock s) t" "owner_ok srv s t"
  shows "owner_ok srv s' t'"
  using assms(1)
proof (cases rule: thread_stepE)
  case Head
  obtain q fds where "s' = s\<lparr>interest := closeFds fds (interest s)\<rparr>"
    "t' = t\<lparr>tqueue := q, control := AtWait\<rparr>" "timeOf q = timeOf (tqueue t) |` (- set fds)"
    by (rule Inr_headE [OF Head(3) assms(2)])
  then show ?thesis using assms(3)
    by (auto simp: owner_ok_def owned_def closeFds_def restrict_map_def split: if_splits)
next
  case (Wait evs)
  then show ?thesis using assms(3) by (auto simp: owner_ok_def owned_def disarm_def ready_def)
next
  case (Accept e evs fds)
  then show ?thesis using assms(3) accept_fresh [OF Accept(4)]
    by (auto simp: acceptStep_def owner_ok_def owned_def fresh_def)
next
  case (Serve e evs buf)
  obtain q pos where "s' = s" "t' = t\<lparr>tqueue := q, control := Serving (data_fd e) pos evs\<rparr>"
    "timeOf q = (if timeOf (tqueue t) (data_fd e) = None then (timeOf (tqueue t))(data_fd e \<mapsto> clock s)
                 else timeOf (tqueue t))"
    by (rule Inr_serveE [OF Serve(1) assms(2)])
  then show ?thesis using assms(3) Serve(2,3) by (auto simp: owner_ok_def owned_def split: if_splits)
next
  case (Turn fd' pos evs h rs ss)
  obtain m d out where "s' = s\<lparr>interest := m, disk := d, written := out\<rparr>" "afterTurn fd' pos evs s t m t'"
    by (rule Inr_turnE [OF Turn(1) assms(2) Turn(2)])
  then show ?thesis using assms(3) Turn(2)
    by (auto simp: owner_ok_def owned_def afterTurn_def split: if_splits)
qed (use assms(3) in \<open>auto simp: owner_ok_def owned_def stopThread_def\<close>)

lemma thread_step_dies:
  assumes "thread_step srv s t (Inl e)" "thread_ok (clock s) t" "owner_ok srv s t"
  shows "e = OutOfBounds \<and> (\<exists>fd \<in> dom (interest s). \<not> valid_fd fd) \<or>
    (\<exists>h c w. advanceState h c w = Inl e)"
  using assms(1)
proof (cases rule: thread_stepE)
  case Head
  then show ?thesis using headStep_ok [of t s] assms(2) by (auto simp: thread_ok_def)
next
  case (Accept e evs fds)
  then show ?thesis using accept_fresh [OF Accept(4)] by (simp add: acceptStep_def)
next
  case (Serve ev evs buf)
  have ok: "indexed (tqueue t)" "before (clock s) (tqueue t)" using assms(2) by (simp_all add: thread_ok_def)
  have nv: "\<not> valid_fd (data_fd ev)" using serveStart_ok [OF ok, of "data_fd ev" buf evs] Serve(1) by auto
  have "data_fd ev \<in> dom (interest s)" using assms(3) Serve(2,3) by (auto simp: owner_ok_def owned_def)
  then show ?thesis using nv Serve(1) serveStart_invalid [OF ok(1) nv, of buf evs s] by auto
next
  case (Turn fd pos evs h rs ss)
  have "interest s fd \<noteq> None" using assms(3) Turn(2) by (auto simp: owner_ok_def owned_def)
  then show ?thesis using turnStep_ok [OF assms(2) Turn(2), of h rs ss] by (auto simp: Turn(1) [symmetric])
qed auto

end
