(* ===== verification/Event_Loop_System.thy ===== *)
theory Event_Loop_System
  imports Event_Loop_Correct
begin

text \<open>
  The process as a whole: the invariant of every thread over the runs of the step relation, what
  the only thread of a process owns, the runs that leave a client alone, and lemmas that turn the
  work of one thread (a round of its loop, an accepted connection, the turns of a request) into
  runs of the process.
\<close>

section \<open>Every thread keeps its invariant\<close>

definition all_ok :: "sys \<Rightarrow> bool" where
  "all_ok s \<longleftrightarrow> (\<forall>t \<in> set (threads s). thread_ok (clock s) t)"

lemma thread_ok_later: "thread_ok t0 t \<Longrightarrow> t0 \<le> t1 \<Longrightarrow> thread_ok t1 t"
  by (force simp: thread_ok_def before_def)

lemma connOf_create [simp]: "timeOf createQueueConnections = Map.empty"
  by (auto simp: timeOf_def connOf_def createQueueConnections_def valid_fd_def fun_eq_iff)

lemma thread_ok_start: "thread_ok t0 workThreadEpoll"
  using create_ok by (simp add: thread_ok_def workThreadEpoll_def indexed_def queue_ok_def before_def)

lemma sys_step_ok:
  assumes "sys_step srv s (Inr s')" "all_ok s"
  shows "all_ok s' \<and> length (threads s') = length (threads s)"
  using assms(1)
proof (cases rule: sys_stepE)
  case (Thread i z)
  obtain s1 t1 where z: "z = (s1, t1)" by (cases z)
  have "thread_ok (clock s) (threads s ! i)" using assms(2) Thread(2) by (simp add: all_ok_def)
  note k = thread_step_keeps [OF Thread(3) [unfolded z] this]
  show ?thesis
    using assms(2) k by (auto simp: Thread(1) z install_def all_ok_def dest!: set_update_subset_insert [THEN subsetD])
next
  case (Tick d)
  then show ?thesis using assms(2) by (auto simp: all_ok_def intro: thread_ok_later)
next
  case Signal
  then show ?thesis using assms(2) by (simp add: all_ok_def)
qed

lemma reached_ok: "reached srv n s \<Longrightarrow> all_ok s \<and> length (threads s) = n"
proof (induction rule: reached.induct)
  case (reached_start time0 files)
  show ?case by (simp add: all_ok_def acceptClientsThreadEpoll_def thread_ok_start)
next
  case (reached_step s s')
  then show ?case using sys_step_ok by auto
qed

lemma reached_single:
  assumes "reached srv 1 s"
  shows "\<exists>t. threads s = [t] \<and> thread_ok (clock s) t \<and> owner_ok srv s t"
  using assms
proof (induction rule: reached.induct)
  case (reached_start time0 files)
  show ?case
    using thread_ok_start by (simp add: acceptClientsThreadEpoll_def owner_ok_def owned_def workThreadEpoll_def)
next
  case (reached_step s s')
  then obtain t where t: "threads s = [t]" "thread_ok (clock s) t" "owner_ok srv s t" by blast
  from reached_step.hyps(2) show ?case
  proof (cases rule: sys_stepE)
    case (Thread i z)
    obtain s1 t1 where z: "z = (s1, t1)" by (cases z)
    have st: "thread_step srv s t (Inr (s1, t1))" using Thread t(1) z by simp
    have "owner_ok srv s' t1"
      using thread_step_owner [OF st t(2,3)] by (simp add: Thread(1) z install_def owner_ok_def)
    then show ?thesis
      using thread_step_keeps [OF st t(2)] t(1) Thread(2) by (simp add: Thread(1) z install_def)
  next
    case (Tick d)
    then show ?thesis using t by (auto simp: owner_ok_def intro: thread_ok_later)
  next
    case Signal
    then show ?thesis using t by (simp add: owner_ok_def)
  qed
qed

section \<open>A client that says nothing\<close>

definition idle :: "int \<Rightarrow> sys \<Rightarrow> bool" where
  "idle fd s \<longleftrightarrow> interest s fd \<noteq> None \<and> list_all (\<lambda>t. fd \<notin> owned t) (threads s)"

text \<open>A step in which no thread gets an event for \<open>fd\<close>.\<close>

definition untold :: "int \<Rightarrow> int \<Rightarrow> sys \<Rightarrow> sys \<Rightarrow> bool" where
  "untold srv fd s s' \<longleftrightarrow> sys_step srv s (Inr s') \<and>
     list_all2 (\<lambda>t t'. \<not> told t t' fd) (threads s) (threads s')"

lemma untold_idle:
  assumes "untold srv fd s s'" "all_ok s" "idle fd s"
  shows "idle fd s' \<and> interest s' fd = interest s fd"
proof -
  have "sys_step srv s (Inr s')" using assms(1) by (simp add: untold_def)
  then show ?thesis
  proof (cases rule: sys_stepE)
    case (Thread i z)
    obtain s1 t1 where z: "z = (s1, t1)" by (cases z)
    let ?t = "threads s ! i"
    have ok: "thread_ok (clock s) ?t" using assms(2) Thread(2) by (simp add: all_ok_def)
    have th: "threads s1 = threads s" using thread_step_keeps [OF Thread(3) [unfolded z] ok] by simp
    have "\<not> told ?t (threads s' ! i) fd"
      using assms(1) Thread(2) by (simp add: untold_def list_all2_conv_all_nth)
    then have "\<not> told ?t t1 fd" using Thread(2) th by (simp add: Thread(1) z install_def)
    moreover have "fd \<notin> owned ?t" "interest s fd \<noteq> None"
      using assms(3) Thread(2) by (simp_all add: idle_def list_all_iff)
    ultimately have "fd \<notin> owned t1" "interest s1 fd = interest s fd"
      using thread_step_idle [OF Thread(3) [unfolded z] ok] by simp_all
    then show ?thesis
      using assms(3) th by (auto simp: Thread(1) z install_def idle_def list_all_iff
          dest!: set_update_subset_insert [THEN subsetD])
  qed (use assms(3) in \<open>auto simp: idle_def\<close>)
qed

lemma untold_run:
  assumes "(untold srv fd)\<^sup>*\<^sup>* s s'" "all_ok s" "idle fd s"
  shows "all_ok s' \<and> idle fd s' \<and> interest s' fd = interest s fd"
  using assms
proof (induction rule: rtranclp_induct)
  case (step s1 s2)
  then have q: "untold srv fd s1 s2" "all_ok s1" "idle fd s1" "interest s1 fd = interest s fd" by simp_all
  then show ?case using untold_idle [OF q(1-3)] sys_step_ok [of srv s1 s2] by (simp add: untold_def)
qed simp

section \<open>Runs\<close>

lemma reached_thread:
  assumes "reached srv n s" "i < length (threads s)" "thread_step srv s (threads s ! i) (Inr z)"
  shows "reached srv n (install i z)"
  using assms by (blast intro: reached_step sys_step.Thread)

lemma reached_tick: "reached srv n s \<Longrightarrow> 0 \<le> d \<Longrightarrow> reached srv n (s\<lparr>clock := clock s + d\<rparr>)"
  by (blast intro: reached_step sys_step.Tick)

text \<open>A thread goes round its loop to \<open>epoll_wait\<close> and is told of some events; nothing expires.\<close>

definition young :: "sys \<Rightarrow> thread \<Rightarrow> bool" where
  "young s t \<longleftrightarrow> (\<forall>fd t0. timeOf (tqueue t) fd = Some t0 \<longrightarrow> clock s - t0 < KEEP_ALIVE_TIMEOUT)"

lemma reached_events:
  assumes "reached srv n s" "i < n" "control (threads s ! i) = AtHead" "\<not> sigintReceived s"
    "young s (threads s ! i)" "ready srv (interest s) evs"
  shows "\<exists>q. reached srv n (install i (s\<lparr>interest := disarm evs (interest s)\<rparr>,
      (threads s ! i)\<lparr>tqueue := q, control := Handling evs\<rparr>)) \<and> indexed q \<and>
      timeOf q = timeOf (tqueue (threads s ! i))"
proof -
  let ?t = "threads s ! i"
  have ok: "thread_ok (clock s) ?t" "i < length (threads s)"
    using reached_ok [OF assms(1)] assms(2) by (auto simp: all_ok_def)
  obtain q fds where q: "headStep s ?t = Some (Inr (s\<lparr>interest := closeFds fds (interest s)\<rparr>,
      ?t\<lparr>tqueue := q, control := AtWait\<rparr>))" "indexed q" "timeOf q = timeOf (tqueue ?t) |` (- set fds)"
    "\<forall>fd \<in> set fds. \<exists>t0. timeOf (tqueue ?t) fd = Some t0 \<and> KEEP_ALIVE_TIMEOUT \<le> clock s - t0"
    using headStep_ok [of ?t s] ok by (auto simp: thread_ok_def)
  have "fds = []"
  proof (cases fds)
    case (Cons fd fds')
    then show ?thesis using q(4) assms(5) unfolding young_def by (metis linorder_not_le list.set_intros(1))
  qed
  then have e: "closeFds fds (interest s) = interest s" "timeOf q = timeOf (tqueue ?t)"
    using q(3) by (simp_all add: closeFds_def restrict_map_def)
  let ?s1 = "install i (s, ?t\<lparr>tqueue := q, control := AtWait\<rparr>)"
  have "thread_step srv s ?t (Inr (s, ?t\<lparr>tqueue := q, control := AtWait\<rparr>))"
    using thread_step.Head [OF assms(3,4) q(1)] e(1) by simp
  from reached_thread [OF assms(1) ok(2) this] have r: "reached srv n ?s1" .
  have th: "threads ?s1 ! i = ?t\<lparr>tqueue := q, control := AtWait\<rparr>" "i < length (threads ?s1)"
    "interest ?s1 = interest s" using ok(2) by (simp_all add: install_def)
  have "thread_step srv ?s1 (threads ?s1 ! i) (Inr (?s1\<lparr>interest := disarm evs (interest s)\<rparr>,
      (threads ?s1 ! i)\<lparr>control := Handling evs\<rparr>))"
    using thread_step.Wait [of "threads ?s1 ! i" srv ?s1 evs] th assms(6) by simp
  from reached_thread [OF r th(2) this]
  have "reached srv n (install i (s\<lparr>interest := disarm evs (interest s)\<rparr>,
      ?t\<lparr>tqueue := q, control := Handling evs\<rparr>))"
    using th(1) by (simp add: install_def)
  with q(2) e(2) show ?thesis by blast
qed

lemma reached_accept:
  assumes "reached srv n s" "i < n" "control (threads s ! i) = Handling [\<lparr>data_fd = srv, epollin = True\<rparr>]"
    "fresh srv (interest s) [fd]"
  shows "reached srv n (install i (s\<lparr>interest := (interest s)(fd \<mapsto> True), written := (written s)(fd := [])\<rparr>,
      (threads s ! i)\<lparr>control := AtHead\<rparr>))"
proof -
  let ?t = "threads s ! i"
  let ?s = "s\<lparr>interest := (interest s)(fd \<mapsto> True), written := (written s)(fd := [])\<rparr>"
  have len: "i < length (threads s)" using reached_ok [OF assms(1)] assms(2) by simp
  have m: "(\<lambda>x. if x = fd then Some True else interest s x) = (interest s)(fd \<mapsto> True)"
    "(\<lambda>x. if x = fd then [] else written s x) = (written s)(fd := [])" by auto
  have "acceptStep [fd] [] s ?t = Inr (?s, ?t\<lparr>control := Handling []\<rparr>)"
    using accept_fresh [OF assms(4)] by (simp add: acceptStep_def m)
  with thread_step.Accept [OF assms(3) _ assms(4)]
  have "thread_step srv s ?t (Inr (?s, ?t\<lparr>control := Handling []\<rparr>))" by simp
  from reached_thread [OF assms(1) len this]
  have r: "reached srv n (install i (?s, ?t\<lparr>control := Handling []\<rparr>))" .
  have "thread_step srv (install i (?s, ?t\<lparr>control := Handling []\<rparr>))
      (threads (install i (?s, ?t\<lparr>control := Handling []\<rparr>)) ! i)
      (Inr (install i (?s, ?t\<lparr>control := Handling []\<rparr>), ?t\<lparr>control := AtHead\<rparr>))"
    using thread_step.Done [of "threads (install i (?s, ?t\<lparr>control := Handling []\<rparr>)) ! i"] len
    by (simp add: install_def)
  from reached_thread [OF r _ this] len show ?thesis by (simp add: install_def)
qed

text \<open>Turns of the connection loop are steps of the process.\<close>

definition at_client :: "int \<Rightarrow> nat \<Rightarrow> int \<Rightarrow> nat \<Rightarrow> epoll_event list \<Rightarrow> sys \<Rightarrow> element \<times> socket \<Rightarrow> bool" where
  "at_client srv i fd pos evs s z \<longleftrightarrow> i < length (threads s) \<and> interest s fd \<noteq> None \<and>
     control (threads s ! i) = Serving fd pos evs \<and> pos < length (connections (tqueue (threads s ! i))) \<and>
     connections (tqueue (threads s ! i)) ! pos = fst z \<and>
     fsys (snd z) = disk s \<and> wire (snd z) = written s fd"

definition with_client :: "nat \<Rightarrow> int \<Rightarrow> nat \<Rightarrow> sys \<Rightarrow> element \<times> socket \<Rightarrow> sys" where
  "with_client i fd pos s z = (let t = threads s ! i; q = tqueue t in
     s\<lparr>disk := fsys (snd z), written := (written s)(fd := wire (snd z)),
       threads := (threads s)[i := t\<lparr>tqueue := q\<lparr>connections := (connections q)[pos := fst z]\<rparr>\<rparr>]\<rparr>)"

lemma with_client_id: "at_client srv i fd pos evs s z \<Longrightarrow> with_client i fd pos s z = s"
proof -
  assume at: "at_client srv i fd pos evs s z"
  let ?t = "threads s ! i"
  have "(connections (tqueue ?t))[pos := fst z] = connections (tqueue ?t)"
    using at list_update_id [of "connections (tqueue ?t)" pos] by (simp add: at_client_def)
  then have "?t\<lparr>tqueue := (tqueue ?t)\<lparr>connections := (connections (tqueue ?t))[pos := fst z]\<rparr>\<rparr> = ?t"
    by simp
  then show "with_client i fd pos s z = s"
    using at by (cases s) (simp add: at_client_def with_client_def Let_def)
qed

lemma at_with_client:
  "at_client srv i fd pos evs s z \<Longrightarrow> at_client srv i fd pos evs (with_client i fd pos s x) x"
  by (simp add: at_client_def with_client_def Let_def)

lemma with_with_client [simp]:
  "i < length (threads s) \<Longrightarrow> with_client i fd pos (with_client i fd pos s x) y = with_client i fd pos s y"
  by (simp add: with_client_def Let_def)

lemma answers_with_client [simp]: "answers (with_client i fd pos s x) fd' h = answers s fd' h"
  by (simp add: answers_def with_client_def Let_def)

lemma turn_with_client:
  assumes at: "at_client srv i fd pos evs s (c, w)" and turn: "turning c"
    "advanceState (answers s fd h) c w = Inr y" and h: "length (mem h) = BUFFER_REQUEST_SIZE"
  shows "thread_step srv s (threads s ! i) (Inr (s\<lparr>disk := fsys (snd y),
      written := (written s)(fd := wire (snd y))\<rparr>,
      (threads s ! i)\<lparr>tqueue := (tqueue (threads s ! i))\<lparr>connections :=
        (connections (tqueue (threads s ! i)))[pos := fst y]\<rparr>\<rparr>))"
proof -
  let ?t = "threads s ! i"
  let ?w = "\<lparr>queue = tqueue ?t, socket = w, rearmed = [], closedFds = [], freed = []\<rparr>"
  have sock: "socketOf s fd (recvs w) (sends w) = w"
    using at by (cases w) (auto simp: socketOf_def closedIn_def at_client_def)
  have "workerAt pos ?w (c, w) = ?w"
    using at by (simp add: workerAt_def at_client_def list_update_same_conv)
  moreover have "connStep (answers s fd h) fd pos (workerAt pos ?w (c, w)) = Inr (True, workerAt pos ?w y)"
    by (rule connStep_turning [OF turn]) (use at in \<open>simp add: at_client_def\<close>)
  ultimately have "turnStep h (recvs w) (sends w) fd pos evs s ?t = Inr (s\<lparr>disk := fsys (snd y),
      written := (written s)(fd := wire (snd y))\<rparr>,
      ?t\<lparr>tqueue := (tqueue ?t)\<lparr>connections := (connections (tqueue ?t))[pos := fst y]\<rparr>\<rparr>)"
    using at by (simp add: turnStep_def sock settle_simps workerAt_def at_client_def)
  with thread_step.Turn [of ?t fd pos evs h srv s "recvs w" "sends w"] at h show ?thesis
    by (simp add: at_client_def)
qed

lemma reached_turns:
  assumes "turns H x y" "H = answers s fd h" "reached srv n s" "at_client srv i fd pos evs s x"
    "length (mem h) = BUFFER_REQUEST_SIZE"
  shows "reached srv n (with_client i fd pos s y)"
  using assms
proof (induction arbitrary: s rule: turns.induct)
  case (turns_refl x)
  then show ?case using with_client_id by metis
next
  case (turns_step c w y z)
  have len: "i < length (threads s)" using turns_step.prems(3) by (simp add: at_client_def)
  have st: "install i (s\<lparr>disk := fsys (snd y), written := (written s)(fd := wire (snd y))\<rparr>,
      (threads s ! i)\<lparr>tqueue := (tqueue (threads s ! i))\<lparr>connections :=
        (connections (tqueue (threads s ! i)))[pos := fst y]\<rparr>\<rparr>) = with_client i fd pos s y"
    by (simp add: install_def with_client_def Let_def)
  have "reached srv n (with_client i fd pos s y)"
    using reached_thread [OF turns_step.prems(2) len turn_with_client [OF turns_step.prems(3)
        turns_step.hyps(1) _ turns_step.prems(4)]] turns_step.hyps(2) turns_step.prems(1) st by simp
  from turns_step.IH [OF _ this at_with_client [OF turns_step.prems(3)] turns_step.prems(4)]
  show ?case using turns_step.prems(1) len by simp
qed

end
