(* ===== verification/Event_Loop_Properties.thy ===== *)
theory Event_Loop_Properties
  imports Event_Loop_System
begin

text \<open>
  The properties of the event loop: the invariant that any number of threads keep, the safety of
  a single thread, the client that is never timed out, and the two threads that close and serve
  the same connection, as a run of the process from its start.
\<close>

section \<open>Two threads and one client\<close>

definition demo_disk :: "fs \<Rightarrow> bool" where
  "demo_disk d \<longleftrightarrow> nodes d ''/srv/index.html'' = File demoFile \<and> 0 \<le> nextFd d"

definition demoEvent :: "int \<Rightarrow> epoll_event" where
  "demoEvent fd = \<lparr>data_fd = fd, epollin = True\<rparr>"

definition demoSocket :: "sys \<Rightarrow> socket" where
  "demoSocket s = \<lparr>recvs = [Arrive demoRequest], sends = replicate 400 (Accept 20),
     wire = written s 5, fsys = disk s\<rparr>"

lemma demo_turns:
  assumes "demo_disk (disk s)" "interest s 5 \<noteq> None"
  shows "\<exists>c w. turns (answers s 5 demoHost) (freshConnection 5 t0 (replicate 1024 NUL), demoSocket s) (c, w) \<and>
    state c = STATE_CONNECTION_DONE \<and> keepAlive c \<and> clientFd c = 5 \<and> priorityTime c = t0 \<and>
    demo_disk (fsys w)"
proof -
  let ?h = "answers s 5 demoHost"
  have h: "env.truncate ?h = env.truncate demoHost" "htmlDir ?h = ''/srv''" "peer ?h = Some ''10.0.0.1''"
    using assms(2) by (auto simp: answers_def demoHost_def closedIn_def env.truncate_def)
  have t: "demoText = okHeader (env.truncate ?h) ''HTTP/1.1'' True ''text/html; charset=UTF-8'' demoFile"
    by (simp add: demoText_def h)
  obtain c se s' where "turns ?h (freshConnection 5 t0 (replicate 1024 NUL), demoSocket s)
      (c, (demoSocket s)\<lparr>recvs := [], fsys := s', sends := se,
        wire := wire (demoSocket s) @ demoText @ content demoFile\<rparr>)"
    "state c = STATE_CONNECTION_DONE" "keepAlive c = True" "clientFd c = 5" "priorityTime c = t0"
    "nodes s' = nodes (fsys (demoSocket s))" "nextFd s' = nextFd (fsys (demoSocket s)) + 1"
  proof -
    have "\<exists>c se s'. turns ?h (freshConnection 5 t0 (replicate 1024 NUL), demoSocket s)
      (c, (demoSocket s)\<lparr>recvs := [], fsys := s', sends := se,
        wire := wire (demoSocket s) @ demoText @ content demoFile\<rparr>) \<and>
      state c = STATE_CONNECTION_DONE \<and> keepAlive c = True \<and> clientFd c = 5 \<and> priorityTime c = t0 \<and>
      nodes s' = nodes (fsys (demoSocket s)) \<and> nextFd s' = nextFd (fsys (demoSocket s)) + 1"
    proof (rule turns_request [where m = METHOD_GET and p = "''/''" and v = "''HTTP/1.1''"
          and hs = demoHeaders and body = "[]" and es = "[]" and cs = "[]" and b = demoRequest
          and k = 47 and addr = "''10.0.0.1''" and mimeType = "''text/html; charset=UTF-8''"])
      show "demoRequest \<noteq> []" using served_demo_facts(7) by auto
      show "length demoText + length (content demoFile) \<le> accepts (sends (demoSocket s))"
        using served_demo_facts(6) by (simp add: demoSocket_def demoFile_def)
      show "nodes (fsys (demoSocket s)) (htmlDir ?h @ realPath ''/'') = File demoFile"
        using assms(1) served_demo_facts(10) by (simp add: h demo_disk_def demoSocket_def)
    qed (use assms(1) served_demo_facts h t in
        \<open>simp_all add: demo_disk_def demoSocket_def demoRequest_def demoFile_def\<close>)
    then show ?thesis using that by blast
  qed
  moreover from this assms(1) have "demo_disk s'" by (simp add: demo_disk_def demoSocket_def)
  ultimately show ?thesis by (intro exI conjI) (assumption, simp_all)
qed

text \<open>What one thread's work leaves alone.\<close>

definition others :: "nat \<Rightarrow> sys \<Rightarrow> sys \<Rightarrow> bool" where
  "others i s s' \<longleftrightarrow> (\<forall>j. j \<noteq> i \<longrightarrow> threads s' ! j = threads s ! j) \<and> clock s' = clock s \<and>
     sigintReceived s' = sigintReceived s \<and> demo_disk (disk s')"

definition answered_at :: "nat \<Rightarrow> nat \<Rightarrow> sys \<Rightarrow> bool" where
  "answered_at i pos s \<longleftrightarrow> control (threads s ! i) = Serving 5 pos [] \<and>
     state (connections (tqueue (threads s ! i)) ! pos) = STATE_CONNECTION_DONE \<and>
     keepAlive (connections (tqueue (threads s ! i)) ! pos)"

lemma reached_request:
  assumes r: "reached srv n s" and i: "i < n" "control (threads s ! i) = Handling [demoEvent 5]"
    and s: "interest s 5 \<noteq> None" "srv \<noteq> 5" "timeOf (tqueue (threads s ! i)) 5 = None"
      "demo_disk (disk s)"
  shows "\<exists>s' pos. reached srv n s' \<and> others i s s' \<and> interest s' = interest s \<and> answered_at i pos s' \<and>
    timeOf (tqueue (threads s' ! i)) = (timeOf (tqueue (threads s ! i)))(5 \<mapsto> clock s)"
proof -
  let ?t = "threads s ! i"
  let ?c = "freshConnection 5 (clock s) (replicate 1024 NUL)"
  have len: "i < length (threads s)" and ok: "thread_ok (clock s) ?t"
    using reached_ok [OF r] i by (auto simp: all_ok_def)
  have v: "valid_fd 5" by (simp add: valid_fd_def MAX_EPOLL_EVENTS_def)
  obtain q pos where q: "serveStart 5 (replicate 1024 NUL) [] s ?t =
      Inr (s, ?t\<lparr>tqueue := q, control := Serving 5 pos []\<rparr>)" "indexed q" "serving_at q 5 pos"
    "timeOf q = (timeOf (tqueue ?t))(5 \<mapsto> clock s)" "connections q ! pos = ?c"
    using serveStart_ok [of ?t s 5 "replicate 1024 NUL" "[]"] ok v s(3) by (auto simp: thread_ok_def)
  define s1 where "s1 = install i (s, ?t\<lparr>tqueue := q, control := Serving 5 pos []\<rparr>)"
  have "thread_step srv s ?t (serveStart (data_fd (demoEvent 5)) (replicate 1024 NUL) [] s ?t)"
    by (rule thread_step.Serve [OF i(2)]) (use s(2) in \<open>simp_all add: demoEvent_def BUFFER_REQUEST_SIZE_def\<close>)
  then have "thread_step srv s ?t (Inr (s, ?t\<lparr>tqueue := q, control := Serving 5 pos []\<rparr>))"
    using q(1) by (simp add: demoEvent_def)
  from reached_thread [OF r len this] have r1: "reached srv n s1" by (simp add: s1_def)
  have s1: "threads s1 ! i = ?t\<lparr>tqueue := q, control := Serving 5 pos []\<rparr>" "interest s1 = interest s"
    "disk s1 = disk s" "clock s1 = clock s" "length (threads s1) = length (threads s)"
    "sigintReceived s1 = sigintReceived s" "\<forall>j. j \<noteq> i \<longrightarrow> threads s1 ! j = threads s ! j"
    using len by (simp_all add: s1_def install_def)
  have plen: "pos < length (connections q)"
    using q(2,3) wf_queueD [of q] by (auto simp: indexed_def serving_at_def)
  have at: "at_client srv i 5 pos [] s1 (?c, demoSocket s1)"
    using len s(1) q(5) plen by (simp add: at_client_def s1 demoSocket_def)
  obtain c w where t: "turns (answers s1 5 demoHost) (?c, demoSocket s1) (c, w)"
    "state c = STATE_CONNECTION_DONE" "keepAlive c" "clientFd c = 5" "priorityTime c = clock s"
    "demo_disk (fsys w)"
    using demo_turns [of s1 "clock s"] s(1,4) by (auto simp: s1)
  have "length (mem demoHost) = BUFFER_REQUEST_SIZE" by (simp add: demoHost_def BUFFER_REQUEST_SIZE_def)
  from reached_turns [OF t(1) refl r1 at this]
  have r2: "reached srv n (with_client i 5 pos s1 (c, w))" .
  have q2: "timeOf (q\<lparr>connections := (connections q)[pos := c]\<rparr>) = timeOf q"
    by (rule replaced_queue(3) [OF q(2,3)]) (use q(5) t(4,5) in \<open>simp add: same_client_def\<close>)
  have "others i s (with_client i 5 pos s1 (c, w)) \<and> interest (with_client i 5 pos s1 (c, w)) = interest s \<and>
    answered_at i pos (with_client i 5 pos s1 (c, w)) \<and>
    timeOf (tqueue (threads (with_client i 5 pos s1 (c, w)) ! i)) = (timeOf (tqueue ?t))(5 \<mapsto> clock s)"
    using len plen t q2 q(4)
    by (simp add: others_def with_client_def Let_def s1 answered_at_def)
  with r2 show ?thesis by blast
qed

lemma socketOf_fields [simp]: "fsys (socketOf s fd rs ss) = disk s" "wire (socketOf s fd rs ss) = written s fd"
  by (simp_all add: socketOf_def)

lemma turn_rearm:
  assumes "thread_ok (clock s) t" "control t = Serving fd pos evs"
    "state (connections (tqueue t) ! pos) = STATE_CONNECTION_DONE"
    "keepAlive (connections (tqueue t) ! pos)"
  shows "if interest s fd = None
    then turnStep h rs ss fd pos evs s t = Inl (Died ''EPOLL_CTL_MOD failed'')
    else \<exists>q. turnStep h rs ss fd pos evs s t = Inr (s\<lparr>interest := (interest s)(fd \<mapsto> True)\<rparr>,
        t\<lparr>tqueue := q, control := Handling evs\<rparr>) \<and>
      timeOf q = (timeOf (tqueue t))(fd \<mapsto> clock s)"
proof -
  let ?w = "\<lparr>queue = tqueue t, socket = socketOf s fd rs ss, rearmed = [], closedFds = [], freed = []\<rparr>"
  let ?h = "answers s fd h"
  have q: "indexed (queue ?w)" "serving_at (queue ?w) fd pos" "before (now ?h) (queue ?w)"
    using assms(1,2) by (simp_all add: thread_ok_def answers_def)
  have "getConn (queue ?w) (int pos) = Inr (connections (tqueue t) ! pos)"
    using serving_getConn(1) [OF q(1,2)] by simp
  then have step: "connStep ?h fd pos ?w = res_bind (rearm ?h fd ?w) (\<lambda>w'. Inr (False, w'))"
    using assms(3,4) by (simp add: connStep_def)
  have mf: "modFails ?h = (interest s fd = None)" by (simp add: answers_def closedIn_def)
  show ?thesis
  proof (cases "interest s fd = None")
    case True
    then show ?thesis using rearm_serving [OF q] mf by (simp add: turnStep_def step)
  next
    case False
    then obtain w' where w': "rearm ?h fd ?w = Inr w'" "isRearmed ?h fd ?w w'"
      using rearm_serving [OF q] mf by auto
    have "turnStep h rs ss fd pos evs s t = Inr (s\<lparr>interest := (interest s)(fd \<mapsto> True)\<rparr>,
        t\<lparr>tqueue := queue w', control := Handling evs\<rparr>)"
      using w' False by (simp add: turnStep_def step isRearmed_def settle_simps)
    then show ?thesis using w'(2) False by (auto simp: isRearmed_def answers_def)
  qed
qed

lemma reached_rearm:
  assumes r: "reached srv n s" "i < n" and a: "answered_at i pos s" "interest s 5 \<noteq> None"
    "demo_disk (disk s)"
  shows "\<exists>s'. reached srv n s' \<and> others i s s' \<and> interest s' = (interest s)(5 \<mapsto> True) \<and>
    control (threads s' ! i) = AtHead \<and>
    timeOf (tqueue (threads s' ! i)) = (timeOf (tqueue (threads s ! i)))(5 \<mapsto> clock s)"
proof -
  let ?t = "threads s ! i"
  have len: "i < length (threads s)" and ok: "thread_ok (clock s) ?t"
    using reached_ok [OF r(1)] r(2) by (auto simp: all_ok_def)
  have at: "control ?t = Serving 5 pos []" using a(1) by (simp add: answered_at_def)
  obtain q where q: "turnStep demoHost [] [] 5 pos [] s ?t = Inr (s\<lparr>interest := (interest s)(5 \<mapsto> True)\<rparr>,
      ?t\<lparr>tqueue := q, control := Handling []\<rparr>)" "timeOf q = (timeOf (tqueue ?t))(5 \<mapsto> clock s)"
    using turn_rearm [OF ok at, of demoHost "[]" "[]"] a(1,2) by (auto simp: answered_at_def)
  define s1 where "s1 = install i (s\<lparr>interest := (interest s)(5 \<mapsto> True)\<rparr>, ?t\<lparr>tqueue := q, control := Handling []\<rparr>)"
  have "length (mem demoHost) = BUFFER_REQUEST_SIZE" by (simp add: demoHost_def BUFFER_REQUEST_SIZE_def)
  from thread_step.Turn [OF at this, of srv s "[]" "[]"] q(1)
  have r1: "reached srv n s1" unfolding s1_def by (intro reached_thread [OF r(1) len]) simp
  have s1: "threads s1 ! i = ?t\<lparr>tqueue := q, control := Handling []\<rparr>" "i < length (threads s1)"
    using len by (simp_all add: s1_def install_def)
  have "thread_step srv s1 (threads s1 ! i) (Inr (s1, (threads s1 ! i)\<lparr>control := AtHead\<rparr>))"
    by (rule thread_step.Done) (simp add: s1)
  from reached_thread [OF r1 s1(2) this]
  have "reached srv n (install i (s1, ?t\<lparr>tqueue := q, control := AtHead\<rparr>))" by (simp add: s1)
  moreover have "others i s (install i (s1, ?t\<lparr>tqueue := q, control := AtHead\<rparr>))"
    using a(3) by (simp add: others_def install_def s1_def)
  ultimately show ?thesis
    using len q(2) by (intro exI [of _ "install i (s1, ?t\<lparr>tqueue := q, control := AtHead\<rparr>)"])
      (simp add: install_def s1_def)
qed

lemma one_entry_heap:
  assumes "indexed q" "\<And>fd'. timeOf q fd' \<noteq> None \<Longrightarrow> fd' = fd"
  shows "queue_ok q"
proof -
  have q: "wf_queue q" "index_ok q" using assms(1) by (simp_all add: indexed_def)
  have at: "clientFd (connections q ! i) = fd" if "i < currentSize q" for i
    using assms(2) connOf_Some_iff [OF q, of "clientFd (connections q ! i)"] nth_active [OF q(1) that]
      index_okD(1) [OF q(2) that] by (auto simp: timeOf_def)
  have "currentSize q \<le> 1"
  proof (rule ccontr)
    assume "\<not> currentSize q \<le> 1"
    then show False using index_ok_inj [OF q(2), of 0 1] at [of 0] at [of 1] by simp
  qed
  then show ?thesis using q by (auto simp: queue_ok_def heap_ok_def)
qed

text \<open>The head of the loop closes the one connection that has expired.\<close>

lemma head_closes:
  assumes "thread_ok (clock s) t" "timeOf (tqueue t) = [fd \<mapsto> t0]" "fd \<noteq> 0"
    "KEEP_ALIVE_TIMEOUT \<le> clock s - t0"
  shows "\<exists>q. headStep s t = Some (Inr (s\<lparr>interest := (interest s)(fd := None)\<rparr>,
    t\<lparr>tqueue := q, control := AtWait\<rparr>))"
proof -
  have q: "queue_ok (tqueue t)"
    by (rule one_entry_heap [of _ fd]) (use assms in \<open>auto simp: thread_ok_def split: if_splits\<close>)
  have "timeOf (tqueue t) 0 = None" using assms(2,3) by simp
  from conn_queue.loop_closes_expired [OF q this, of "closedIn (interest s)" "clock s" "[]"]
  obtain q' ev where r: "closeExpired (delResult (closedIn (interest s))) (clock s) (tqueue t) = Some (Inr (q', ev))"
    "set (map fst ev) = {x. \<exists>t'. timeOf (tqueue t) x = Some t' \<and> KEEP_ALIVE_TIMEOUT \<le> clock s - t'}"
    unfolding closeExpired_def append_Nil by blast
  have "set (map fst ev) = {fd}" using r(2) assms(2,4) by (auto split: if_splits)
  then have "closeFds (map fst ev) (interest s) = (interest s)(fd := None)"
    by (auto simp: closeFds_def restrict_map_def)
  then show ?thesis using r(1) by (intro exI [of _ q']) (simp add: headStep_def)
qed

lemma crossing:
  assumes s: "reached srv 2 s" "control (threads s ! 0) = AtHead" "\<not> sigintReceived s"
      "timeOf (tqueue (threads s ! 0)) = [5 \<mapsto> t0]" "KEEP_ALIVE_TIMEOUT \<le> clock s - t0"
    and other: "answered_at 1 pos s"
  shows "\<exists>s'. reached srv 2 s' \<and> sys_step srv s' (Inl (Died ''EPOLL_CTL_MOD failed''))"
proof -
  have len: "length (threads s) = 2" and ok: "thread_ok (clock s) (threads s ! 0)"
    "thread_ok (clock s) (threads s ! 1)"
    using reached_ok [OF s(1)] by (auto simp: all_ok_def)
  obtain q where "headStep s (threads s ! 0) = Some (Inr (s\<lparr>interest := (interest s)(5 := None)\<rparr>,
      (threads s ! 0)\<lparr>tqueue := q, control := AtWait\<rparr>))"
    using head_closes [OF ok(1) s(4) _ s(5)] by auto
  note st = thread_step.Head [OF s(2,3) this, of srv]
  define s' where "s' = install 0 (s\<lparr>interest := (interest s)(5 := None)\<rparr>,
      (threads s ! 0)\<lparr>tqueue := q, control := AtWait\<rparr>)"
  have r: "reached srv 2 s'" unfolding s'_def by (rule reached_thread [OF s(1) _ st]) (simp add: len)
  have s': "threads s' ! 1 = threads s ! 1" "clock s' = clock s" "interest s' 5 = None"
    "length (threads s') = 2" by (simp_all add: s'_def install_def len)
  have at: "control (threads s' ! 1) = Serving 5 pos []" "thread_ok (clock s') (threads s' ! 1)"
    using other ok(2) by (simp_all add: answered_at_def s' del: One_nat_def)
  have "length (mem demoHost) = BUFFER_REQUEST_SIZE" by (simp add: demoHost_def BUFFER_REQUEST_SIZE_def)
  note turn = thread_step.Turn [OF at(1) this, of srv s' "[]" "[]"]
  have "turnStep demoHost [] [] 5 pos [] s' (threads s' ! 1) = Inl (Died ''EPOLL_CTL_MOD failed'')"
    using turn_rearm [OF at(2,1), of demoHost "[]" "[]"] other s'(1,3) by (simp add: answered_at_def del: One_nat_def)
  with turn have "sys_step srv s' (Inl (Died ''EPOLL_CTL_MOD failed''))"
    using s'(4) by (intro sys_step.Die [of 1]) (simp_all del: One_nat_def)
  with r show ?thesis by blast
qed


text \<open>The first thread accepts and answers the client, then the second one answers it.\<close>

lemma install_nth [simp]: "i < length (threads s) \<Longrightarrow> threads (install i (s, t)) ! i = t"
  and install_other [simp]: "j \<noteq> i \<Longrightarrow> threads (install i (s, t)) ! j = threads s ! j"
  and install_fields [simp]: "interest (install i (s, t)) = interest s" "clock (install i (s, t)) = clock s"
    "disk (install i (s, t)) = disk s" "sigintReceived (install i (s, t)) = sigintReceived s"
    "written (install i (s, t)) = written s" "length (threads (install i (s, t))) = length (threads s)"
  by (simp_all add: install_def)

lemma reached_served:
  assumes r: "reached srv n s" "i < n" "control (threads s ! i) = AtHead" "\<not> sigintReceived s"
      "timeOf (tqueue (threads s ! i)) = Map.empty" "srv \<noteq> 5"
    and s: "interest s 5 = Some True" "demo_disk (disk s)"
  shows "\<exists>s' pos. reached srv n s' \<and> others i s s' \<and> interest s' 5 = Some False \<and> answered_at i pos s' \<and>
    timeOf (tqueue (threads s' ! i)) = [5 \<mapsto> clock s]"
proof -
  have len: "i < length (threads s)" using reached_ok [OF r(1)] r(2) by simp
  obtain q where q: "reached srv n (install i (s\<lparr>interest := disarm [demoEvent 5] (interest s)\<rparr>,
      (threads s ! i)\<lparr>tqueue := q, control := Handling [demoEvent 5]\<rparr>))" "timeOf q = Map.empty"
    using reached_events [OF r(1-4), of "[demoEvent 5]"] r(5) s(1)
    by (auto simp: young_def ready_def demoEvent_def MAX_EPOLL_EVENTS_def)
  define s1 where "s1 = install i (s\<lparr>interest := disarm [demoEvent 5] (interest s)\<rparr>,
      (threads s ! i)\<lparr>tqueue := q, control := Handling [demoEvent 5]\<rparr>)"
  have len1: "i < length (threads (s\<lparr>interest := disarm [demoEvent 5] (interest s)\<rparr>))" using len by simp
  have r1: "reached srv n s1" "control (threads s1 ! i) = Handling [demoEvent 5]" "interest s1 5 = Some False"
    "timeOf (tqueue (threads s1 ! i)) = Map.empty" "demo_disk (disk s1)"
    using q s len len1 by (auto simp: s1_def disarm_def demoEvent_def)
  obtain s2 pos where s2: "reached srv n s2" "others i s1 s2" "interest s2 = interest s1"
    "answered_at i pos s2" "timeOf (tqueue (threads s2 ! i)) = [5 \<mapsto> clock s1]"
    using reached_request [OF r1(1) r(2) r1(2) _ r(6) _ r1(5)] r1(3,4) by auto
  have "others i s s2" "interest s2 5 = Some False" "clock s1 = clock s"
    using s2(2,3) r1(3) by (auto simp: others_def s1_def)
  with s2 show ?thesis by auto
qed

lemma two_threads_cross:
  assumes "srv \<noteq> 5" "demo_disk files"
  shows "\<exists>s. reached srv 2 s \<and> sys_step srv s (Inl (Died ''EPOLL_CTL_MOD failed''))"
proof -
  let ?e = "\<lparr>data_fd = srv, epollin = True\<rparr>"
  define s0 where "s0 = acceptClientsThreadEpoll 2 7 files"
  have r0: "reached srv 2 s0" unfolding s0_def by (rule reached_start)
  have s0: "threads s0 ! 0 = workThreadEpoll" "threads s0 ! 1 = workThreadEpoll"
    "\<not> sigintReceived s0" "interest s0 = Map.empty" "clock s0 = 7" "disk s0 = files" "length (threads s0) = 2"
    by (simp_all add: s0_def acceptClientsThreadEpoll_def)
  obtain q where q: "reached srv 2 (install 0 (s0\<lparr>interest := disarm [?e] (interest s0)\<rparr>,
      (threads s0 ! 0)\<lparr>tqueue := q, control := Handling [?e]\<rparr>))" "timeOf q = Map.empty"
    using reached_events [OF r0, of 0 "[?e]"] s0
    by (auto simp: young_def ready_def workThreadEpoll_def MAX_EPOLL_EVENTS_def)
  define s1 where "s1 = install 0 (s0\<lparr>interest := disarm [?e] (interest s0)\<rparr>,
      (threads s0 ! 0)\<lparr>tqueue := q, control := Handling [?e]\<rparr>)"
  have len1: "0 < length (threads (s0\<lparr>interest := disarm [?e] (interest s0)\<rparr>))"
    "0 < length (threads s1)" using s0(7) by (simp_all add: s1_def)
  have c1: "control (threads s1 ! 0) = Handling [?e]" "fresh srv (interest s1) [5]"
    "tqueue (threads s1 ! 0) = q"
    using s0 len1 assms(1) by (simp_all add: s1_def fresh_def disarm_def)
  define s2 where "s2 = install 0 (s1\<lparr>interest := (interest s1)(5 \<mapsto> True), written := (written s1)(5 := [])\<rparr>,
      (threads s1 ! 0)\<lparr>control := AtHead\<rparr>)"
  have r2: "reached srv 2 s2"
    using reached_accept [OF q(1) [folded s1_def] _ c1(1,2)] by (simp add: s2_def)
  have s2: "threads s2 ! 0 = (threads s1 ! 0)\<lparr>control := AtHead\<rparr>"
    using len1 by (simp add: s2_def)
  have s2': "threads s2 ! 1 = workThreadEpoll" "clock s2 = 7" "\<not> sigintReceived s2" "disk s2 = files"
    "interest s2 5 = Some True" using s0 by (simp_all add: s2_def s1_def)
  obtain s3 pos where s3: "reached srv 2 s3" "others 0 s2 s3" "interest s3 5 = Some False"
    "answered_at 0 pos s3" "timeOf (tqueue (threads s3 ! 0)) = [5 \<mapsto> 7]"
    using reached_served [OF r2, of 0] s2 s2' c1(3) q(2) assms by auto
  obtain s4 where s4: "reached srv 2 s4" "others 0 s3 s4" "interest s4 5 = Some True"
    "control (threads s4 ! 0) = AtHead" "timeOf (tqueue (threads s4 ! 0)) = [5 \<mapsto> 7]"
    using reached_rearm [OF s3(1) _ s3(4)] s3 s2'(2) by (auto simp: others_def)
  define s5 where "s5 = s4\<lparr>clock := clock s4 + 59\<rparr>"
  have r5: "reached srv 2 s5" using reached_tick [OF s4(1)] by (simp add: s5_def)
  have s5: "threads s5 ! 1 = workThreadEpoll" "clock s5 = 66" "\<not> sigintReceived s5" "demo_disk (disk s5)"
    "interest s5 5 = Some True" "threads s5 ! 0 = threads s4 ! 0"
    using s2' s3(2) s4(2,3) by (auto simp: others_def s5_def)
  obtain s6 pos' where s6: "reached srv 2 s6" "others 1 s5 s6" "answered_at 1 pos' s6"
    using reached_served [OF r5, of 1] s5 assms(1) by (auto simp: workThreadEpoll_def)
  define s7 where "s7 = s6\<lparr>clock := clock s6 + 1\<rparr>"
  have r7: "reached srv 2 s7" using reached_tick [OF s6(1)] by (simp add: s7_def)
  have "control (threads s7 ! 0) = AtHead" "\<not> sigintReceived s7" "answered_at 1 pos' s7"
    "timeOf (tqueue (threads s7 ! 0)) = [5 \<mapsto> 7]" "KEEP_ALIVE_TIMEOUT \<le> clock s7 - 7"
    using s6 s5 s4(4,5) by (auto simp: s7_def others_def answered_at_def KEEP_ALIVE_TIMEOUT_def)
  from crossing [OF r7 this(1,2,4,5,3)] show ?thesis .
qed

section \<open>Properties\<close>

text \<open>
  C11: with any number of threads, each thread's queue stays well formed (its index names the
  position of every stored connection and nothing else), no stored time lies in the future, and a
  thread in the middle of a request works on the position where its connection is stored.
\<close>

theorem threads_keep_queues:
  assumes "reached srv n s"
  shows "length (threads s) = n \<and> list_all (\<lambda>t. wf_queue (tqueue t) \<and> index_ok (tqueue t) \<and>
    before (clock s) (tqueue t) \<and>
    (case control t of Serving fd pos evs \<Rightarrow> serving_at (tqueue t) fd pos | _ \<Rightarrow> True)) (threads s)"
  using reached_ok [OF assms] by (auto simp: all_ok_def thread_ok_def indexed_def list_all_iff)


text \<open>
  C12: the keep-alive timeout does not cover a client that has not sent anything. A connected
  client that is in no thread's queue stays open, whatever the clock says and whatever the
  threads do, as long as no event for it is reported: only stored connections expire.
\<close>

theorem silent_client_never_closed:
  assumes "reached srv n s" "interest s fd = Some armed" "list_all (\<lambda>t. fd \<notin> owned t) (threads s)"
    "(untold srv fd)\<^sup>*\<^sup>* s s'"
  shows "interest s' fd = Some armed \<and> list_all (\<lambda>t. fd \<notin> owned t) (threads s')"
  using untold_run [OF assms(4)] reached_ok [OF assms(1)] assms(2,3) by (simp add: idle_def)


section \<open>Witnesses\<close>

lemma reached_connected:
  assumes "srv \<noteq> fd" "0 \<le> fd"
  shows "\<exists>s. reached srv 1 s \<and> interest s = [fd \<mapsto> True] \<and> control (threads s ! 0) = AtHead \<and>
    timeOf (tqueue (threads s ! 0)) = Map.empty \<and> \<not> sigintReceived s"
proof -
  let ?e = "\<lparr>data_fd = srv, epollin = True\<rparr>"
  define s0 where "s0 = acceptClientsThreadEpoll 1 7 undefined"
  have r0: "reached srv 1 s0" unfolding s0_def by (rule reached_start)
  have s0: "threads s0 = [workThreadEpoll]" "\<not> sigintReceived s0"
    "interest s0 = Map.empty"
    by (simp_all add: s0_def acceptClientsThreadEpoll_def)
  obtain q where q: "reached srv 1 (install 0 (s0\<lparr>interest := disarm [?e] (interest s0)\<rparr>,
      (threads s0 ! 0)\<lparr>tqueue := q, control := Handling [?e]\<rparr>))" "timeOf q = Map.empty"
    using reached_events [OF r0, of 0 "[?e]"] s0
    by (auto simp: young_def ready_def workThreadEpoll_def MAX_EPOLL_EVENTS_def)
  define s1 where "s1 = install 0 (s0\<lparr>interest := disarm [?e] (interest s0)\<rparr>,
      (threads s0 ! 0)\<lparr>tqueue := q, control := Handling [?e]\<rparr>)"
  have s1: "interest s1 = Map.empty" "threads s1 ! 0 = workThreadEpoll\<lparr>tqueue := q, control := Handling [?e]\<rparr>"
    "0 < length (threads s1)" "\<not> sigintReceived s1"
    using s0 by (auto simp: s1_def disarm_def)
  have "fresh srv (interest s1) [fd]" using assms by (auto simp: s1 fresh_def)
  from reached_accept [OF q(1) [folded s1_def] _ _ this] s1(2)
  have "reached srv 1 (install 0 (s1\<lparr>interest := (interest s1)(fd \<mapsto> True), written := (written s1)(fd := [])\<rparr>,
      (threads s1 ! 0)\<lparr>control := AtHead\<rparr>))" by simp
  then show ?thesis using s1 q(2) by (intro exI conjI) (assumption, simp_all)
qed

theorem threads_keep_queues_witness:
  "\<exists>s. reached 3 1 s \<and> length (threads s) = 1 \<and> list_all (\<lambda>t. wf_queue (tqueue t) \<and> index_ok (tqueue t) \<and>
    before (clock s) (tqueue t) \<and>
    (case control t of Serving fd pos evs \<Rightarrow> serving_at (tqueue t) fd pos | _ \<Rightarrow> True)) (threads s)"
  using reached_connected [of 3 5] threads_keep_queues by auto


theorem silent_client_never_closed_witness:
  "\<exists>(s :: sys) (s' :: sys). interest s 5 = Some True \<and> clock s' = clock s + 3600 \<and> control (threads s' ! 0) = AtWait \<and>
    interest s' 5 = Some True \<and> list_all (\<lambda>t. 5 \<notin> owned t) (threads s')"
proof -
  obtain s where s: "reached 3 1 s" "interest s = [5 \<mapsto> True]" "control (threads s ! 0) = AtHead"
    "timeOf (tqueue (threads s ! 0)) = Map.empty" "\<not> sigintReceived s"
    using reached_connected [of 3 5] by auto
  obtain t where t: "threads s = [t]" "thread_ok (clock s) t"
    using reached_single [OF s(1)] by blast
  define s1 where "s1 = s\<lparr>clock := clock s + 3600\<rparr>"
  have at: "control t = AtHead" "timeOf (tqueue t) = Map.empty" using s(3,4) t(1) by simp_all
  have "sys_step 3 s (Inr s1)" unfolding s1_def by (rule sys_step.Tick) simp
  then have q1: "untold 3 5 s s1" using at(1) t(1) by (simp add: untold_def s1_def told_def)
  obtain q fds where h: "headStep s1 t = Some (Inr (s1\<lparr>interest := closeFds fds (interest s1)\<rparr>,
      t\<lparr>tqueue := q, control := AtWait\<rparr>))"
    using headStep_ok [of t s1] t(2) by (auto simp: thread_ok_def)
  define s2 where "s2 = install 0 (s1\<lparr>interest := closeFds fds (interest s1)\<rparr>, t\<lparr>tqueue := q, control := AtWait\<rparr>)"
  have "thread_step 3 s1 t (Inr (s1\<lparr>interest := closeFds fds (interest s1)\<rparr>, t\<lparr>tqueue := q, control := AtWait\<rparr>))"
    by (rule thread_step.Head [OF at(1) _ h]) (simp add: s1_def s(5))
  then have "sys_step 3 s1 (Inr s2)" unfolding s2_def
    using t(1) by (intro sys_step.Thread) (simp_all add: s1_def)
  then have q2: "untold 3 5 s1 s2" using at(1) t(1) by (simp add: untold_def s1_def s2_def install_def told_def)
  have "(untold 3 5)\<^sup>*\<^sup>* s s2" using q1 q2 by (meson converse_rtranclp_into_rtranclp rtranclp.rtrancl_refl)
  from silent_client_never_closed [OF s(1) _ _ this, of True]
  have "interest s2 5 = Some True \<and> list_all (\<lambda>t. 5 \<notin> owned t) (threads s2)"
    using s(2) t(1) at by (simp add: owned_def)
  then show ?thesis
    using s(2) t(1)
    by - (rule exI [where x = s], rule exI [where x = s2], simp add: s2_def s1_def install_def)
qed


end
