(* ===== verification/Logger.thy ===== *)
theory Logger
  imports Response
begin

text \<open>
  The logger of the server, \<open>src/lib/logger/logger.c\<close>, and the threads that share it.

  The state is \<open>struct Logger\<close> (\<open>initialized\<close>, \<open>mutex\<close>, \<open>logActive\<close>, \<open>logPath\<close>, \<open>logFile\<close>,
  \<open>fileFd\<close>) with what the process has around it: the open descriptors (\<open>open\<close> and \<open>accept\<close> take
  the lowest free one), the date, the directories, and where every thread is in
  \<open>getLoggerFileDescriptor\<close> and \<open>logMessage\<close>. A step of a thread is one access to what the
  threads share. \<open>logged\<close> holds every message with what the descriptor it was written to
  referred to. The files \<open>open\<close> refuses are the argument \<open>refuses\<close>; the date and time of a
  message, as \<open>strftime\<close> prints them, and \<open>strerror\<close> are arguments too.
\<close>

section \<open>Names\<close>

text \<open>\<open>snprintf(buffer, n, ...)\<close> of a text, as the string it leaves.\<close>

definition snprintf :: "nat \<Rightarrow> string \<Rightarrow> string" where
  "snprintf n s = take (n - 1) s"

definition getLoggerFileName :: "string \<Rightarrow> string" where
  "getLoggerFileName loggerDate = snprintf 15 (loggerDate @ ''.log'')"

definition getLoggerCurrentFullPath :: "string \<Rightarrow> string \<Rightarrow> string" where
  "getLoggerCurrentFullPath dir loggerDate = snprintf 1024 (dir @ getLoggerFileName loggerDate)"

text \<open>\<open>mkpath\<close> is the same text as \<open>makeDirectory\<close> of \<open>helper.c\<close>.\<close>

definition mkpath :: "env \<Rightarrow> string \<Rightarrow> fs \<Rightarrow> (bool \<times> fs) res" where
  "mkpath e file_path s = makeDirectory e file_path s"

section \<open>Descriptors\<close>

datatype fdTarget = Standard | LogFile string | Client nat

fun lowestFree :: "fdTarget option list \<Rightarrow> nat" where
  "lowestFree [] = 0"
| "lowestFree (None # ds) = 0"
| "lowestFree (Some t # ds) = Suc (lowestFree ds)"

definition lookupFd :: "fdTarget option list \<Rightarrow> nat \<Rightarrow> fdTarget option" where
  "lookupFd ds fd = (if fd < length ds then ds ! fd else None)"

definition openFd :: "fdTarget \<Rightarrow> fdTarget option list \<Rightarrow> nat \<times> fdTarget option list" where
  "openFd t ds = (let fd = lowestFree ds
     in (fd, if fd < length ds then ds[fd := Some t] else ds @ [Some t]))"

definition shutFd :: "nat \<Rightarrow> fdTarget option list \<Rightarrow> fdTarget option list" where
  "shutFd fd ds = ds[fd := None]"

section \<open>The state\<close>

text \<open>
  Where a thread is: the strings are \<open>newLoggerFileName\<close> and \<open>loggerFullPath\<close>, the number is the
  descriptor \<open>logMessage\<close> was given.
\<close>

datatype point =
    Outside
  | Comparing string
  | Resetting string
  | Testing string
  | Locking string
  | Inside string
  | MakingPath string
  | Closing string string
  | Naming string string
  | Opening string
  | Publishing
  | Unlocking
  | Returning
  | Writing nat

record logging =
  initialized :: bool
  mutex :: "nat option"
  logActive :: bool
  logPath :: string
  logFile :: string
  fileFd :: nat
  descriptors :: "fdTarget option list"
  today :: string
  disk :: fs
  points :: "point list"
  logged :: "(string \<times> fdTarget option) list"

definition jump :: "nat \<Rightarrow> point \<Rightarrow> logging \<Rightarrow> logging" where
  "jump i p s = s\<lparr>points := (points s)[i := p]\<rparr>"

section \<open>A thread\<close>

text \<open>
  The next access of thread \<open>i\<close>, which logs \<open>m\<close> when it comes to the write: no value when it
  waits for the mutex.
\<close>

definition logger_step :: "env \<Rightarrow> (string \<Rightarrow> bool) \<Rightarrow> string \<Rightarrow> nat \<Rightarrow> logging \<Rightarrow> logging res option" where
  "logger_step e refuses m i s =
     (case points s ! i of
        Outside \<Rightarrow>
          if \<not> logActive s then Some (Inr (jump i (Writing 2) (s\<lparr>initialized := True\<rparr>)))
          else Some (Inr (jump i (Comparing (getLoggerFileName (today s))) s))
      | Comparing new \<Rightarrow>
          Some (Inr (jump i (if new \<noteq> logFile s then Resetting new else Testing new) s))
      | Resetting new \<Rightarrow> Some (Inr (jump i (Testing new) (s\<lparr>initialized := False\<rparr>)))
      | Testing new \<Rightarrow> Some (Inr (jump i (if \<not> initialized s then Locking new else Returning) s))
      | Locking new \<Rightarrow>
          if mutex s = None then Some (Inr (jump i (Inside new) (s\<lparr>mutex := Some i\<rparr>))) else None
      | Inside new \<Rightarrow> Some (Inr (jump i (if \<not> initialized s then MakingPath new else Unlocking) s))
      | MakingPath new \<Rightarrow>
          let loggerFullPath = getLoggerCurrentFullPath (logPath s) (today s)
          in Some (res_bind (mkpath e (logPath s) (disk s)) (\<lambda>(ok, d).
               if \<not> ok then Inl (die (''Error creating directory: '' @ logPath s))
               else Inr (jump i (Closing new loggerFullPath) (s\<lparr>disk := d\<rparr>))))
      | Closing new loggerFullPath \<Rightarrow>
          Some (Inr (jump i (Naming new loggerFullPath)
            (s\<lparr>descriptors := shutFd (fileFd s) (descriptors s)\<rparr>)))
      | Naming new loggerFullPath \<Rightarrow>
          Some (Inr (jump i (Opening loggerFullPath) (s\<lparr>logFile := snprintf 15 new\<rparr>)))
      | Opening loggerFullPath \<Rightarrow>
          if refuses loggerFullPath then Some (Inl (die (''Error open path '' @ loggerFullPath)))
          else let (fd, ds) = openFd (LogFile loggerFullPath) (descriptors s)
            in Some (Inr (jump i Publishing (s\<lparr>fileFd := fd, descriptors := ds\<rparr>)))
      | Publishing \<Rightarrow> Some (Inr (jump i Unlocking (s\<lparr>initialized := True\<rparr>)))
      | Unlocking \<Rightarrow> Some (Inr (jump i Returning (s\<lparr>mutex := None\<rparr>)))
      | Returning \<Rightarrow> Some (Inr (jump i (Writing (fileFd s)) s))
      | Writing fd \<Rightarrow>
          Some (Inr (jump i Outside (s\<lparr>logged := logged s @ [(m, lookupFd (descriptors s) fd)]\<rparr>))))"

section \<open>The process\<close>

text \<open>
  The threads take turns; meanwhile the date changes, and other code of the process opens and
  closes descriptors of clients.
\<close>

inductive log_step :: "env \<Rightarrow> (string \<Rightarrow> bool) \<Rightarrow> logging \<Rightarrow> logging res \<Rightarrow> bool"
  for e :: env and refuses :: "string \<Rightarrow> bool" where
  Thread: "i < length (points s) \<Longrightarrow> logger_step e refuses m i s = Some r \<Longrightarrow> log_step e refuses s r"
| Midnight: "log_step e refuses s (Inr (s\<lparr>today := d\<rparr>))"
| Opened: "openFd (Client c) (descriptors s) = (fd, ds) \<Longrightarrow>
    log_step e refuses s (Inr (s\<lparr>descriptors := ds\<rparr>))"
| Closed: "lookupFd (descriptors s) fd = Some (Client c) \<Longrightarrow>
    log_step e refuses s (Inr (s\<lparr>descriptors := shutFd fd (descriptors s)\<rparr>))"

inductive_cases log_stepE [consumes 1, case_names Thread Midnight Opened Closed]:
  "log_step e refuses s (Inr s')"

text \<open>The process with \<open>n\<close> threads that will log, the logger as \<open>getOptions\<close> sets it up at first.\<close>

definition startLogging :: "fs \<Rightarrow> string \<Rightarrow> nat \<Rightarrow> logging" where
  "startLogging files d n = \<lparr>initialized = False, mutex = None, logActive = False, logPath = [],
     logFile = [], fileFd = 2, descriptors = replicate 3 (Some Standard), today = d, disk = files,
     points = replicate n Outside, logged = []\<rparr>"

section \<open>The text of a message\<close>

datatype logLevel = LOG_LEVEL_ERROR | LOG_LEVEL_WARN | LOG_LEVEL_INFO | LOG_LEVEL_DEBUG

fun loggerLevelToStr :: "logLevel \<Rightarrow> string" where
  "loggerLevelToStr LOG_LEVEL_ERROR = ''ERROR''"
| "loggerLevelToStr LOG_LEVEL_WARN = ''WARN''"
| "loggerLevelToStr LOG_LEVEL_INFO = ''INFO''"
| "loggerLevelToStr LOG_LEVEL_DEBUG = ''DEBUG''"

text \<open>\<open>snprintf(m + offset, n, ...)\<close> into a block, with its NUL.\<close>

definition snprintf_at :: "string \<Rightarrow> nat \<Rightarrow> nat \<Rightarrow> string \<Rightarrow> string res" where
  "snprintf_at m offset n s =
     (if n = 0 then Inr m
      else let t = take (n - 1) s @ [NUL]
        in if offset + length t \<le> length m then Inr (store m offset t) else Inl OutOfBounds)"

definition messageLine :: "string \<Rightarrow> logLevel \<Rightarrow> string \<Rightarrow> nat \<Rightarrow> string \<Rightarrow> string" where
  "messageLine datetime level codeFileName codeLine message =
     datetime @ '' | '' @ loggerLevelToStr level @ '' | '' @ codeFileName @ '':'' @ decimal codeLine @
     '' | '' @ message"

text \<open>
  \<open>logMessage\<close> up to the write: the block \<open>fullMessage\<close>, whose cells are \<open>m\<close> before it is filled;
  \<open>err\<close> is the text of \<open>errno\<close> when that is not 0.
\<close>

definition logMessage :: "(nat \<Rightarrow> string) \<Rightarrow> string \<Rightarrow> logLevel \<Rightarrow> bool \<Rightarrow> string option \<Rightarrow> string \<Rightarrow> nat \<Rightarrow>
    string \<Rightarrow> string res" where
  "logMessage m datetime level showErrno err codeFileName codeLine message =
     (let line = messageLine datetime level codeFileName codeLine message;
          shown = (if showErrno then err else None);
          lenFullMessage = length line + (case shown of None \<Rightarrow> 0 | Some t \<Rightarrow> length ('' | '' @ t)) + 1
      in res_bind (snprintf_at (m lenFullMessage) 0 lenFullMessage line) (\<lambda>m1.
         res_bind (case shown of
             None \<Rightarrow> Inr m1
           | Some t \<Rightarrow> snprintf_at m1 (length line) (lenFullMessage - length line) ('' | '' @ t)) (\<lambda>m2.
         poke m2 (lenFullMessage - 1) LF)))"

end
