(* ===== verification/Options.thy ===== *)
theory Options
  imports Logger
begin

text \<open>
  The start of the server, \<open>src/options.c\<close> and \<open>include/options.h\<close>: the options of the command
  line, which also set up the logger. What \<open>getopt_long\<close> returns, one option and its \<open>optarg\<close> at a
  time, is an argument (an option without an argument has the empty string), and so are the
  working directory and the date.
\<close>

section \<open>Numbers\<close>

definition decDigit :: "char \<Rightarrow> bool" where
  "decDigit c \<longleftrightarrow> (let n = of_char c :: nat in 48 \<le> n \<and> n \<le> 57)"

definition decValue :: "string \<Rightarrow> int" where
  "decValue s = foldl (\<lambda>v c. 10 * v + (int (of_char c) - 48)) 0 s"

text \<open>\<open>strtol\<close> stays within 64 bits, and \<open>atoi\<close> takes 32 of them.\<close>

definition strtol :: "string \<Rightarrow> int" where
  "strtol s =
     (let t = dropWhile space s;
          negative = (t \<noteq> [] \<and> hd t = CHR ''-'');
          u = (if t \<noteq> [] \<and> (hd t = CHR ''-'' \<or> hd t = CHR ''+'') then tl t else t);
          v = decValue (takeWhile decDigit u)
      in max (- (2 ^ 63)) (min (2 ^ 63 - 1) (if negative then - v else v)))"

definition atoi :: "string \<Rightarrow> 32 word" where
  "atoi s = word_of_int (strtol s)"

section \<open>Options\<close>

record Options =
  address :: string       \<comment> \<open>\<open>char[INET6_ADDRSTRLEN]\<close>\<close>
  port :: "16 word"
  optHtmlDir :: string    \<comment> \<open>\<open>char[OPTIONS_PATH_MAX]\<close>\<close>
  TCPKeepAlive :: bool

datatype stop = Broken c_error | Exit nat | Abort

definition within :: "'a res \<Rightarrow> stop + 'a" where
  "within r = (case r of Inl e \<Rightarrow> Inl (Broken e) | Inr x \<Rightarrow> Inr x)"

definition loggerOption :: "string \<Rightarrow> Options \<times> logging \<Rightarrow> stop + (Options \<times> logging)" where
  "loggerOption loggerPath st =
     (case st of (opts, l) \<Rightarrow>
        res_bind (within (strCopySafe 1024 loggerPath)) (\<lambda>p.
        res_bind (within (strCopySafe 15 (getLoggerFileName (today l)))) (\<lambda>n.
        Inr (opts, l\<lparr>logActive := True, logPath := p, logFile := n\<rparr>))))"

definition optionStep :: "char \<times> string \<Rightarrow> Options \<times> logging \<Rightarrow> stop + (Options \<times> logging)" where
  "optionStep x st =
     (case (x, st) of ((command, optarg), (opts, l)) \<Rightarrow>
        if command = CHR ''a'' then
          res_bind (within (strCopySafe 46 optarg)) (\<lambda>a. Inr (opts\<lparr>address := a\<rparr>, l))
        else if command = CHR ''p'' then Inr (opts\<lparr>port := ucast (atoi optarg)\<rparr>, l)
        else if command = CHR ''d'' then
          res_bind (within (strCopySafe 4096 optarg)) (\<lambda>d. Inr (opts\<lparr>optHtmlDir := d\<rparr>, l))
        else if command = CHR ''l'' then loggerOption ''/var/log/ub-server/'' st
        else if command = CHR ''t'' then loggerOption optarg st
        else if command = CHR ''h'' then Inl (Exit 0)
        else if command = CHR ''?'' then Inl (Exit 1)
        else Inl Abort)"

fun optionLoop :: "(char \<times> string) list \<Rightarrow> Options \<times> logging \<Rightarrow> stop + (Options \<times> logging)" where
  "optionLoop [] st = Inr st"
| "optionLoop (x # xs) st = res_bind (optionStep x st) (optionLoop xs)"

definition getOptions :: "string \<Rightarrow> string \<Rightarrow> (char \<times> string) list \<Rightarrow> fs \<Rightarrow> nat \<Rightarrow>
    stop + (Options \<times> logging)" where
  "getOptions dir d args files n =
     (if 4096 \<le> length dir then Inl (Broken (Died ''HtmlDir getcwd() error''))
      else if 4096 < length dir + 8 then Inl (Broken OutOfBounds)
      else optionLoop args (\<lparr>address = ''localhost'', port = 3001,
        optHtmlDir = snprintf (length dir + 8) (dir @ ''/public''), TCPKeepAlive = False\<rparr>,
        startLogging files d n))"

section \<open>What the options decide\<close>

text \<open>The last option that says something about a value decides it.\<close>

fun lastBy :: "('a \<Rightarrow> 'b option) \<Rightarrow> 'a list \<Rightarrow> 'b option" where
  "lastBy f [] = None"
| "lastBy f (x # xs) = (case lastBy f xs of None \<Rightarrow> f x | Some y \<Rightarrow> Some y)"

definition given :: "char \<Rightarrow> char \<times> string \<Rightarrow> string option" where
  "given c x = (if fst x = c then Some (snd x) else None)"

definition loggerGiven :: "char \<times> string \<Rightarrow> string option" where
  "loggerGiven x = (if fst x = CHR ''l'' then Some ''/var/log/ub-server/'' else given CHR ''t'' x)"

definition chosen :: "Options \<Rightarrow> (char \<times> string) list \<Rightarrow> Options" where
  "chosen opts args = opts\<lparr>
     address := (case lastBy (given CHR ''a'') args of None \<Rightarrow> address opts | Some a \<Rightarrow> a),
     port := (case lastBy (given CHR ''p'') args of None \<Rightarrow> port opts | Some p \<Rightarrow> ucast (atoi p)),
     optHtmlDir := (case lastBy (given CHR ''d'') args of None \<Rightarrow> optHtmlDir opts | Some d \<Rightarrow> d)\<rparr>"

text \<open>The logger that writes to \<open>loggerPath\<close>.\<close>

definition logTo :: "string \<Rightarrow> logging \<Rightarrow> logging" where
  "logTo loggerPath s =
     s\<lparr>logActive := True, logPath := loggerPath, logFile := getLoggerFileName (today s)\<rparr>"

definition chosenLogger :: "logging \<Rightarrow> (char \<times> string) list \<Rightarrow> logging" where
  "chosenLogger l args = (case lastBy loggerGiven args of None \<Rightarrow> l | Some p \<Rightarrow> logTo p l)"

text \<open>The options that do not fit the arrays they are copied to, and those after which it goes on.\<close>

definition overlong :: "char \<times> string \<Rightarrow> bool" where
  "overlong x \<longleftrightarrow> fst x = CHR ''a'' \<and> 46 \<le> length (snd x) \<or> fst x = CHR ''d'' \<and> 4096 \<le> length (snd x) \<or>
     fst x = CHR ''t'' \<and> 1024 \<le> length (snd x)"

definition fine :: "char \<times> string \<Rightarrow> bool" where
  "fine x \<longleftrightarrow> fst x \<in> set ''apdlt'' \<and> \<not> overlong x"

definition stopOf :: "char \<times> string \<Rightarrow> stop" where
  "stopOf x = (if overlong x then Broken OutOfBounds else if fst x = CHR ''h'' then Exit 0
     else if fst x = CHR ''?'' then Exit 1 else Abort)"

lemma length_getLoggerFileName: "length (getLoggerFileName d) < 15"
  by (simp add: getLoggerFileName_def snprintf_def)

lemma loggerOption_eq:
  "loggerOption p (opts, l) = (if length p < 1024 then Inr (opts, logTo p l) else Inl (Broken OutOfBounds))"
  by (simp add: loggerOption_def strCopySafe_def within_def length_getLoggerFileName logTo_def)

lemma optionStep_eq:
  "optionStep x (opts, l) = (if fine x then Inr (chosen opts [x], chosenLogger l [x]) else Inl (stopOf x))"
  by (cases x) (auto simp: optionStep_def loggerOption_eq strCopySafe_def within_def fine_def overlong_def
      stopOf_def chosen_def chosenLogger_def given_def loggerGiven_def split: if_splits)

lemma chosen_Cons: "chosen (chosen opts [x]) xs = chosen opts (x # xs)"
  by (simp add: chosen_def split: option.split)

lemma chosenLogger_Cons: "chosenLogger (chosenLogger l [x]) xs = chosenLogger l (x # xs)"
  by (simp add: chosenLogger_def logTo_def split: option.split)

lemma optionLoop_eq:
  "optionLoop args (opts, l) = (case dropWhile fine args of
     [] \<Rightarrow> Inr (chosen opts args, chosenLogger l args) | x # _ \<Rightarrow> Inl (stopOf x))"
proof (induction args arbitrary: opts l)
  case Nil
  show ?case by (simp add: chosen_def chosenLogger_def)
next
  case (Cons x xs)
  then show ?case
    by (cases "dropWhile fine xs") (simp_all add: optionStep_eq chosen_Cons chosenLogger_Cons del: dropWhile_eq_Nil_conv)
qed

lemma getOptions_logger:
  assumes "getOptions dir d args files n = Inr (opts, s)"
  shows "s = chosenLogger (startLogging files d n) args"
  using assms by (auto simp: getOptions_def optionLoop_eq split: if_splits list.splits)

lemma getOptions_active:
  assumes "getOptions dir d args files n = Inr (opts, s)" "logActive s"
  shows "s = logTo (logPath s) (startLogging files d n)"
  using assms(2) getOptions_logger [OF assms(1)]
  by (auto simp: chosenLogger_def logTo_def startLogging_def split: option.splits)

section \<open>Ports\<close>

lemma decValue_append: "decValue (s @ [c]) = 10 * decValue s + (int (of_char c) - 48)"
  by (simp add: decValue_def)

lemma of_char_digit:
  assumes "n < 10"
  shows "(of_char (char_of (48 + n) :: char) :: nat) = 48 + n" "decDigit (char_of (48 + n))"
  using assms by (simp_all add: decDigit_def)

lemma decimal_value: "decValue (decimal n) = int n \<and> (\<forall>c \<in> set (decimal n). decDigit c) \<and> decimal n \<noteq> []"
proof (induction n rule: decimal.induct)
  case (1 n)
  show ?case
  proof (cases "n < 10")
    case True
    then show ?thesis
      using of_char_digit [of n] by (simp add: decimal.simps [of n] decValue_def)
  next
    case False
    then have "decimal n = decimal (n div 10) @ [char_of (48 + n mod 10)]" by (simp add: decimal.simps [of n])
    then show ?thesis
      using 1 [OF False] of_char_digit [of "n mod 10"] by (simp add: decValue_append zdiv_int zmod_int)
  qed
qed

lemma decDigit_plain: "decDigit c \<Longrightarrow> \<not> space c \<and> c \<noteq> CHR ''-'' \<and> c \<noteq> CHR ''+''"
  by (auto simp: decDigit_def space_def)

lemma strtol_decimal:
  assumes "n < 2 ^ 63"
  shows "strtol (decimal n) = int n"
proof -
  note d = decimal_value [of n]
  have "decDigit (hd (decimal n))" using d by simp
  then have "dropWhile space (decimal n) = decimal n" "hd (decimal n) \<noteq> CHR ''-''" "hd (decimal n) \<noteq> CHR ''+''"
    using decDigit_plain [of "hd (decimal n)"] d by (auto simp: dropWhile_eq_self_iff)
  moreover have "takeWhile decDigit (decimal n) = decimal n" using d by (simp add: takeWhile_eq_all_conv)
  ultimately show ?thesis using d assms by (simp add: strtol_def Let_def del: takeWhile_eq_all_conv)
qed

lemma port_decimal:
  assumes "n < 2 ^ 63"
  shows "(ucast (atoi (decimal n)) :: 16 word) = word_of_nat n"
proof -
  have "(ucast (word_of_int k :: 32 word) :: 16 word) = word_of_int k" for k
    by transfer simp
  from this [of "int n"] show ?thesis using strtol_decimal [OF assms] by (simp add: atoi_def)
qed

end
