(* ===== verification/Server.thy ===== *)
theory Server
  imports Options Event_Loop
begin

text \<open>
  From \<open>main\<close> to the running threads: \<open>src/main.c\<close>, \<open>serverRun\<close> of \<open>src/server.c\<close> and the part
  of \<open>acceptClientsThreadEpoll\<close> before the threads run.

  A run is the list of the system calls made, in order, with the end of the program or a result.
  What the operating system answers is the record \<open>os\<close>: the calls that fail, the address of a
  host and the number of processors. Addresses and ports are words; a port is passed to
  \<open>bind\<close> in network byte order.
\<close>

section \<open>Calls\<close>

datatype call =
    Sigaction
  | IgnoreSigpipe
  | Socket
  | SetReuseAddr
  | SetNoDelay
  | SetCork
  | GetHostByName string
  | Bind "32 word" "16 word"
  | SetNonBlocking
  | Listen int
  | Announce "32 word" nat
  | CountProcessors
  | EpollCreate
  | AddListening

record os =
  callFails :: "call \<Rightarrow> bool"
  hostByName :: "string \<Rightarrow> 32 word option"
  processors :: int

type_synonym 'a run = "call list \<times> (stop + 'a)"

definition andThen :: "'a run \<Rightarrow> ('a \<Rightarrow> 'b run) \<Rightarrow> 'b run" where
  "andThen m f =
     (case m of
        (cs, Inl e) \<Rightarrow> (cs, Inl e)
      | (cs, Inr x) \<Rightarrow> (case f x of (ds, r) \<Rightarrow> (cs @ ds, r)))"

text \<open>A call whose failure ends the program, and one whose result is not looked at.\<close>

definition orDie :: "os \<Rightarrow> call \<Rightarrow> string \<Rightarrow> unit run" where
  "orDie os c m = ([c], if callFails os c then Inl (Broken (die m)) else Inr ())"

definition ignored :: "call \<Rightarrow> unit run" where
  "ignored c = ([c], Inr ())"

section \<open>The server\<close>

unbundle bit_operations_syntax

definition htons :: "16 word \<Rightarrow> 16 word" where
  "htons p = (push_bit 8 p OR drop_bit 8 p)"

definition startThreads :: "os \<Rightarrow> int \<Rightarrow> fs \<Rightarrow> sys run" where
  "startThreads os time0 files =
     andThen ([CountProcessors], if processors os < 0
       then Inl (Broken (die (''sysconf n'' @ [CHR 0xC2, CHR 0xBA] @ '' processors failed''))) else Inr (processors os)) (\<lambda>n.
     andThen (orDie os EpollCreate ''epoll_create failed'') (\<lambda>_.
     andThen (orDie os AddListening ''EPOLL_CTL_ADD failed'') (\<lambda>_.
     ([], Inr (acceptClientsThreadEpoll (nat n) time0 files)))))"

definition gethostbyname :: "os \<Rightarrow> string \<Rightarrow> 32 word run" where
  "gethostbyname os a = ([GetHostByName a],
     case hostByName os a of
       None \<Rightarrow> Inl (Broken (die (''gethostbyname '' @ a @ '' failed'')))
     | Some addr \<Rightarrow> Inr addr)"

definition serverRun :: "os \<Rightarrow> Options \<Rightarrow> int \<Rightarrow> fs \<Rightarrow> sys run" where
  "serverRun os opts time0 files =
     andThen (orDie os Socket ''socket'') (\<lambda>_.
     andThen (orDie os SetReuseAddr ''setsockopt SO_REUSEADDR'') (\<lambda>_.
     andThen (orDie os SetNoDelay ''setsockopt TCP_NODELAY'') (\<lambda>_.
     andThen (orDie os SetCork ''setsockopt TCP_CORK'') (\<lambda>_.
     andThen (gethostbyname os (address opts)) (\<lambda>addr.
     let sin_port = htons (port opts) in
     andThen (orDie os (Bind addr sin_port) ''bind'') (\<lambda>_.
     andThen (ignored SetNonBlocking) (\<lambda>_.
     andThen (orDie os (Listen 4096) ''listen'') (\<lambda>_.
     andThen (ignored (Announce addr (unat (htons sin_port)))) (\<lambda>_.
     startThreads os time0 files)))))))))"

definition main :: "os \<Rightarrow> string \<Rightarrow> string \<Rightarrow> (char \<times> string) list \<Rightarrow> fs \<Rightarrow> int \<Rightarrow>
    (Options \<times> logging \<times> sys) run" where
  "main os dir d args files time0 =
     andThen ([], getOptions dir d args files (nat (processors os))) (\<lambda>(opts, log).
     andThen (orDie os Sigaction ''sigaction SIGINT failed'') (\<lambda>_.
     andThen (ignored IgnoreSigpipe) (\<lambda>_.
     andThen (serverRun os opts time0 files) (\<lambda>s. ([], Inr (opts, log, s))))))"

end
