(* ===== verification/Logger_Correct.thy ===== *)
theory Logger_Correct
  imports Logger
begin

text \<open>
  The invariant of the logger: while no thread takes the initialisation back under another that
  is about to write, every message goes to a log file.
\<close>

section \<open>Tables of descriptors\<close>

text \<open>
  What \<open>open\<close> and \<open>close\<close> promise: a new descriptor was free, nothing else changes, and the
  descriptor closed last is the next one given out when it was the last one opened.
\<close>

locale descriptor_table =
  fixes entry :: "'t \<Rightarrow> nat \<Rightarrow> 'x option" and opens :: "'x \<Rightarrow> 't \<Rightarrow> nat \<times> 't" and shuts :: "nat \<Rightarrow> 't \<Rightarrow> 't"
  assumes open_free: "opens x t = (fd, t') \<Longrightarrow> entry t fd = None"
    and open_entry: "opens x t = (fd, t') \<Longrightarrow> entry t' = (entry t)(fd := Some x)"
    and shut_entry: "entry (shuts fd t) = (entry t)(fd := None)"
    and open_again: "opens x t = (fd, t') \<Longrightarrow> fst (opens y (shuts fd t')) = fd"
begin

lemma survives_open: "entry t fd = Some y \<Longrightarrow> opens x t = (fd', t') \<Longrightarrow> entry t' fd = Some y"
  using open_free [of x t fd' t'] open_entry [of x t fd' t'] by auto

lemma survives_shut: "entry t fd = Some y \<Longrightarrow> entry t fd' \<noteq> Some y \<Longrightarrow> entry (shuts fd' t) fd = Some y"
  by (auto simp: shut_entry)

lemma taken_over:
  assumes "opens x t = (fd, t')" "opens y (shuts fd t') = (fd', t'')"
  shows "fd' = fd \<and> entry t'' fd = Some y"
  using open_again [OF assms(1), of y] open_entry [OF assms(2)] assms(2) by simp

end

text \<open>The list of the model is such a table.\<close>

lemma lowestFree_le: "lowestFree ds \<le> length ds"
  by (induction ds rule: lowestFree.induct) auto

lemma lowestFree_free: "lookupFd ds (lowestFree ds) = None"
  by (induction ds rule: lowestFree.induct) (auto simp: lookupFd_def)

lemma openFd_lookup:
  assumes "openFd t ds = (fd, ds')"
  shows "lookupFd ds fd = None" "lookupFd ds' = (lookupFd ds)(fd := Some t)"
proof -
  have fd: "fd = lowestFree ds" and ds': "ds' = (if fd < length ds then ds[fd := Some t] else ds @ [Some t])"
    using assms by (auto simp: openFd_def Let_def)
  show "lookupFd ds fd = None" by (simp add: fd lowestFree_free)
  show "lookupFd ds' = (lookupFd ds)(fd := Some t)"
    using lowestFree_le [of ds] fd
    by (auto simp: ds' lookupFd_def fun_eq_iff nth_list_update nth_append)
qed

lemma shutFd_lookup: "lookupFd (shutFd fd ds) = (lookupFd ds)(fd := None)"
  by (auto simp: lookupFd_def shutFd_def fun_eq_iff nth_list_update)

lemma openFd_again:
  assumes "openFd t ds = (fd, ds')"
  shows "fst (openFd u (shutFd fd ds')) = fd"
proof -
  have "lowestFree (shutFd (lowestFree ds) (if lowestFree ds < length ds
      then ds[lowestFree ds := Some t] else ds @ [Some t])) = lowestFree ds"
  proof (induction ds rule: lowestFree.induct)
    case (3 u ds)
    then show ?case by (simp add: shutFd_def split: if_splits)
  qed (simp_all add: shutFd_def)
  then show ?thesis using assms by (auto simp: openFd_def Let_def)
qed

interpretation fds: descriptor_table lookupFd openFd shutFd
proof
  show "openFd x t = (fd, t') \<Longrightarrow> lookupFd t fd = None"
    "openFd x t = (fd, t') \<Longrightarrow> lookupFd t' = (lookupFd t)(fd := Some x)" for x t fd t'
    by (fact openFd_lookup)+
qed (fact shutFd_lookup openFd_again)+

section \<open>The invariant\<close>

text \<open>The threads that hold the mutex, those that rely on the open file, and the files of some days.\<close>

fun critical :: "point \<Rightarrow> bool" where
  "critical (Inside new) = True"
| "critical (MakingPath new) = True"
| "critical (Closing new full) = True"
| "critical (Naming new full) = True"
| "critical (Opening full) = True"
| "critical Publishing = True"
| "critical Unlocking = True"
| "critical p = False"

fun relies :: "point \<Rightarrow> bool" where
  "relies Unlocking = True"
| "relies Returning = True"
| "relies (Writing fd) = True"
| "relies p = False"

definition dayFile :: "string set \<Rightarrow> logging \<Rightarrow> fdTarget option \<Rightarrow> bool" where
  "dayFile D s t \<longleftrightarrow> (\<exists>d \<in> D. t = Some (LogFile (getLoggerCurrentFullPath (logPath s) d)))"

fun point_ok :: "string set \<Rightarrow> logging \<Rightarrow> point \<Rightarrow> bool" where
  "point_ok D s (MakingPath new) \<longleftrightarrow> \<not> initialized s"
| "point_ok D s (Closing new full) \<longleftrightarrow> \<not> initialized s \<and> dayFile D s (Some (LogFile full))"
| "point_ok D s (Naming new full) \<longleftrightarrow> \<not> initialized s \<and> dayFile D s (Some (LogFile full))"
| "point_ok D s (Opening full) \<longleftrightarrow> \<not> initialized s \<and> dayFile D s (Some (LogFile full))"
| "point_ok D s Publishing \<longleftrightarrow> \<not> initialized s \<and> dayFile D s (lookupFd (descriptors s) (fileFd s))"
| "point_ok D s Unlocking \<longleftrightarrow> initialized s"
| "point_ok D s Returning \<longleftrightarrow> initialized s"
| "point_ok D s (Writing fd) \<longleftrightarrow> initialized s \<and> fd = fileFd s"
| "point_ok D s p \<longleftrightarrow> True"

definition log_ok :: "string set \<Rightarrow> logging \<Rightarrow> bool" where
  "log_ok D s \<longleftrightarrow> logActive s \<and> today s \<in> D \<and>
     (initialized s \<longrightarrow> dayFile D s (lookupFd (descriptors s) (fileFd s))) \<and>
     (\<forall>i < length (points s). point_ok D s (points s ! i) \<and>
        (critical (points s ! i) \<longleftrightarrow> mutex s = Some i)) \<and>
     (\<forall>(m, t) \<in> set (logged s). dayFile D s t)"

text \<open>No thread takes the initialisation back while another one relies on it.\<close>

definition calm :: "logging \<Rightarrow> bool" where
  "calm s \<longleftrightarrow> (\<forall>i < length (points s). \<forall>j < length (points s). \<forall>new.
     points s ! i = Resetting new \<longrightarrow> i \<noteq> j \<longrightarrow> \<not> relies (points s ! j))"

lemma jump_fields [simp]:
  "initialized (jump i p s) = initialized s" "mutex (jump i p s) = mutex s"
  "logActive (jump i p s) = logActive s" "logPath (jump i p s) = logPath s"
  "logFile (jump i p s) = logFile s" "fileFd (jump i p s) = fileFd s"
  "descriptors (jump i p s) = descriptors s" "today (jump i p s) = today s"
  "points (jump i p s) = (points s)[i := p]" "logged (jump i p s) = logged s"
  "disk (jump i p s) = disk s"
  by (simp_all add: jump_def)

lemma log_ok_point: "log_ok D s \<Longrightarrow> i < length (points s) \<Longrightarrow> point_ok D s (points s ! i)"
  and log_ok_critical: "log_ok D s \<Longrightarrow> i < length (points s) \<Longrightarrow>
    critical (points s ! i) \<longleftrightarrow> mutex s = Some i"
  by (simp_all add: log_ok_def)

text \<open>A step of thread \<open>i\<close> to the point \<open>p\<close>.\<close>

lemma log_ok_jump:
  assumes "log_ok D s" "i < length (points s)"
    "logActive s' = logActive s" "today s' = today s" "logPath s' = logPath s" "points s' = (points s)[i := p]"
    "initialized s' \<longrightarrow> dayFile D s (lookupFd (descriptors s') (fileFd s'))"
    "point_ok D s' p" "critical p \<longleftrightarrow> mutex s' = Some i"
    "\<And>j. j < length (points s) \<Longrightarrow> j \<noteq> i \<Longrightarrow> point_ok D s (points s ! j) \<Longrightarrow>
      point_ok D s' (points s ! j) \<and> (mutex s' = Some j \<longleftrightarrow> mutex s = Some j)"
    "\<forall>(m, t) \<in> set (logged s'). dayFile D s t"
  shows "log_ok D s'"
proof -
  have d: "dayFile D s' t = dayFile D s t" for t using assms(5) by (simp add: dayFile_def)
  have "point_ok D s' (points s' ! j) \<and> (critical (points s' ! j) \<longleftrightarrow> mutex s' = Some j)"
    if j: "j < length (points s)" for j
  proof (cases "j = i")
    case True
    then show ?thesis using assms(2,6,8,9) by simp
  next
    case False
    then show ?thesis
      using assms(6) assms(10) [OF j False log_ok_point [OF assms(1) j]] log_ok_critical [OF assms(1) j]
      by simp
  qed
  then show ?thesis using assms d by (simp add: log_ok_def)
qed

text \<open>Other threads when nothing their point speaks about changes.\<close>

lemma point_ok_cong:
  assumes "logPath s' = logPath s" "initialized s' = initialized s" "fileFd s' = fileFd s"
    "p = Publishing \<Longrightarrow> lookupFd (descriptors s') (fileFd s) = lookupFd (descriptors s) (fileFd s)"
  shows "point_ok D s' p = point_ok D s p"
  using assms by (cases p) (simp_all add: dayFile_def)

lemma other_critical:
  assumes "log_ok D s" "i < length (points s)" "j < length (points s)" "j \<noteq> i" "critical (points s ! i)"
  shows "\<not> critical (points s ! j)"
  using assms(4,5) log_ok_critical [OF assms(1,2)] log_ok_critical [OF assms(1,3)] by simp

lemma point_ok_reset: "\<not> relies p \<Longrightarrow> point_ok D s p \<Longrightarrow> point_ok D (s\<lparr>initialized := False\<rparr>) p"
  by (cases p) (simp_all add: dayFile_def)

lemma point_ok_published: "\<not> critical p \<Longrightarrow> point_ok D s p \<Longrightarrow> point_ok D (s\<lparr>initialized := True\<rparr>) p"
  by (cases p) simp_all

lemma point_ok_rotating:
  assumes "\<not> critical p" "point_ok D s p" "\<not> initialized s" "initialized s' = initialized s"
  shows "point_ok D s' p"
  using assms by (cases p) simp_all

lemma dayFile_cong: "logPath s' = logPath s \<Longrightarrow> dayFile D s' = dayFile D s"
  by (simp add: dayFile_def fun_eq_iff)

lemma point_ok_updates [simp]:
  "point_ok D (jump i q s) p = point_ok D s p" "point_ok D (s\<lparr>mutex := x\<rparr>) p = point_ok D s p"
  "point_ok D (s\<lparr>disk := y\<rparr>) p = point_ok D s p" "point_ok D (s\<lparr>logFile := n\<rparr>) p = point_ok D s p"
  "point_ok D (s\<lparr>logged := l\<rparr>) p = point_ok D s p"
  by (rule point_ok_cong; simp)+

text \<open>The next state of thread \<open>i\<close>, for a change of the shared state to \<open>u\<close>.\<close>

lemma log_ok_new:
  assumes "log_ok D s" "i < length (points s)"
    "points u = points s" "logActive u = logActive s" "today u = today s" "logPath u = logPath s"
    "initialized u \<longrightarrow> dayFile D s (lookupFd (descriptors u) (fileFd u))" "point_ok D u p"
    "critical p \<longleftrightarrow> mutex u = Some i"
    "\<And>j. j < length (points s) \<Longrightarrow> j \<noteq> i \<Longrightarrow> point_ok D s (points s ! j) \<Longrightarrow>
      point_ok D u (points s ! j) \<and> (mutex u = Some j \<longleftrightarrow> mutex s = Some j)"
    "\<forall>(m, t) \<in> set (logged u). dayFile D s t"
  shows "log_ok D (jump i p u)"
  by (rule log_ok_jump [OF assms(1,2)]) (use assms in simp_all)

lemma log_okD:
  assumes "log_ok D s" "i < length (points s)"
  shows "logActive s" "today s \<in> D" "\<forall>(m, t) \<in> set (logged s). dayFile D s t"
    "initialized s \<longrightarrow> dayFile D s (lookupFd (descriptors s) (fileFd s))"
    "point_ok D s (points s ! i)" "critical (points s ! i) \<longleftrightarrow> mutex s = Some i"
  using assms by (simp_all add: log_ok_def)

lemma log_ok_plain:
  assumes "log_ok D s" "i < length (points s)" "point_ok D s p" "critical p = critical (points s ! i)"
  shows "log_ok D (jump i p s)"
  by (rule log_ok_new [OF assms(1,2)]) (use log_okD [OF assms(1,2)] assms(3,4) in simp_all)

lemma unlocked_keeps_log:
  assumes "log_ok D s" "i < length (points s)" "logger_step e refuses m i s = Some (Inr s')"
    "calm s" "\<not> critical (points s ! i)"
  shows "log_ok D s'"
proof -
  note inv = log_okD [OF assms(1,2)] and plain = log_ok_plain [OF assms(1,2)]
    and new = log_ok_new [OF assms(1,2)] and other = other_critical [OF assms(1,2)]
  note st = assms(3) [unfolded logger_step_def]
  show ?thesis
  proof (cases "points s ! i")
    case Outside
    then show ?thesis using st inv plain by auto
  next
    case (Comparing new)
    then show ?thesis using st plain by auto
  next
    case (Resetting n)
    then have s': "s' = jump i (Testing n) (s\<lparr>initialized := False\<rparr>)" using st by simp
    have "\<not> relies (points s ! j)" if "j < length (points s)" "j \<noteq> i" for j
      using assms(2,4) Resetting that by (auto simp: calm_def)
    then show ?thesis
      unfolding s' by (intro new) (use inv Resetting in \<open>auto intro: point_ok_reset\<close>)
  next
    case (Testing n)
    then show ?thesis using st plain by (auto split: if_splits)
  next
    case (Locking n)
    then have s': "mutex s = None" "s' = jump i (Inside n) (s\<lparr>mutex := Some i\<rparr>)"
      using st by (simp_all split: if_splits)
    show ?thesis
      unfolding s'(2) by (intro new) (use s'(1) inv in auto)
  next
    case Returning
    then show ?thesis using st plain inv by auto
  next
    case (Writing fd)
    then have s': "s' = jump i Outside (s\<lparr>logged := logged s @ [(m, lookupFd (descriptors s) fd)]\<rparr>)"
      using st by simp
    show ?thesis
      unfolding s' by (intro new)
        (use inv Writing in auto)
  qed (use assms(5) in simp_all)
qed

lemma locked_keeps_log:
  assumes "log_ok D s" "i < length (points s)" "logger_step e refuses m i s = Some (Inr s')"
    "critical (points s ! i)"
  shows "log_ok D s'"
proof -
  note inv = log_okD [OF assms(1,2)] and plain = log_ok_plain [OF assms(1,2)]
    and new = log_ok_new [OF assms(1,2)] and other = other_critical [OF assms(1,2)]
  note st = assms(3) [unfolded logger_step_def]
  show ?thesis
  proof (cases "points s ! i")
    case (Inside n)
    then show ?thesis using st plain by (auto split: if_splits)
  next
    case (MakingPath n)
    then obtain d where s': "s' = jump i (Closing n (getLoggerCurrentFullPath (logPath s) (today s))) (s\<lparr>disk := d\<rparr>)"
      using st by (auto simp: Let_def res_bind_Inr_iff split: if_splits)
    show ?thesis
      unfolding s' by (intro new)
        (use inv MakingPath in \<open>auto simp: dayFile_def\<close>)
  next
    case (Closing n full)
    then have s': "s' = jump i (Naming n full) (s\<lparr>descriptors := shutFd (fileFd s) (descriptors s)\<rparr>)"
      using st by simp
    show ?thesis
      unfolding s' by (intro new)
        (use inv Closing other in \<open>auto simp: dayFile_def intro: point_ok_rotating\<close>)
  next
    case (Naming n full)
    then have s': "s' = jump i (Opening full) (s\<lparr>logFile := snprintf 15 n\<rparr>)" using st by simp
    show ?thesis
      unfolding s' by (intro new)
        (use inv Naming in \<open>auto simp: dayFile_def\<close>)
  next
    case (Opening full)
    then obtain fd ds where o: "openFd (LogFile full) (descriptors s) = (fd, ds)"
      and s': "s' = jump i Publishing (s\<lparr>fileFd := fd, descriptors := ds\<rparr>)"
      using st by (auto split: if_splits prod.splits)
    show ?thesis
      unfolding s' by (intro new)
        (use inv Opening other fds.open_entry [OF o] in
          \<open>auto simp: dayFile_def intro: point_ok_rotating\<close>)
  next
    case Publishing
    then have s': "s' = jump i Unlocking (s\<lparr>initialized := True\<rparr>)" using st by simp
    show ?thesis
      unfolding s' by (intro new)
        (use inv Publishing other in \<open>auto intro: point_ok_published\<close>)
  next
    case Unlocking
    then have s': "s' = jump i Returning (s\<lparr>mutex := None\<rparr>)" using st by simp
    show ?thesis
      unfolding s' by (intro new) (use inv Unlocking in auto)
  qed (use assms(4) in simp_all)
qed

lemma thread_keeps_log:
  assumes "log_ok D s" "calm s" "i < length (points s)" "logger_step e refuses m i s = Some (Inr s')"
  shows "log_ok D s'"
  using unlocked_keeps_log [OF assms(1,3,4,2)] locked_keeps_log [OF assms(1,3,4)] by blast

text \<open>The other code of the process: a client's descriptor is none of the logger's.\<close>

lemma dayFile_SomeD: "dayFile D s t \<Longrightarrow> \<exists>file. t = Some (LogFile file)"
  by (auto simp: dayFile_def)

lemma log_ok_descriptors:
  assumes "log_ok D s" "s' = s\<lparr>descriptors := ds\<rparr>"
    "\<And>file. lookupFd (descriptors s) (fileFd s) = Some (LogFile file) \<Longrightarrow>
      lookupFd ds (fileFd s) = Some (LogFile file)"
  shows "log_ok D s'"
proof -
  have keep: "dayFile D s (lookupFd ds (fileFd s))" if "dayFile D s (lookupFd (descriptors s) (fileFd s))"
    using assms(3) dayFile_SomeD [OF that] that by auto
  have "point_ok D s' p" if "point_ok D s p" for p
    using that keep by (cases p) (simp_all add: assms(2) dayFile_cong [of s' s] dayFile_def)
  then show ?thesis using assms(1) keep by (auto simp: log_ok_def assms(2) dayFile_def)
qed

lemma step_keeps_log:
  assumes "log_step e refuses s (Inr s')" "log_ok D s" "calm s" "today s' \<in> D"
  shows "log_ok D s'"
  using assms(1)
proof (cases rule: log_stepE)
  case (Thread i m)
  then show ?thesis by (rule thread_keeps_log [OF assms(2,3)])
next
  case (Midnight d)
  have "point_ok D s' p = point_ok D s p" for p by (rule point_ok_cong) (simp_all add: Midnight)
  then show ?thesis using assms(2,4) by (auto simp: log_ok_def Midnight dayFile_def)
next
  case (Opened c fd ds)
  then show ?thesis
    by (intro log_ok_descriptors [OF assms(2) Opened(1)]) (rule fds.survives_open)
next
  case (Closed fd c)
  then show ?thesis
    by (intro log_ok_descriptors [OF assms(2) Closed(1)]) (simp add: fds.survives_shut)
qed

end
