(* ===== verification/Logger_Properties.thy ===== *)
theory Logger_Properties
  imports Logger_Correct Options
begin

text \<open>
  The properties of the start and of the logger: what the options decide, where messages go with
  one thread, with several threads on one day, and with several threads at midnight, and the text
  that is written.
\<close>

section \<open>Runs\<close>

definition log_reaches :: "env \<Rightarrow> (string \<Rightarrow> bool) \<Rightarrow> logging \<Rightarrow> logging \<Rightarrow> bool" where
  "log_reaches e refuses = (\<lambda>s s'. log_step e refuses s (Inr s'))\<^sup>*\<^sup>*"

text \<open>A step that leaves the date.\<close>

definition day_step :: "env \<Rightarrow> (string \<Rightarrow> bool) \<Rightarrow> logging \<Rightarrow> logging \<Rightarrow> bool" where
  "day_step e refuses s s' \<longleftrightarrow> log_step e refuses s (Inr s') \<and> today s' = today s"

text \<open>\<open>k\<close> steps of thread \<open>i\<close>, which logs \<open>m\<close>.\<close>

primrec thread_steps :: "nat \<Rightarrow> env \<Rightarrow> (string \<Rightarrow> bool) \<Rightarrow> string \<Rightarrow> nat \<Rightarrow> logging \<Rightarrow> logging option" where
  "thread_steps 0 e refuses m i s = Some s"
| "thread_steps (Suc k) e refuses m i s =
     (case logger_step e refuses m i s of
        Some (Inr s') \<Rightarrow> thread_steps k e refuses m i s'
      | _ \<Rightarrow> None)"

lemma length_points_step:
  assumes "logger_step e refuses m i s = Some (Inr s')"
  shows "length (points s') = length (points s)" "logPath s' = logPath s" "today s' = today s"
  using assms by (auto simp: logger_step_def Let_def res_bind_Inr_iff
      split: point.splits if_splits prod.splits)

lemma log_reaches_refl [simp]: "log_reaches e refuses s s"
  by (simp add: log_reaches_def)

lemma log_reaches_trans:
  "log_reaches e refuses s s' \<Longrightarrow> log_reaches e refuses s' s'' \<Longrightarrow> log_reaches e refuses s s''"
  by (simp add: log_reaches_def)

lemma log_reaches_step: "log_step e refuses s (Inr s') \<Longrightarrow> log_reaches e refuses s s'"
  by (simp add: log_reaches_def r_into_rtranclp)

lemma day_reaches_thread:
  assumes "thread_steps k e refuses m i s = Some s'" "i < length (points s)"
  shows "(day_step e refuses)\<^sup>*\<^sup>* s s'"
  using assms
proof (induction k arbitrary: s)
  case (Suc k)
  from Suc.prems(1) obtain s1 where s1: "logger_step e refuses m i s = Some (Inr s1)"
    "thread_steps k e refuses m i s1 = Some s'"
    by (auto split: option.splits sum.splits)
  have "day_step e refuses s s1"
    using log_step.Thread [OF Suc.prems(2) s1(1)] length_points_step(3) [OF s1(1)] by (simp add: day_step_def)
  moreover have "(day_step e refuses)\<^sup>*\<^sup>* s1 s'"
    using Suc.IH [OF s1(2)] Suc.prems(2) length_points_step(1) [OF s1(1)] by simp
  ultimately show ?case by (rule converse_rtranclp_into_rtranclp)
qed simp

lemma log_reaches_thread:
  assumes "thread_steps k e refuses m i s = Some s'" "i < length (points s)"
  shows "log_reaches e refuses s s'"
  unfolding log_reaches_def
  by (rule mono_rtranclp [THEN mp, OF _ day_reaches_thread [OF assms]]) (simp add: day_step_def)

lemma thread_steps_add:
  "thread_steps k e refuses m i s = Some s1 \<Longrightarrow>
    thread_steps (k + l) e refuses m i s = thread_steps l e refuses m i s1"
  by (induction k arbitrary: s) (auto split: option.splits sum.splits)

lemma log_step_length:
  "log_step e refuses s (Inr s') \<Longrightarrow> length (points s') = length (points s) \<and> logPath s' = logPath s"
  by (erule log_stepE) (simp_all add: length_points_step)

lemma logTo_ok: "d \<in> D \<Longrightarrow> log_ok D (logTo dir (startLogging files d n))"
  by (simp add: log_ok_def logTo_def startLogging_def)

section \<open>One thread\<close>

lemma single_calm: "length (points s) = 1 \<Longrightarrow> calm s"
  by (simp add: calm_def)

lemma single_run:
  assumes "log_reaches e refuses s0 s" "log_ok UNIV s0" "length (points s0) = 1"
  shows "log_ok UNIV s \<and> length (points s) = 1 \<and> logPath s = logPath s0"
  using assms(1) unfolding log_reaches_def
proof (induction rule: rtranclp_induct)
  case base
  show ?case using assms(2,3) by simp
next
  case (step s1 s2)
  then show ?case using step_keeps_log [OF step.hyps(2)] log_step_length [OF step.hyps(2)] single_calm by simp
qed

section \<open>One day\<close>

text \<open>With the name of the day everywhere, no thread finds a difference.\<close>

fun carries :: "string \<Rightarrow> point \<Rightarrow> bool" where
  "carries n (Comparing new) \<longleftrightarrow> new = n"
| "carries n (Resetting new) \<longleftrightarrow> False"
| "carries n (Testing new) \<longleftrightarrow> new = n"
| "carries n (Locking new) \<longleftrightarrow> new = n"
| "carries n (Inside new) \<longleftrightarrow> new = n"
| "carries n (MakingPath new) \<longleftrightarrow> new = n"
| "carries n (Closing new full) \<longleftrightarrow> new = n"
| "carries n (Naming new full) \<longleftrightarrow> new = n"
| "carries n p \<longleftrightarrow> True"

definition one_day :: "string \<Rightarrow> logging \<Rightarrow> bool" where
  "one_day d s \<longleftrightarrow> logActive s \<and> today s = d \<and> logFile s = getLoggerFileName d \<and>
     (\<forall>p \<in> set (points s). carries (getLoggerFileName d) p)"

lemma getLoggerFileName_short [simp]: "snprintf 15 (getLoggerFileName d) = getLoggerFileName d"
  unfolding getLoggerFileName_def snprintf_def by (simp only: take_take min.idem)

lemma one_day_jump:
  assumes "one_day d s" "carries (getLoggerFileName d) p" "logActive s' = logActive s" "today s' = today s"
    "logFile s' = getLoggerFileName d" "points s' = (points s)[i := p]"
  shows "one_day d s'"
  using assms by (auto simp: one_day_def dest!: set_update_subset_insert [THEN subsetD])

lemma thread_keeps_day:
  assumes "one_day d s" "i < length (points s)" "logger_step e refuses m i s = Some (Inr s')"
  shows "one_day d s'"
proof -
  have c: "carries (getLoggerFileName d) (points s ! i)" "today s = d" "logFile s = getLoggerFileName d" "logActive s"
    using assms(1,2) by (simp_all add: one_day_def)
  have j: "carries (getLoggerFileName d) p \<Longrightarrow> logActive u = logActive s \<Longrightarrow> today u = today s \<Longrightarrow>
      logFile u = getLoggerFileName d \<Longrightarrow> points u = points s \<Longrightarrow> one_day d (jump i p u)" for p u
    by (rule one_day_jump [OF assms(1), of p _ i]) simp_all
  show ?thesis
    using assms(3) c
    by (auto simp: logger_step_def Let_def res_bind_Inr_iff
        split: point.splits if_splits prod.splits intro!: j [folded c(2)])
qed

lemma one_day_calm: "one_day d s \<Longrightarrow> calm s"
  unfolding one_day_def calm_def by (metis carries.simps(2) nth_mem)

lemma day_run:
  assumes "(day_step e refuses)\<^sup>*\<^sup>* s0 s" "log_ok {d} s0" "one_day d s0"
  shows "log_ok {d} s \<and> one_day d s \<and> logPath s = logPath s0"
  using assms(1)
proof (induction rule: rtranclp_induct)
  case base
  show ?case using assms(2,3) by simp
next
  case (step s1 s2)
  then have st: "log_step e refuses s1 (Inr s2)" "today s2 = today s1" by (simp_all add: day_step_def)
  have "today s1 = d" using step.IH by (simp add: one_day_def)
  then have "log_ok {d} s2"
    using step.IH st(2) step_keeps_log [OF st(1)] one_day_calm [of d s1] by simp
  moreover from st have "one_day d s2"
  proof (cases rule: log_stepE)
    case (Thread i m)
    then show ?thesis using step.IH by (blast intro: thread_keeps_day)
  qed (use step.IH st(2) in \<open>simp_all add: one_day_def\<close>)
  ultimately show ?case using step.IH log_step_length [OF st(1)] by simp
qed

section \<open>Midnight\<close>

definition no_trouble :: "(string \<Rightarrow> bool) \<Rightarrow> logging \<Rightarrow> bool" where
  "no_trouble refuses s \<longleftrightarrow> noSlash (logPath s) \<in> set (dirs (disk s)) \<and>
     \<not> refuses (getLoggerCurrentFullPath (logPath s) (today s))"

text \<open>A thread that has found the logger not initialised opens the file of the day.\<close>

lemma rotates:
  assumes "points s ! i = Testing new" "i < length (points s)" "\<not> initialized s" "mutex s = None"
    "no_trouble refuses s"
    "openFd (LogFile (getLoggerCurrentFullPath (logPath s) (today s))) (shutFd (fileFd s) (descriptors s)) = (fd, ds)"
  shows "thread_steps 9 e refuses m i s = Some (jump i Returning
    (s\<lparr>initialized := True, logFile := snprintf 15 new, fileFd := fd, descriptors := ds\<rparr>))"
proof -
  have "mkpath e (logPath s) (disk s) = Inr (True, disk s)"
    using assms(5) by (simp add: mkpath_def makeDirectory_def no_trouble_def)
  then show ?thesis
    using assms by (simp add: eval_nat_numeral logger_step_def jump_def no_trouble_def Let_def)
qed

text \<open>Behind \<open>getLoggerFileDescriptor\<close> the thread writes; before, it compares the names.\<close>

lemma writes:
  assumes "points s ! i = Returning" "i < length (points s)"
  shows "thread_steps 2 e refuses m i s =
    Some (jump i Outside (s\<lparr>logged := logged s @ [(m, lookupFd (descriptors s) (fileFd s))]\<rparr>))"
  using assms by (simp add: eval_nat_numeral logger_step_def jump_def)

lemma compares:
  assumes "points s ! i = Outside" "i < length (points s)" "logActive s"
  shows "getLoggerFileName (today s) = logFile s \<Longrightarrow>
      thread_steps 2 e refuses m i s = Some (jump i (Testing (getLoggerFileName (today s))) s)"
    and "getLoggerFileName (today s) \<noteq> logFile s \<Longrightarrow>
      thread_steps 2 e refuses m i s = Some (jump i (Resetting (getLoggerFileName (today s))) s)"
  using assms by (simp_all add: eval_nat_numeral logger_step_def jump_def)

lemma rotates_and_writes:
  assumes "points s ! i = Testing new" "i < length (points s)" "\<not> initialized s" "mutex s = None"
    "no_trouble refuses s"
  shows "\<exists>s'. thread_steps 11 e refuses m i s = Some s' \<and> points s' = (points s)[i := Outside] \<and>
    mutex s' = None \<and>
    logged s' = logged s @ [(m, Some (LogFile (getLoggerCurrentFullPath (logPath s) (today s))))]"
proof -
  obtain fd ds where o: "openFd (LogFile (getLoggerCurrentFullPath (logPath s) (today s)))
      (shutFd (fileFd s) (descriptors s)) = (fd, ds)" by fastforce
  let ?s = "jump i Returning
    (s\<lparr>initialized := True, logFile := snprintf 15 new, fileFd := fd, descriptors := ds\<rparr>)"
  have "thread_steps (9 + 2) e refuses m i s = thread_steps 2 e refuses m i ?s"
    by (rule thread_steps_add [OF rotates [OF assms o]])
  then show ?thesis
    using writes [of ?s i] assms(2,4) fds.open_entry [OF o] by (simp add: jump_def)
qed

text \<open>
  Thread \<open>i\<close> is about to write when thread \<open>j\<close> takes the initialisation back: it closes the file,
  and the next client has its descriptor.
\<close>

lemma late_reset:
  assumes "points s ! i = Writing (fileFd s)" "points s ! j = Resetting new" "i < length (points s)"
    "j < length (points s)" "i \<noteq> j" "mutex s = None" "no_trouble refuses s"
    "openFd f ds0 = (fileFd s, descriptors s)"
  shows "\<exists>s'. log_reaches e refuses s s' \<and> (m, Some (Client c)) \<in> set (logged s')"
proof -
  let ?ds = "shutFd (fileFd s) (descriptors s)"
  have mk: "mkpath e (logPath s) (disk s) = Inr (True, disk s)"
    using assms(7) by (simp add: mkpath_def makeDirectory_def no_trouble_def)
  define s1 where "s1 = jump j (Naming new (getLoggerCurrentFullPath (logPath s) (today s)))
    (s\<lparr>initialized := False, mutex := Some j, descriptors := ?ds\<rparr>)"
  define s2 where "s2 = s1\<lparr>descriptors := snd (openFd (Client c) ?ds)\<rparr>"
  define s3 where "s3 = jump i Outside (s2\<lparr>logged := logged s @ [(m, Some (Client c))]\<rparr>)"
  have "thread_steps 6 e refuses m j s = Some s1"
    using assms(2,4,6) mk by (simp add: s1_def eval_nat_numeral logger_step_def jump_def Let_def)
  then have "log_reaches e refuses s s1" using assms(4) by (rule log_reaches_thread)
  moreover have "log_reaches e refuses s1 s2"
    by (rule log_reaches_step)
      (simp add: s2_def s1_def log_step.Opened [of c _ "fst (openFd (Client c) ?ds)"])
  moreover have "log_reaches e refuses s2 s3"
  proof (rule log_reaches_thread [of 1 e refuses m i])
    have "lookupFd (descriptors s2) (fileFd s) = Some (Client c)"
      using fds.taken_over [OF assms(8), of "Client c"] by (cases "openFd (Client c) ?ds") (simp add: s2_def)
    then show "thread_steps 1 e refuses m i s2 = Some s3"
      using assms(1,5) by (simp add: s3_def s2_def s1_def logger_step_def jump_def)
    show "i < length (points s2)" using assms(3) by (simp add: s2_def s1_def)
  qed
  ultimately have "log_reaches e refuses s s3" by (blast intro: log_reaches_trans)
  then show ?thesis by (intro exI [of _ s3]) (simp add: s3_def)
qed

section \<open>A server to run\<close>

definition demoEnv :: env where
  "demoEnv = \<lparr>htmlDir = ''/srv/public'', cwd = ''/srv'', magic = (\<lambda>_. ''text/html''), gzip = (\<lambda>b. b),
     date = [], mkdirFails = (\<lambda>_. False)\<rparr>"

definition demoFiles :: fs where
  "demoFiles = \<lparr>nodes = (\<lambda>_. Absent), dirs = [''/var/log/ub-server''], opened = (\<lambda>_. None), nextFd = 0\<rparr>"

definition demoLog :: "nat \<Rightarrow> logging" where
  "demoLog n = logTo ''/var/log/ub-server/'' (startLogging demoFiles ''2022-05-01'' n)"

definition demoOptions :: Options where
  "demoOptions = \<lparr>address = ''localhost'', port = 3001, optHtmlDir = ''/srv/public'', TCPKeepAlive = False\<rparr>"

definition demoFile :: fdTarget where
  "demoFile = LogFile ''/var/log/ub-server/2022-05-01.log''"

lemma demo_file: "getLoggerCurrentFullPath ''/var/log/ub-server/'' ''2022-05-01'' = ''/var/log/ub-server/2022-05-01.log''"
  by code_simp

lemma demo_fields: "points (demoLog n) = replicate n Outside" "logActive (demoLog n)" "\<not> initialized (demoLog n)"
    "mutex (demoLog n) = None" "logPath (demoLog n) = ''/var/log/ub-server/''" "today (demoLog n) = ''2022-05-01''"
    "logFile (demoLog n) = getLoggerFileName ''2022-05-01''" "logged (demoLog n) = []"
    "dirs (disk (demoLog n)) = [''/var/log/ub-server'']"
  by (simp_all add: demoLog_def demoFiles_def logTo_def startLogging_def)

lemma demo_options:
  "getOptions ''/srv'' ''2022-05-01'' [(CHR ''l'', [])] demoFiles n = Inr (demoOptions, demoLog n)"
  by (simp add: getOptions_def optionStep_def loggerOption_eq demoOptions_def demoLog_def snprintf_def)

lemma demo_run:
  assumes "0 < n"
  shows "\<exists>s. thread_steps 13 demoEnv (\<lambda>_. False) ''Accepted'' 0 (demoLog n) = Some s \<and>
    logged s = [(''Accepted'', Some demoFile)]"
proof -
  let ?s = "jump 0 (Testing (getLoggerFileName ''2022-05-01'')) (demoLog n)"
  have "thread_steps (2 + 11) demoEnv (\<lambda>_. False) ''Accepted'' 0 (demoLog n) =
      thread_steps 11 demoEnv (\<lambda>_. False) ''Accepted'' 0 ?s"
    using compares(1) [of "demoLog n" 0] assms by (intro thread_steps_add) (simp add: demo_fields)
  moreover have "\<exists>s'. thread_steps 11 demoEnv (\<lambda>_. False) ''Accepted'' 0 ?s = Some s' \<and>
      points s' = (points ?s)[0 := Outside] \<and> mutex s' = None \<and>
      logged s' = logged ?s @ [(''Accepted'', Some (LogFile (getLoggerCurrentFullPath (logPath ?s) (today ?s))))]"
    by (rule rotates_and_writes) (use assms in \<open>simp_all add: demo_fields no_trouble_def noSlash_def\<close>)
  ultimately show ?thesis by (auto simp: demo_fields demo_file demoFile_def)
qed

section \<open>Properties\<close>

text \<open>
  C13: Every value comes from the last option that names it, and the first option that is unknown,
  asks for help or does not fit its array ends the program: copied by \<open>strCopySafe\<close>, an address
  of 46 characters or more runs over the array it goes to.
\<close>

theorem options_decide:
  assumes "length dir \<le> 4088"
  shows "getOptions dir d args files n =
    (case dropWhile fine args of
       [] \<Rightarrow> Inr (chosen \<lparr>address = ''localhost'', port = 3001, optHtmlDir = dir @ ''/public'',
           TCPKeepAlive = False\<rparr> args, chosenLogger (startLogging files d n) args)
     | x # _ \<Rightarrow> Inl (stopOf x))"
  using assms by (simp add: getOptions_def optionLoop_eq snprintf_def)

theorem options_decide_witness:
  "getOptions ''/srv'' ''2022-05-01'' [(CHR ''p'', ''80''), (CHR ''a'', replicate 46 CHR ''x'')] demoFiles 4 =
    (case dropWhile fine [(CHR ''p'', ''80''), (CHR ''a'', replicate 46 CHR ''x'')] of
       [] \<Rightarrow> Inr (chosen \<lparr>address = ''localhost'', port = 3001, optHtmlDir = ''/srv'' @ ''/public'',
           TCPKeepAlive = False\<rparr> [(CHR ''p'', ''80''), (CHR ''a'', replicate 46 CHR ''x'')],
           chosenLogger (startLogging demoFiles ''2022-05-01'' 4) [(CHR ''p'', ''80''), (CHR ''a'', replicate 46 CHR ''x'')])
     | x # _ \<Rightarrow> Inl (stopOf x))"
  by (rule options_decide) simp

text \<open>
  The port is the number after \<open>-p\<close> modulo 65536, without a check: a server asked for port
  65616 listens on port 80.
\<close>

theorem port_wraps:
  assumes "getOptions dir d args files n = Inr (opts, s)" "k < 2 ^ 63"
  shows "\<exists>opts'. getOptions dir d (args @ [(CHR ''p'', decimal k)]) files n = Inr (opts', s) \<and>
    unat (port opts') = k mod 65536"
proof -
  have "optionLoop args st = Inr (o', s) \<Longrightarrow>
      optionLoop (args @ [(CHR ''p'', decimal k)]) st = Inr (o'\<lparr>port := word_of_nat k\<rparr>, s)" for st o'
    using port_decimal [OF assms(2)] by (induction args arbitrary: st) (auto simp: optionStep_def)
  moreover have "unat (word_of_nat k :: 16 word) = k mod 65536" by (simp add: unat_of_nat)
  ultimately show ?thesis using assms(1) by (fastforce simp: getOptions_def split: if_splits)
qed

theorem port_wraps_witness:
  "\<exists>opts'. getOptions ''/srv'' ''2022-05-01'' ([(CHR ''l'', [])] @ [(CHR ''p'', decimal 65616)]) demoFiles 4 =
    Inr (opts', demoLog 4) \<and> unat (port opts') = 65616 mod 65536"
  by (rule port_wraps [OF demo_options]) simp

text \<open>
  A directory for the log that \<open>getOptions\<close> takes can be too long for \<open>mkpath\<close>: with 127
  characters or more, and not there yet, the first message of any thread overruns an array.
\<close>

theorem long_log_path_overruns:
  assumes "getOptions dir d args files n = Inr (opts, s0)" "logActive s0" "0 < n"
    and "127 \<le> length (logPath s0)" "noSlash (logPath s0) \<notin> set (dirs files)"
  shows "\<exists>s. log_reaches e refuses s0 s \<and> log_step e refuses s (Inl OutOfBounds)"
proof -
  note s0 = getOptions_active [OF assms(1,2)]
  have f: "points s0 = replicate n Outside" "\<not> initialized s0" "mutex s0 = None" "disk s0 = files"
    "logFile s0 = getLoggerFileName (today s0)"
    by (subst s0, simp add: logTo_def startLogging_def)+
  let ?N = "getLoggerFileName (today s0)"
  let ?s = "jump 0 (MakingPath ?N) (s0\<lparr>mutex := Some 0\<rparr>)"
  have "thread_steps 5 e refuses m 0 s0 = Some ?s" for m
    using assms(2,3) f by (simp add: eval_nat_numeral logger_step_def jump_def)
  then have "log_reaches e refuses s0 ?s" by (rule log_reaches_thread) (simp add: f assms(3))
  moreover have "log_step e refuses ?s (Inl OutOfBounds)"
    by (rule log_step.Thread [of 0 _ _ _ "[]"])
      (use assms(3-5) f in \<open>simp_all add: logger_step_def mkpath_def makeDirectory_def strCopySafe_def Let_def\<close>)
  ultimately show ?thesis by blast
qed

theorem long_log_path_overruns_witness:
  "\<exists>s. log_reaches demoEnv (\<lambda>_. False)
      (logTo (CHR ''/'' # replicate 126 CHR ''x'') (startLogging demoFiles ''2022-05-01'' 4)) s \<and>
    log_step demoEnv (\<lambda>_. False) s (Inl OutOfBounds)"
proof (rule long_log_path_overruns)
  show "getOptions ''/srv'' ''2022-05-01'' [(CHR ''t'', CHR ''/'' # replicate 126 CHR ''x'')] demoFiles 4 =
      Inr (demoOptions, logTo (CHR ''/'' # replicate 126 CHR ''x'') (startLogging demoFiles ''2022-05-01'' 4))"
    by (simp add: getOptions_def optionStep_def loggerOption_eq demoOptions_def snprintf_def)
  have "replicate 126 CHR ''x'' \<noteq> ''var/log/ub-server''"
  proof
    assume "replicate 126 CHR ''x'' = ''var/log/ub-server''"
    from arg_cong [OF this, of length] show False by simp
  qed
  then show "noSlash (logPath (logTo (CHR ''/'' # replicate 126 CHR ''x'') (startLogging demoFiles ''2022-05-01'' 4)))
      \<notin> set (dirs demoFiles)"
    by (simp add: logTo_def demoFiles_def noSlash_def)
qed (simp_all add: logTo_def)

text \<open>
  C15: A server with one thread writes every message to a log file of some day in the directory it
  was given, whenever the date changes and whatever descriptors the rest of the process opens and
  closes meanwhile.
\<close>

theorem single_thread_logs_to_file:
  assumes "getOptions dir d args files 1 = Inr (opts, s0)" "logActive s0"
    and "log_reaches e refuses s0 s" "(m, t) \<in> set (logged s)"
  shows "\<exists>d'. t = Some (LogFile (getLoggerCurrentFullPath (logPath s0) d'))"
proof -
  note s0 = getOptions_active [OF assms(1,2)]
  have "log_ok UNIV s0" "length (points s0) = 1"
    by (subst s0, simp add: logTo_ok) (subst s0, simp add: logTo_def startLogging_def)
  from single_run [OF assms(3) this] show ?thesis using assms(4) by (auto simp: log_ok_def dayFile_def)
qed

theorem single_thread_logs_to_file_witness:
  "\<exists>s. log_reaches demoEnv (\<lambda>_. False) (demoLog 1) s \<and> (''Accepted'', Some demoFile) \<in> set (logged s) \<and>
    (\<exists>d'. Some demoFile = Some (LogFile (getLoggerCurrentFullPath (logPath (demoLog 1)) d')))"
proof -
  obtain s where s: "thread_steps 13 demoEnv (\<lambda>_. False) ''Accepted'' 0 (demoLog 1) = Some s"
    "logged s = [(''Accepted'', Some demoFile)]"
    using demo_run [of 1] by auto
  have "log_reaches demoEnv (\<lambda>_. False) (demoLog 1) s"
    by (rule log_reaches_thread [OF s(1)]) (simp add: demo_fields)
  then show ?thesis
    using single_thread_logs_to_file [OF demo_options demo_fields(2)] s(2) by fastforce
qed

text \<open>
  C14: While the date stays the same, any number of threads write all their messages to the log
  file of that day: two threads that find the logger not initialised do not both open a file, and
  the file a thread is about to write to is not closed under it.
\<close>

theorem day_messages_reach_file:
  assumes "getOptions dir d args files n = Inr (opts, s0)" "logActive s0"
    and "(day_step e refuses)\<^sup>*\<^sup>* s0 s" "(m, t) \<in> set (logged s)"
  shows "t = Some (LogFile (getLoggerCurrentFullPath (logPath s0) d))"
proof -
  note s0 = getOptions_active [OF assms(1,2)]
  have "log_ok {d} s0" "one_day d s0"
    by (subst s0, simp add: logTo_ok) (subst s0, simp add: one_day_def logTo_def startLogging_def)
  from day_run [OF assms(3) this] show ?thesis using assms(4) by (auto simp: log_ok_def dayFile_def)
qed

theorem day_messages_reach_file_witness:
  "\<exists>s. (day_step demoEnv (\<lambda>_. False))\<^sup>*\<^sup>* (demoLog 3) s \<and> (''Accepted'', Some demoFile) \<in> set (logged s) \<and>
    Some demoFile = Some (LogFile (getLoggerCurrentFullPath (logPath (demoLog 3)) ''2022-05-01''))"
proof -
  obtain s where s: "thread_steps 13 demoEnv (\<lambda>_. False) ''Accepted'' 0 (demoLog 3) = Some s"
    "logged s = [(''Accepted'', Some demoFile)]"
    using demo_run [of 3] by auto
  have r: "(day_step demoEnv (\<lambda>_. False))\<^sup>*\<^sup>* (demoLog 3) s"
    by (rule day_reaches_thread [OF s(1)]) (simp add: demo_fields)
  show ?thesis
    using r s(2) day_messages_reach_file [OF demo_options demo_fields(2) r, of "''Accepted''" "Some demoFile"]
    by auto
qed



text \<open>
  C17: At midnight a message can go to a client. Two threads find the name of the day changed;
  the first opens the new file and is about to write, when the second, which was about to take the
  initialisation back, does so and closes that file; a client that connects then gets its
  descriptor.
\<close>

theorem midnight_message_to_client:
  assumes "points s ! i = Outside" "points s ! j = Outside" "i < length (points s)" "j < length (points s)" "i \<noteq> j"
    "logActive s" "mutex s = None" "no_trouble refuses s" "getLoggerFileName (today s) \<noteq> logFile s"
  shows "\<exists>s'. log_reaches e refuses s s' \<and> (m, Some (Client c)) \<in> set (logged s')"
proof -
  let ?N = "getLoggerFileName (today s)"
  obtain fd ds where o: "openFd (LogFile (getLoggerCurrentFullPath (logPath s) (today s)))
      (shutFd (fileFd s) (descriptors s)) = (fd, ds)" by fastforce
  define s1 where "s1 = jump i (Resetting ?N) s"
  define s2 where "s2 = jump j (Resetting ?N) s1"
  define s3 where "s3 = jump i (Testing ?N) (s2\<lparr>initialized := False\<rparr>)"
  define s4 where "s4 = jump i Returning
    (s3\<lparr>initialized := True, logFile := snprintf 15 ?N, fileFd := fd, descriptors := ds\<rparr>)"
  define s5 where "s5 = jump i (Writing fd) s4"
  have "log_reaches e refuses s s1"
    using log_reaches_thread [OF compares(2) [OF assms(1,3,6,9)] assms(3)] by (simp add: s1_def)
  moreover have "log_reaches e refuses s1 s2"
    using log_reaches_thread [OF compares(2) [of s1 j]] assms by (simp add: s2_def s1_def)
  moreover have "log_reaches e refuses s2 s3"
    by (rule log_reaches_thread [of 1 e refuses m i])
      (use assms(3,5) in \<open>simp_all add: s3_def s2_def s1_def logger_step_def jump_def\<close>)
  moreover have "log_reaches e refuses s3 s4"
    using assms(3,5,7,8) o unfolding s4_def
    by (intro log_reaches_thread [OF rotates [of s3 i ?N refuses fd ds e m]])
      (simp_all add: s3_def s2_def s1_def no_trouble_def)
  moreover have "log_reaches e refuses s4 s5"
    by (rule log_reaches_thread [of 1 e refuses m i])
      (use assms(3) in \<open>simp_all add: s5_def s4_def s3_def s2_def s1_def logger_step_def jump_def\<close>)
  ultimately have "log_reaches e refuses s s5" by (blast intro: log_reaches_trans)
  moreover have "\<exists>s'. log_reaches e refuses s5 s' \<and> (m, Some (Client c)) \<in> set (logged s')"
    by (rule late_reset [of _ i j ?N _ "LogFile (getLoggerCurrentFullPath (logPath s) (today s))"])
      (use assms(3-5,7,8) o in
        \<open>simp_all add: s5_def s4_def s3_def s2_def s1_def no_trouble_def\<close>)
  ultimately show ?thesis by (blast intro: log_reaches_trans)
qed

theorem midnight_message_to_client_witness:
  "\<exists>s'. log_reaches demoEnv (\<lambda>_. False) ((demoLog 2)\<lparr>today := ''2022-05-02''\<rparr>) s' \<and>
    (''Accepted'', Some (Client 7)) \<in> set (logged s')"
proof (rule midnight_message_to_client [of _ 0 1])
  show "getLoggerFileName (today ((demoLog 2)\<lparr>today := ''2022-05-02''\<rparr>)) \<noteq>
      logFile ((demoLog 2)\<lparr>today := ''2022-05-02''\<rparr>)"
    by code_simp
qed (simp_all add: demo_fields no_trouble_def noSlash_def)

text \<open>
  The block \<open>logMessage\<close> writes holds the date, the level, the place in the code and the
  message, the text of \<open>errno\<close> when it is asked for, and a newline, and nothing else; no character
  is written outside it.
\<close>

theorem message_fills_block:
  assumes "\<And>n. length (m n) = n"
  shows "logMessage m datetime level showErrno err codeFileName codeLine msg =
    Inr (messageLine datetime level codeFileName codeLine msg @
      (case err of Some t \<Rightarrow> if showErrno then '' | '' @ t else [] | None \<Rightarrow> []) @ [LF])"
proof -
  let ?l = "messageLine datetime level codeFileName codeLine msg"
  have fill: "snprintf_at b k n l = Inr (take k b @ l @ NUL # drop (k + length l + 1) b)"
    if "length l < n" "k + length l < length b" for b k n l
    using that by (simp add: snprintf_at_def store_def Let_def)
  show ?thesis
  proof (cases "if showErrno then err else None")
    case None
    then have "err = None \<or> \<not> showErrno" by (simp split: if_splits)
    with None show ?thesis
      by (auto simp: logMessage_def Let_def fill assms poke_def list_update_append split: option.split)
  next
    case (Some t)
    then have e: "err = Some t" "showErrno" by (simp_all split: if_splits)
    let ?n = "length ?l + length ('' | '' @ t) + 1"
    have "snprintf_at (m ?n) 0 ?n ?l = Inr (?l @ NUL # drop (length ?l + 1) (m ?n))"
      by (simp add: fill assms)
    moreover have "snprintf_at (?l @ NUL # drop (length ?l + 1) (m ?n)) (length ?l) (?n - length ?l) ('' | '' @ t)
        = Inr (?l @ '' | '' @ t @ [NUL])"
      by (subst fill) (simp_all add: assms)
    ultimately show ?thesis
      by (simp only: logMessage_def e if_True option.case Let_def res_bind_simps)
        (simp add: poke_def list_update_append)
  qed
qed

theorem message_fills_block_witness:
  "logMessage (\<lambda>n. replicate n NUL) ''2022-05-01T10:00:00+0200'' LOG_LEVEL_ERROR True
      (Some ''No such file or directory'') ''src/response.c'' 42 ''Absolute path file /srv/x not found'' =
    Inr (messageLine ''2022-05-01T10:00:00+0200'' LOG_LEVEL_ERROR ''src/response.c'' 42
      ''Absolute path file /srv/x not found'' @
      (case Some ''No such file or directory'' of Some t \<Rightarrow> if True then '' | '' @ t else [] | None \<Rightarrow> []) @ [LF])"
  by (rule message_fills_block) simp

end
