(* ===== verification/Server_Properties.thy ===== *)
theory Server_Properties
  imports Server Logger_Properties
begin

text \<open>
  The start as a whole: the calls \<open>main\<close> makes, in order, and what the first one that fails does.
\<close>

section \<open>The plan\<close>

text \<open>The calls of a start that succeeds, when the host has the address \<open>addr\<close>.\<close>

definition plan :: "Options \<Rightarrow> 32 word \<Rightarrow> call list" where
  "plan opts addr = [Sigaction, IgnoreSigpipe, Socket, SetReuseAddr, SetNoDelay, SetCork,
     GetHostByName (address opts), Bind addr (htons (port opts)), SetNonBlocking, Listen 4096,
     Announce addr (unat (port opts)), CountProcessors, EpollCreate, AddListening]"

text \<open>The calls that end the program, and what they print.\<close>

fun ends :: "os \<Rightarrow> call \<Rightarrow> bool" where
  "ends os IgnoreSigpipe = False"
| "ends os SetNonBlocking = False"
| "ends os (Announce addr p) = False"
| "ends os (GetHostByName a) = (hostByName os a = None)"
| "ends os CountProcessors = (processors os < 0)"
| "ends os c = callFails os c"

fun message :: "call \<Rightarrow> string" where
  "message Sigaction = ''sigaction SIGINT failed''"
| "message Socket = ''socket''"
| "message SetReuseAddr = ''setsockopt SO_REUSEADDR''"
| "message SetNoDelay = ''setsockopt TCP_NODELAY''"
| "message SetCork = ''setsockopt TCP_CORK''"
| "message (GetHostByName a) = ''gethostbyname '' @ a @ '' failed''"
| "message (Bind addr p) = ''bind''"
| "message (Listen n) = ''listen''"
| "message CountProcessors = ''sysconf n'' @ [CHR 0xC2, CHR 0xBA] @ '' processors failed''"
| "message EpollCreate = ''epoll_create failed''"
| "message AddListening = ''EPOLL_CTL_ADD failed''"
| "message c = []"

lemma htons_htons [simp]: "htons (htons p) = p"
  by (rule bit_word_eqI) (auto simp: htons_def bit_simps)

lemma lastBy_fits:
  assumes "\<forall>x \<in> set args. P x" "lastBy f args = Some y" "\<And>x y. P x \<Longrightarrow> f x = Some y \<Longrightarrow> Q y"
  shows "Q y"
  using assms(1,2) by (induction args) (auto split: option.splits dest: assms(3))

lemma getOptions_address:
  assumes "getOptions dir d args files n = Inr (opts, l)"
  shows "length (address opts) < 46"
proof -
  have f: "\<forall>x \<in> set args. fine x"
    and a: "address opts = (case lastBy (given CHR ''a'') args of None \<Rightarrow> ''localhost'' | Some a \<Rightarrow> a)"
    using assms
    by (auto simp: getOptions_def optionLoop_eq chosen_def Let_def split: if_splits list.splits option.splits)
  have "length y < 46" if "lastBy (given CHR ''a'') args = Some y" for y
    by (rule lastBy_fits [OF f that]) (auto simp: fine_def overlong_def given_def split: if_splits)
  then show ?thesis using a by (simp split: option.splits)
qed

section \<open>Following a plan\<close>

fun follow :: "os \<Rightarrow> call list \<Rightarrow> 'a \<Rightarrow> 'a run" where
  "follow os [] r = ([], Inr r)"
| "follow os (c # p) r =
     (if ends os c then ([c], Inl (Broken (die (message c))))
      else (c # fst (follow os p r), snd (follow os p r)))"

lemma follow_first:
  assumes "\<forall>c \<in> set p. die (message c) = Died (message c)"
  shows "follow os p r =
    (case dropWhile (\<lambda>c. \<not> ends os c) p of
       [] \<Rightarrow> (p, Inr r)
     | c # _ \<Rightarrow> (takeWhile (\<lambda>c. \<not> ends os c) p @ [c], Inl (Broken (Died (message c)))))"
  using assms by (induction p) (auto simp del: dropWhile_eq_Nil_conv split: list.split)

lemma andThen_simps [simp]:
  "andThen ([], Inr x) f = f x"
  "andThen ([c], Inr x) f = (c # fst (f x), snd (f x))"
  "andThen (cs, Inl e) f = (cs, Inl e)"
  by (simp_all add: andThen_def split: prod.split)

lemma follow_orDie:
  "ends os c = callFails os c \<Longrightarrow> m = message c \<Longrightarrow>
    andThen (orDie os c m) (\<lambda>_. follow os p r) = follow os (c # p) r"
  by (simp add: orDie_def)

lemma follow_ignored:
  "\<not> ends os c \<Longrightarrow> andThen (ignored c) (\<lambda>_. follow os p r) = follow os (c # p) r"
  by (simp add: ignored_def)

lemma follow_result: "andThen (follow os p r) (\<lambda>x. ([], Inr (f x))) = follow os p (f r)"
proof (induction p)
  case (Cons c p)
  then show ?case
    by (cases "follow os p r", cases "snd (follow os p r)") (simp_all add: andThen_def Cons [symmetric])
qed simp

lemma startThreads_follows:
  "startThreads os time0 files =
    follow os [CountProcessors, EpollCreate, AddListening] (acceptClientsThreadEpoll (nat (processors os)) time0 files)"
  by (simp add: startThreads_def orDie_def)

lemma serverRun_follows:
  assumes "addr = (case hostByName os (address opts) of None \<Rightarrow> 0 | Some addr \<Rightarrow> addr)"
  shows "serverRun os opts time0 files =
    follow os (drop 2 (plan opts addr)) (acceptClientsThreadEpoll (nat (processors os)) time0 files)"
  by (cases "hostByName os (address opts)")
    (simp_all add: assms serverRun_def plan_def gethostbyname_def startThreads_follows Let_def
      follow_orDie follow_ignored del: follow.simps(2) andThen_simps(2), simp_all add: orDie_def)

section \<open>Properties\<close>

text \<open>
  C18: Once its options are read, the server makes the calls of the plan one after the
  other, bound to the address of the host it was given and to its port in network order; the first
  call that fails is the last one made, and its message, which always fits \<open>die\<close>'s buffer, is what the program
  ends with. When none fails there is one thread for every processor, and the server has announced
  the port it was given.
\<close>

theorem main_first_failure:
  assumes "getOptions dir d args files (nat (processors os)) = Inr (opts, log)"
    and "p = plan opts (case hostByName os (address opts) of None \<Rightarrow> 0 | Some addr \<Rightarrow> addr)"
  shows "main os dir d args files time0 =
    (case dropWhile (\<lambda>c. \<not> ends os c) p of
       [] \<Rightarrow> (p, Inr (opts, log, acceptClientsThreadEpoll (nat (processors os)) time0 files))
     | c # _ \<Rightarrow> (takeWhile (\<lambda>c. \<not> ends os c) p @ [c], Inl (Broken (Died (message c)))))"
proof -
  have fits: "\<forall>c \<in> set p. die (message c) = Died (message c)"
    using getOptions_address [OF assms(1)] by (auto simp: assms(2) plan_def die_def)
  have "main os dir d args files time0 =
      follow os p (opts, log, acceptClientsThreadEpoll (nat (processors os)) time0 files)"
    by (simp add: main_def assms(1) serverRun_follows [OF refl] follow_result)
      (simp add: assms(2) plan_def orDie_def ignored_def)
  then show ?thesis
    by (simp only: follow_first [OF fits])
qed

text \<open>The start of the demonstration files on four processors, the port taken by another process.\<close>

definition taken :: os where
  "taken = \<lparr>callFails = (\<lambda>c. case c of Bind a p \<Rightarrow> p = 0xB90B | _ \<Rightarrow> False), hostByName = (\<lambda>_. Some 0x7F000001),
     processors = 4\<rparr>"

lemma htons_3001: "htons 3001 = 0xB90B"
  by (simp add: htons_def)

theorem main_first_failure_witness:
  "main taken ''/srv'' ''2022-05-01'' [(CHR ''l'', [])] demoFiles 0 =
    ([Sigaction, IgnoreSigpipe, Socket, SetReuseAddr, SetNoDelay, SetCork, GetHostByName ''localhost'',
      Bind 0x7F000001 0xB90B], Inl (Broken (Died ''bind'')))"
  by (subst main_first_failure [OF demo_options refl])
    (simp add: taken_def plan_def demoOptions_def htons_3001)

end
