(* ===== verification/Easing.thy ===== *)
theory Easing
  imports Complex_Main Prelude
begin

text \<open>
  The easing functions of \<open>public/js/jquery.easing.1.3.js\<close>, with the source's arguments
  \<open>x\<close> (ignored), \<open>t\<close> (elapsed time), \<open>b\<close> (start), \<open>c\<close> (change), \<open>d\<close> (duration).
  Numbers are real numbers: rounding is not modelled, and neither is \<open>d = 0\<close>, where the
  source computes \<open>0/0\<close> and the theorems assume \<open>0 < d\<close>. An assignment inside an
  expression (\<open>t /= d\<close>, \<open>--t\<close>, \<open>s *= 1.525\<close>) is a \<open>let\<close> that the rest of the expression
  sees. \<open>jQuery.fx\<close>'s use of an easing (\<open>Tween.run\<close> in \<open>public/js/jquery.js\<close>) is the
  client of the interface \<open>easing\<close>.
\<close>

type_synonym easing_fn = "real \<Rightarrow> real \<Rightarrow> real \<Rightarrow> real \<Rightarrow> real \<Rightarrow> real"

section \<open>The functions\<close>

definition easeInQuad :: easing_fn where [easing_defs]:
  "easeInQuad x t b c d = (let t = t / d in c * t * t + b)"

definition easeOutQuad :: easing_fn where [easing_defs]:
  "easeOutQuad x t b c d = (let t = t / d in - c * t * (t - 2) + b)"

definition easeInOutQuad :: easing_fn where [easing_defs]:
  "easeInOutQuad x t b c d =
     (let t = t / (d / 2) in
      if t < 1 then c / 2 * t * t + b
      else let t = t - 1 in - c / 2 * (t * (t - 2) - 1) + b)"

definition easeInCubic :: easing_fn where [easing_defs]:
  "easeInCubic x t b c d = (let t = t / d in c * t * t * t + b)"

definition easeOutCubic :: easing_fn where [easing_defs]:
  "easeOutCubic x t b c d = (let t = t / d - 1 in c * (t * t * t + 1) + b)"

definition easeInOutCubic :: easing_fn where [easing_defs]:
  "easeInOutCubic x t b c d =
     (let t = t / (d / 2) in
      if t < 1 then c / 2 * t * t * t + b
      else let t = t - 2 in c / 2 * (t * t * t + 2) + b)"

definition easeInQuart :: easing_fn where [easing_defs]:
  "easeInQuart x t b c d = (let t = t / d in c * t * t * t * t + b)"

definition easeOutQuart :: easing_fn where [easing_defs]:
  "easeOutQuart x t b c d = (let t = t / d - 1 in - c * (t * t * t * t - 1) + b)"

definition easeInOutQuart :: easing_fn where [easing_defs]:
  "easeInOutQuart x t b c d =
     (let t = t / (d / 2) in
      if t < 1 then c / 2 * t * t * t * t + b
      else let t = t - 2 in - c / 2 * (t * t * t * t - 2) + b)"

definition easeInQuint :: easing_fn where [easing_defs]:
  "easeInQuint x t b c d = (let t = t / d in c * t * t * t * t * t + b)"

definition easeOutQuint :: easing_fn where [easing_defs]:
  "easeOutQuint x t b c d = (let t = t / d - 1 in c * (t * t * t * t * t + 1) + b)"

definition easeInOutQuint :: easing_fn where [easing_defs]:
  "easeInOutQuint x t b c d =
     (let t = t / (d / 2) in
      if t < 1 then c / 2 * t * t * t * t * t + b
      else let t = t - 2 in c / 2 * (t * t * t * t * t + 2) + b)"

definition easeInSine :: easing_fn where [easing_defs]:
  "easeInSine x t b c d = - c * cos (t / d * (pi / 2)) + c + b"

definition easeOutSine :: easing_fn where [easing_defs]:
  "easeOutSine x t b c d = c * sin (t / d * (pi / 2)) + b"

definition easeInOutSine :: easing_fn where [easing_defs]:
  "easeInOutSine x t b c d = - c / 2 * (cos (pi * t / d) - 1) + b"

definition easeInExpo :: easing_fn where [easing_defs]:
  "easeInExpo x t b c d = (if t = 0 then b else c * (2 powr (10 * (t / d - 1))) + b)"

definition easeOutExpo :: easing_fn where [easing_defs]:
  "easeOutExpo x t b c d = (if t = d then b + c else c * (- (2 powr (- 10 * t / d)) + 1) + b)"

definition easeInOutExpo :: easing_fn where [easing_defs]:
  "easeInOutExpo x t b c d =
     (if t = 0 then b
      else if t = d then b + c
      else let t = t / (d / 2) in
           if t < 1 then c / 2 * (2 powr (10 * (t - 1))) + b
           else let t = t - 1 in c / 2 * (- (2 powr (- 10 * t)) + 2) + b)"

definition easeInCirc :: easing_fn where [easing_defs]:
  "easeInCirc x t b c d = (let t = t / d in - c * (sqrt (1 - t * t) - 1) + b)"

definition easeOutCirc :: easing_fn where [easing_defs]:
  "easeOutCirc x t b c d = (let t = t / d - 1 in c * sqrt (1 - t * t) + b)"

definition easeInOutCirc :: easing_fn where [easing_defs]:
  "easeInOutCirc x t b c d =
     (let t = t / (d / 2) in
      if t < 1 then - c / 2 * (sqrt (1 - t * t) - 1) + b
      else let t = t - 2 in c / 2 * (sqrt (1 - t * t) + 1) + b)"

text \<open>
  The elastic functions choose amplitude \<open>a\<close> and shift \<open>s\<close> the same way: \<open>a\<close> starts as
  \<open>c\<close>, so \<open>a < |c|\<close> holds exactly for a negative change.
\<close>

definition elasticShift :: "real \<Rightarrow> real \<Rightarrow> real \<times> real" where [easing_defs]:
  "elasticShift c p =
     (let a = c in
      if a < \<bar>c\<bar> then (c, p / 4) else (a, p / (2 * pi) * arcsin (c / a)))"

definition easeInElastic :: easing_fn where [easing_defs]:
  "easeInElastic x t b c d =
     (if t = 0 then b
      else let t = t / d in
           if t = 1 then b + c
           else let p = d * 0.3; (a, s) = elasticShift c p; t = t - 1 in
                - (a * (2 powr (10 * t)) * sin ((t * d - s) * (2 * pi) / p)) + b)"

definition easeOutElastic :: easing_fn where [easing_defs]:
  "easeOutElastic x t b c d =
     (if t = 0 then b
      else let t = t / d in
           if t = 1 then b + c
           else let p = d * 0.3; (a, s) = elasticShift c p in
                a * (2 powr (- 10 * t)) * sin ((t * d - s) * (2 * pi) / p) + c + b)"

definition easeInOutElastic :: easing_fn where [easing_defs]:
  "easeInOutElastic x t b c d =
     (if t = 0 then b
      else let t = t / (d / 2) in
           if t = 2 then b + c
           else let p = d * (0.3 * 1.5); (a, s) = elasticShift c p in
                if t < 1 then
                  let t = t - 1 in
                  - 0.5 * (a * (2 powr (10 * t)) * sin ((t * d - s) * (2 * pi) / p)) + b
                else
                  let t = t - 1 in
                  a * (2 powr (- 10 * t)) * sin ((t * d - s) * (2 * pi) / p) * 0.5 + c + b)"

text \<open>The back functions take an optional overshoot, 1.70158 when it is undefined.\<close>

definition overshoot :: "real option \<Rightarrow> real" where [easing_defs]:
  "overshoot s = (case s of None \<Rightarrow> 1.70158 | Some s \<Rightarrow> s)"

definition easeInBack :: "real \<Rightarrow> real \<Rightarrow> real \<Rightarrow> real \<Rightarrow> real \<Rightarrow> real option \<Rightarrow> real"
  where [easing_defs]:
  "easeInBack x t b c d s =
     (let s = overshoot s; t = t / d in c * t * t * ((s + 1) * t - s) + b)"

definition easeOutBack :: "real \<Rightarrow> real \<Rightarrow> real \<Rightarrow> real \<Rightarrow> real \<Rightarrow> real option \<Rightarrow> real"
  where [easing_defs]:
  "easeOutBack x t b c d s =
     (let s = overshoot s; t = t / d - 1 in c * (t * t * ((s + 1) * t + s) + 1) + b)"

definition easeInOutBack :: "real \<Rightarrow> real \<Rightarrow> real \<Rightarrow> real \<Rightarrow> real \<Rightarrow> real option \<Rightarrow> real"
  where [easing_defs]:
  "easeInOutBack x t b c d s =
     (let s = overshoot s; t = t / (d / 2) in
      if t < 1 then let s = s * 1.525 in c / 2 * (t * t * ((s + 1) * t - s)) + b
      else let t = t - 2; s = s * 1.525 in c / 2 * (t * t * ((s + 1) * t + s) + 2) + b)"

definition easeOutBounce :: easing_fn where [easing_defs]:
  "easeOutBounce x t b c d =
     (let t = t / d in
      if t < 1 / 2.75 then c * (7.5625 * t * t) + b
      else if t < 2 / 2.75 then
        let t = t - 1.5 / 2.75 in c * (7.5625 * t * t + 0.75) + b
      else if t < 2.5 / 2.75 then
        let t = t - 2.25 / 2.75 in c * (7.5625 * t * t + 0.9375) + b
      else let t = t - 2.625 / 2.75 in c * (7.5625 * t * t + 0.984375) + b)"

definition easeInBounce :: easing_fn where [easing_defs]:
  "easeInBounce x t b c d = c - easeOutBounce x (d - t) 0 c d + b"

definition easeInOutBounce :: easing_fn where [easing_defs]:
  "easeInOutBounce x t b c d =
     (if t < d / 2 then easeInBounce x (t * 2) 0 c d * 0.5 + b
      else easeOutBounce x (t * 2 - d) 0 c d * 0.5 + c * 0.5 + b)"

section \<open>The table and the default\<close>

text \<open>
  \<open>jQuery.easing\<close> after the plugin's \<open>extend\<close>, as far as the plugin defines it; the back
  functions are called without an overshoot, as \<open>jQuery.fx\<close> calls every easing.
  \<open>jQuery.easing[name](...)\<close> with a name that is not there is a \<open>TypeError\<close>: \<open>None\<close>.
\<close>

definition easing_table :: "(string \<times> easing_fn) list" where
  "easing_table =
     [(''easeInQuad'', easeInQuad), (''easeOutQuad'', easeOutQuad),
      (''easeInOutQuad'', easeInOutQuad), (''easeInCubic'', easeInCubic),
      (''easeOutCubic'', easeOutCubic), (''easeInOutCubic'', easeInOutCubic),
      (''easeInQuart'', easeInQuart), (''easeOutQuart'', easeOutQuart),
      (''easeInOutQuart'', easeInOutQuart), (''easeInQuint'', easeInQuint),
      (''easeOutQuint'', easeOutQuint), (''easeInOutQuint'', easeInOutQuint),
      (''easeInSine'', easeInSine), (''easeOutSine'', easeOutSine),
      (''easeInOutSine'', easeInOutSine), (''easeInExpo'', easeInExpo),
      (''easeOutExpo'', easeOutExpo), (''easeInOutExpo'', easeInOutExpo),
      (''easeInCirc'', easeInCirc), (''easeOutCirc'', easeOutCirc),
      (''easeInOutCirc'', easeInOutCirc), (''easeInElastic'', easeInElastic),
      (''easeOutElastic'', easeOutElastic), (''easeInOutElastic'', easeInOutElastic),
      (''easeInBack'', \<lambda>x t b c d. easeInBack x t b c d None),
      (''easeOutBack'', \<lambda>x t b c d. easeOutBack x t b c d None),
      (''easeInOutBack'', \<lambda>x t b c d. easeInOutBack x t b c d None),
      (''easeInBounce'', easeInBounce), (''easeOutBounce'', easeOutBounce),
      (''easeInOutBounce'', easeInOutBounce)]"

definition easing_def :: string where "easing_def = ''easeOutQuad''"

definition swing :: "string \<Rightarrow> real \<Rightarrow> real \<Rightarrow> real \<Rightarrow> real \<Rightarrow> real \<Rightarrow> real option" where
  "swing def x t b c d = map_option (\<lambda>f. f x t b c d) (map_of easing_table def)"

text \<open>
  \<open>Tween.run\<close>: with a duration \<open>d\<close> and the fraction \<open>p\<close> of it elapsed, the eased
  fraction is \<open>easing(p, d * p, 0, 1, d)\<close> and the animated value lies that far between
  \<open>start\<close> and \<open>finish\<close>.
\<close>

definition tween_run :: "easing_fn \<Rightarrow> real \<Rightarrow> real \<Rightarrow> real \<Rightarrow> real \<Rightarrow> real" where
  "tween_run f start finish d p = (finish - start) * f p (d * p) 0 1 d + start"

section \<open>The interface of an easing\<close>

locale easing =
  fixes f :: easing_fn
  assumes begins: "0 < d \<Longrightarrow> f x 0 b c d = b"
    and ends: "0 < d \<Longrightarrow> f x d b c d = b + c"
    and affine: "0 < d \<Longrightarrow> c \<noteq> 0 \<Longrightarrow> f x t b c d = c * f y t 0 1 d + b"
begin

text \<open>An animation is the plain easing over its own range, whoever scales.\<close>

lemma tween_is_easing:
  assumes "0 < d" "start \<noteq> finish"
  shows "tween_run f start finish d p = f p (d * p) start (finish - start) d"
  using affine [of d "finish - start" p "d * p" start p] assms by (simp add: tween_run_def)

lemma tween_endpoints:
  assumes "0 < d"
  shows "tween_run f start finish d 0 = start" "tween_run f start finish d 1 = finish"
  using begins [OF assms, of 0 0 1] ends [OF assms, of 1 0 1] by (simp_all add: tween_run_def)

end

text \<open>
  A family: the out function is the in function run backwards from the other end, and the
  in-out function is the in function on the first half and the out function on the second,
  each over half the change.
\<close>

definition bounded_easing :: "easing_fn \<Rightarrow> bool" where
  "bounded_easing f \<longleftrightarrow> (\<forall>x t b c d. 0 < d \<longrightarrow> 0 \<le> t \<longrightarrow> t \<le> d \<longrightarrow> 0 < c \<longrightarrow>
     b \<le> f x t b c d \<and> f x t b c d \<le> b + c)"

lemma bounded_easingD:
  assumes "bounded_easing f" "0 < d" "0 \<le> t" "t \<le> d" "0 < c"
  shows "b \<le> f x t b c d \<and> f x t b c d \<le> b + c"
  using assms by (simp add: bounded_easing_def)

locale easing_pair = ein: easing ein + eout: easing eout for ein eout +
  assumes dual: "0 < d \<Longrightarrow> c \<noteq> 0 \<Longrightarrow> eout x t b c d + ein y (d - t) b c d = 2 * b + c"
begin

lemma eout_bounded:
  assumes "bounded_easing ein"
  shows "bounded_easing eout"
  unfolding bounded_easing_def
proof (intro allI impI)
  fix x t b c d :: real
  assume "0 < d" "0 \<le> t" "t \<le> d" "0 < c"
  moreover from this have "b \<le> ein x (d - t) b c d \<and> ein x (d - t) b c d \<le> b + c"
    using assms by (simp add: bounded_easing_def)
  ultimately show "b \<le> eout x t b c d \<and> eout x t b c d \<le> b + c"
    using dual [of d c x t b x] by linarith
qed

end

locale easing_family = easing_pair + eio: easing eio for eio +
  assumes first_half: "0 < d \<Longrightarrow> t < d / 2 \<Longrightarrow> eio x t b c d = ein y (2 * t) b (c / 2) d"
    and second_half: "0 < d \<Longrightarrow> d / 2 \<le> t \<Longrightarrow>
      eio x t b c d = eout y (2 * t - d) (b + c / 2) (c / 2) d"
begin

lemma eio_bounded:
  assumes "bounded_easing ein"
  shows "bounded_easing eio"
  unfolding bounded_easing_def
proof (intro allI impI)
  fix x t b c d :: real
  assume a: "0 < d" "0 \<le> t" "t \<le> d" "0 < c"
  show "b \<le> eio x t b c d \<and> eio x t b c d \<le> b + c"
  proof (cases "t < d / 2")
    case True
    then have "b \<le> ein x (2 * t) b (c / 2) d \<and> ein x (2 * t) b (c / 2) d \<le> b + c / 2"
      using a assms by (simp add: bounded_easing_def)
    then show ?thesis using first_half [OF a(1) True, of x b c x] a(4) by linarith
  next
    case False
    then have "b + c / 2 \<le> eout x (2 * t - d) (b + c / 2) (c / 2) d \<and>
        eout x (2 * t - d) (b + c / 2) (c / 2) d \<le> b + c / 2 + c / 2"
      using bounded_easingD [OF eout_bounded [OF assms] a(1), of "2 * t - d" "c / 2" "b + c / 2" x]
        a False by simp
    then show ?thesis using second_half [OF a(1), of t x b c x] False a(4) by linarith
  qed
qed

end

lemma elasticShift_neg: "c < 0 \<Longrightarrow> elasticShift c p = (c, p / 4)"
  by (simp add: elasticShift_def)

lemma elasticShift_pos: "0 < c \<Longrightarrow> elasticShift c p = (c, p / 4)"
  by (simp add: elasticShift_def arcsin_1)

lemma elasticShift_nonzero: "c \<noteq> 0 \<Longrightarrow> elasticShift c p = (c, p / 4)"
  using elasticShift_neg elasticShift_pos by (metis linorder_neqE_linordered_idom)

lemmas easing_simps = easing_defs Let_def power2_eq_square

end
