(* ===== verification/Easing_Correct.thy ===== *)
theory Easing_Correct
  imports Easing
begin

text \<open>
  Every function of the easing table provides the interface \<open>easing\<close>; the in, out and
  in-out members of a family determine each other; the bounce is continuous and bounded;
  which families stay between start and end.
\<close>

section \<open>Every easing begins, ends and scales\<close>

interpretation easeInQuad: easing easeInQuad
  by unfold_locales (auto simp: easing_simps field_simps)
interpretation easeOutQuad: easing easeOutQuad
  by unfold_locales (auto simp: easing_simps field_simps)
interpretation easeInOutQuad: easing easeInOutQuad
  by unfold_locales (auto simp: easing_simps field_simps)
interpretation easeInCubic: easing easeInCubic
  by unfold_locales (auto simp: easing_simps field_simps)
interpretation easeOutCubic: easing easeOutCubic
  by unfold_locales (auto simp: easing_simps field_simps)
interpretation easeInOutCubic: easing easeInOutCubic
  by unfold_locales (auto simp: easing_simps field_simps)
interpretation easeInQuart: easing easeInQuart
  by unfold_locales (auto simp: easing_simps field_simps)
interpretation easeOutQuart: easing easeOutQuart
  by unfold_locales (auto simp: easing_simps field_simps)
interpretation easeInOutQuart: easing easeInOutQuart
  by unfold_locales (auto simp: easing_simps field_simps)
interpretation easeInQuint: easing easeInQuint
  by unfold_locales (auto simp: easing_simps field_simps)
interpretation easeOutQuint: easing easeOutQuint
  by unfold_locales (auto simp: easing_simps field_simps)
interpretation easeInOutQuint: easing easeInOutQuint
  by unfold_locales (auto simp: easing_simps field_simps)
interpretation easeInSine: easing easeInSine
  by unfold_locales (auto simp: easing_simps field_simps)
interpretation easeOutSine: easing easeOutSine
  by unfold_locales (auto simp: easing_simps field_simps)
interpretation easeInOutSine: easing easeInOutSine
  by unfold_locales (auto simp: easing_simps field_simps)
interpretation easeInExpo: easing easeInExpo
  by unfold_locales (auto simp: easing_simps field_simps)
interpretation easeOutExpo: easing easeOutExpo
  by unfold_locales (auto simp: easing_simps field_simps)
interpretation easeInOutExpo: easing easeInOutExpo
  by unfold_locales (auto simp: easing_simps field_simps)
interpretation easeInCirc: easing easeInCirc
  by unfold_locales (auto simp: easing_simps field_simps)
interpretation easeOutCirc: easing easeOutCirc
  by unfold_locales (auto simp: easing_simps field_simps)
interpretation easeInOutCirc: easing easeInOutCirc
  by unfold_locales (auto simp: easing_simps field_simps)
interpretation easeInElastic: easing easeInElastic
  by unfold_locales (auto simp: easeInElastic_def Let_def elasticShift_nonzero field_simps)
interpretation easeOutElastic: easing easeOutElastic
  by unfold_locales (auto simp: easeOutElastic_def Let_def elasticShift_nonzero field_simps)
interpretation easeInOutElastic: easing easeInOutElastic
  by unfold_locales (auto simp: easeInOutElastic_def Let_def elasticShift_nonzero field_simps)
interpretation easeInBack: easing "\<lambda>x t b c d. easeInBack x t b c d s" for s
  by unfold_locales (auto simp: easing_simps field_simps)
interpretation easeOutBack: easing "\<lambda>x t b c d. easeOutBack x t b c d s" for s
  by unfold_locales (auto simp: easing_simps field_simps)
interpretation easeInOutBack: easing "\<lambda>x t b c d. easeInOutBack x t b c d s" for s
  by unfold_locales (auto simp: easing_simps field_simps)
interpretation easeOutBounce: easing easeOutBounce
  by unfold_locales (auto simp: easing_simps field_simps)
interpretation easeInBounce: easing easeInBounce
  by unfold_locales (auto simp: easing_simps field_simps)
interpretation easeInOutBounce: easing easeInOutBounce
  by unfold_locales (auto simp: easing_simps field_simps)

section \<open>Families\<close>

subsection \<open>Powers\<close>

text \<open>The four polynomial families are one family in the exponent.\<close>

definition pow_in :: "nat \<Rightarrow> easing_fn" where
  "pow_in n x t b c d = c * (t / d) ^ n + b"

definition pow_out :: "nat \<Rightarrow> easing_fn" where
  "pow_out n x t b c d = c * (1 - (1 - t / d) ^ n) + b"

definition pow_inout :: "nat \<Rightarrow> easing_fn" where
  "pow_inout n x t b c d =
     (if t / d < 1 / 2 then c / 2 * (2 * (t / d)) ^ n + b
      else c / 2 * (2 - (2 - 2 * (t / d)) ^ n) + b)"

lemma pow_family:
  assumes "n \<noteq> 0"
  shows "easing_family (pow_in n) (pow_out n) (pow_inout n)"
proof (unfold_locales, goal_cases)
  case (7 d c x t b y)
  then have e: "(d - t) / d = 1 - t / d" by (simp add: field_simps)
  show ?case unfolding pow_out_def pow_in_def e by (simp add: algebra_simps)
next
  case (11 d t x b c y)
  then show ?case by (simp add: pow_inout_def pow_in_def field_simps)
next
  case (12 d t x b c y)
  then have e: "(2 * t - d) / d = 2 * (t / d) - 1" "(t / d < 1 / 2) = False"
    by (simp_all add: field_simps)
  show ?case unfolding pow_inout_def pow_out_def e by (simp add: algebra_simps)
qed (use assms in \<open>auto simp: pow_in_def pow_out_def pow_inout_def field_simps\<close>)

lemma pow_in_bounded: "bounded_easing (pow_in n)"
  unfolding bounded_easing_def
proof (intro allI impI)
  fix x t b c d :: real
  assume "0 < d" "0 \<le> t" "t \<le> d" "0 < c"
  then have "0 \<le> c * (t / d) ^ n" "c * (t / d) ^ n \<le> c"
    by (simp_all add: power_le_one mult_left_le)
  then show "b \<le> pow_in n x t b c d \<and> pow_in n x t b c d \<le> b + c"
    by (simp add: pow_in_def)
qed

lemmas pow_defs = pow_in_def pow_out_def pow_inout_def

lemma half_less: "2 * v < 1 \<longleftrightarrow> v < 1 / (2::real)"
  by linarith

lemma twice_frac: "t / (d / 2) = 2 * (t / (d::real))"
  by simp

lemma poly_in: "easeInQuad = pow_in 2" "easeInCubic = pow_in 3" "easeInQuart = pow_in 4"
  "easeInQuint = pow_in 5"
  by (simp_all add: fun_eq_iff easing_simps pow_in_def eval_nat_numeral)

text \<open>The source's polynomials in the fraction \<open>u\<close>, against the powers of \<open>1 - u\<close>.\<close>

lemma poly_identities:
  fixes c u :: real
  shows "- c * u * (u - 2) = c * (1 - (1 - u) ^ 2)"
    and "c * ((u - 1) * (u - 1) * (u - 1) + 1) = c * (1 - (1 - u) ^ 3)"
    and "- c * ((u - 1) * (u - 1) * (u - 1) * (u - 1) - 1) = c * (1 - (1 - u) ^ 4)"
    and "c * ((u - 1) * (u - 1) * (u - 1) * (u - 1) * (u - 1) + 1) = c * (1 - (1 - u) ^ 5)"
  by (simp_all add: eval_nat_numeral algebra_simps)

lemma poly_half_identities:
  fixes c u :: real
  shows "- c / 2 * ((u - 1) * (u - 1 - 2) - 1) = c / 2 * (2 - (2 - u) ^ 2)"
    and "c / 2 * ((u - 2) * (u - 2) * (u - 2) + 2) = c / 2 * (2 - (2 - u) ^ 3)"
    and "- c / 2 * ((u - 2) * (u - 2) * (u - 2) * (u - 2) - 2) = c / 2 * (2 - (2 - u) ^ 4)"
    and "c / 2 * ((u - 2) * (u - 2) * (u - 2) * (u - 2) * (u - 2) + 2) = c / 2 * (2 - (2 - u) ^ 5)"
  by (simp_all add: eval_nat_numeral algebra_simps)

lemma poly_low_identities:
  fixes c u :: real
  shows "c / 2 * u * u = c / 2 * u ^ 2" "c / 2 * u ^ 2 * u = c / 2 * u ^ 3"
    "c / 2 * u ^ 3 * u = c / 2 * u ^ 4" "c / 2 * u ^ 4 * u = c / 2 * u ^ 5"
  by (simp_all add: eval_nat_numeral)

lemma poly_out: "easeOutQuad = pow_out 2" "easeOutCubic = pow_out 3" "easeOutQuart = pow_out 4"
  "easeOutQuint = pow_out 5"
  by (simp_all only: fun_eq_iff easeOutQuad_def easeOutCubic_def easeOutQuart_def
      easeOutQuint_def Let_def pow_out_def poly_identities simp_thms)

lemma poly_inout: "easeInOutQuad = pow_inout 2" "easeInOutCubic = pow_inout 3"
  "easeInOutQuart = pow_inout 4" "easeInOutQuint = pow_inout 5"
  by (simp_all only: fun_eq_iff easeInOutQuad_def easeInOutCubic_def easeInOutQuart_def
      easeInOutQuint_def Let_def pow_inout_def half_less poly_half_identities
      poly_low_identities twice_frac simp_thms)

lemmas poly_as_pow = poly_in poly_out poly_inout

interpretation quad: easing_family easeInQuad easeOutQuad easeInOutQuad
  unfolding poly_as_pow by (rule pow_family) simp
interpretation cubic: easing_family easeInCubic easeOutCubic easeInOutCubic
  unfolding poly_as_pow by (rule pow_family) simp
interpretation quart: easing_family easeInQuart easeOutQuart easeInOutQuart
  unfolding poly_as_pow by (rule pow_family) simp
interpretation quint: easing_family easeInQuint easeOutQuint easeInOutQuint
  unfolding poly_as_pow by (rule pow_family) simp


subsection \<open>Sine, exponential, circle\<close>

text \<open>Time as a fraction \<open>u\<close> of the duration.\<close>

lemma as_fraction:
  assumes "0 < (d::real)"
  obtains u where "t = u * d"
  using assms by (metis less_irrefl nonzero_eq_divide_eq)

lemma fraction_simps:
  assumes "0 < (d::real)"
  shows "u * d / d = u" "(d - u * d) / d = 1 - u" "(2 * (u * d) - d) / d = 2 * u - 1"
    "2 * (u * d) / d = 2 * u" "u * d / (d / 2) = 2 * u" "u * d < d / 2 \<longleftrightarrow> u < 1 / 2"
    "d / 2 \<le> u * d \<longleftrightarrow> 1 / 2 \<le> u" "u * d = d \<longleftrightarrow> u = 1" "u * d = 0 \<longleftrightarrow> u = 0"
    "d - u * d = 0 \<longleftrightarrow> u = 1" "2 * (u * d) - d = d \<longleftrightarrow> u = 1" "k * (u * d) / d = k * u"
    "k * (2 * (u * d) - d) / d = k * (2 * u - 1)" "(u * d * 2 - d) / d = 2 * u - 1"
    "d - u * d = d \<longleftrightarrow> u = 0" "u * d * 2 / d = 2 * u"
  using assms by (auto simp: field_simps)

lemma cos_shift: "cos (pi / 2 - y) = sin y" "sin (y - pi / 2) = - cos y"
  "sin (- y - pi / 2) = - cos y" for y :: real
  by (simp_all add: cos_diff sin_diff)

interpretation sine: easing_family easeInSine easeOutSine easeInOutSine
proof (unfold_locales, goal_cases)
  case (1 d c x t b y)
  moreover obtain u where u: "t = u * d" using as_fraction [OF \<open>0 < d\<close>] .
  moreover have e: "(1 - u) * (pi / 2) = pi / 2 - u * (pi / 2)" by (simp add: field_simps)
  ultimately show ?case
    unfolding easeInSine_def easeOutSine_def u fraction_simps [OF \<open>0 < d\<close>] e cos_shift
    by simp
next
  case (2 d t x b c y)
  moreover obtain u where u: "t = u * d" using as_fraction [OF \<open>0 < d\<close>] .
  moreover have "2 * u * (pi / 2) = pi * u" by simp
  ultimately show ?case unfolding easeInSine_def easeInOutSine_def u fraction_simps [OF \<open>0 < d\<close>]
    by (simp add: algebra_simps)
next
  case (3 d t x b c y)
  moreover obtain u where u: "t = u * d" using as_fraction [OF \<open>0 < d\<close>] .
  moreover have e: "(2 * u - 1) * (pi / 2) = pi * u - pi / 2" by (simp add: algebra_simps)
  ultimately show ?case
    unfolding easeOutSine_def easeInOutSine_def u fraction_simps [OF \<open>0 < d\<close>] e cos_shift
    by (simp add: algebra_simps)
qed

interpretation expo: easing_family easeInExpo easeOutExpo easeInOutExpo
proof (unfold_locales, goal_cases)
  case (1 d c x t b y)
  moreover obtain u where u: "t = u * d" using as_fraction [OF \<open>0 < d\<close>] .
  moreover have e: "10 * (1 - u - 1) = - 10 * u" by simp
  ultimately show ?case
    unfolding easeInExpo_def easeOutExpo_def u fraction_simps [OF \<open>0 < d\<close>] e
    by (simp add: algebra_simps)
next
  case (2 d t x b c y)
  moreover obtain u where u: "t = u * d" using as_fraction [OF \<open>0 < d\<close>] .
  ultimately have "2 * u < 1" by (simp add: fraction_simps)
  then show ?case
    unfolding easeInExpo_def easeInOutExpo_def Let_def u fraction_simps [OF \<open>0 < d\<close>]
    using \<open>0 < d\<close> by simp
next
  case (3 d t x b c y)
  moreover obtain u where u: "t = u * d" using as_fraction [OF \<open>0 < d\<close>] .
  ultimately have "\<not> 2 * u < 1" "u \<noteq> 0" by (auto simp: fraction_simps)
  then show ?case
    unfolding easeOutExpo_def easeInOutExpo_def Let_def u fraction_simps [OF \<open>0 < d\<close>]
    by (simp add: algebra_simps)
qed

interpretation circ: easing_family easeInCirc easeOutCirc easeInOutCirc
proof (unfold_locales, goal_cases)
  case (1 d c x t b y)
  moreover obtain u where u: "t = u * d" using as_fraction [OF \<open>0 < d\<close>] .
  moreover have e: "(1 - u) * (1 - u) = (u - 1) * (u - 1)" by (simp add: algebra_simps)
  ultimately show ?case
    unfolding easeInCirc_def easeOutCirc_def Let_def u fraction_simps [OF \<open>0 < d\<close>] e
    by (simp add: algebra_simps)
next
  case (2 d t x b c y)
  moreover obtain u where u: "t = u * d" using as_fraction [OF \<open>0 < d\<close>] .
  ultimately have "2 * u < 1" by (simp add: fraction_simps)
  then show ?case
    unfolding easeInCirc_def easeInOutCirc_def Let_def u fraction_simps [OF \<open>0 < d\<close>] by simp
next
  case (3 d t x b c y)
  moreover obtain u where u: "t = u * d" using as_fraction [OF \<open>0 < d\<close>] .
  ultimately have "\<not> 2 * u < 1" by (simp add: fraction_simps)
  moreover have e: "2 * u - 1 - 1 = 2 * u - 2" by simp
  ultimately show ?case
    unfolding easeOutCirc_def easeInOutCirc_def Let_def u fraction_simps [OF \<open>0 < d\<close>] e
    by (simp add: algebra_simps)
qed

lemma bounce_half:
  "easeOutBounce x z b (c / 2) d = easeOutBounce y z 0 c d / 2 + b"
proof -
  have "c / 2 * p + b = (c * p + 0) / 2 + b" for p by simp
  then show ?thesis unfolding easeOutBounce_def Let_def by (simp only: split: if_split) blast
qed

interpretation bounce: easing_family easeInBounce easeOutBounce easeInOutBounce
proof (unfold_locales, goal_cases)
  case (1 d c x t b y)
  then show ?case using easeOutBounce.affine [of d c x t b y] easeOutBounce.affine [of d c y t 0 y]
    by (simp add: easeInBounce_def)
next
  case (2 d t x b c y)
  then show ?case using bounce_half [of y "d - 2 * t" 0 c d x]
    by (simp add: easeInOutBounce_def easeInBounce_def mult.commute [of _ 2])
next
  case (3 d t x b c y)
  then show ?case using bounce_half [of y "2 * t - d" "b + c / 2" c d x]
    by (simp add: easeInOutBounce_def mult.commute [of _ 2])
qed

subsection \<open>Elastic and back: in and out only\<close>

interpretation elastic: easing_pair easeInElastic easeOutElastic
proof (unfold_locales, goal_cases)
  case (1 d c x t b y)
  then obtain u where u: "t = u * d" using as_fraction by blast
  have k: "((v - 1) * d - d * 0.3 / 4) * (2 * pi) / (d * 0.3) = - ((1 - v) * (20 * pi / 3)) - pi / 2"
    "(v * d - d * 0.3 / 4) * (2 * pi) / (d * 0.3) = v * (20 * pi / 3) - pi / 2" for v
    using 1 by (simp_all add: field_simps)
  have s: "1 - u = 1 \<longleftrightarrow> u = 0" "1 - u - 1 = - u" "1 - (1 - u) = u" by simp_all
  show ?case
    unfolding easeInElastic_def easeOutElastic_def Let_def u fraction_simps [OF \<open>0 < d\<close>]
      elasticShift_nonzero [OF \<open>c \<noteq> 0\<close>] prod.case k s cos_shift
    by simp
qed

interpretation backing: easing_pair
  "\<lambda>x t b c d. easeInBack x t b c d s" "\<lambda>x t b c d. easeOutBack x t b c d s" for s
proof (unfold_locales, goal_cases)
  case (1 d c x t b y)
  then obtain u where u: "t = u * d" using as_fraction by blast
  show ?case
    unfolding easeInBack_def easeOutBack_def Let_def u fraction_simps [OF \<open>0 < d\<close>]
    by (simp add: algebra_simps)
qed


section \<open>Which families stay between start and end\<close>

lemma scaled_bounds:
  assumes "0 < (c::real)" "0 \<le> v" "v \<le> 1"
  shows "b \<le> c * v + b \<and> c * v + b \<le> b + c"
  using assms by (simp add: mult_left_le)

lemma easeInSine_bounded: "bounded_easing easeInSine"
  unfolding bounded_easing_def
proof (intro allI impI)
  fix x t b c d :: real
  assume "0 < d" "0 \<le> t" "t \<le> d" "0 < c"
  moreover from this have "0 \<le> cos (t / d * (pi / 2))"
    by (intro cos_ge_zero) (auto intro: order_trans [of _ 0] simp: field_simps)
  ultimately have "b \<le> c * (1 - cos (t / d * (pi / 2))) + b \<and>
      c * (1 - cos (t / d * (pi / 2))) + b \<le> b + c"
    by (intro scaled_bounds) auto
  then show "b \<le> easeInSine x t b c d \<and> easeInSine x t b c d \<le> b + c"
    by (simp add: easeInSine_def algebra_simps)
qed

lemma easeInExpo_bounded: "bounded_easing easeInExpo"
  unfolding bounded_easing_def
proof (intro allI impI)
  fix x t b c d :: real
  assume "0 < d" "0 \<le> t" "t \<le> d" "0 < c"
  moreover from this have "2 powr (10 * (t / d - 1)) \<le> 2 powr 0"
    by (intro powr_mono) (auto simp: field_simps)
  ultimately have "b \<le> c * (2 powr (10 * (t / d - 1))) + b \<and>
      c * (2 powr (10 * (t / d - 1))) + b \<le> b + c"
    by (intro scaled_bounds) auto
  with \<open>0 < c\<close> show "b \<le> easeInExpo x t b c d \<and> easeInExpo x t b c d \<le> b + c"
    by (simp add: easeInExpo_def)
qed

lemma easeInCirc_bounded: "bounded_easing easeInCirc"
  unfolding bounded_easing_def
proof (intro allI impI)
  fix x t b c d :: real
  assume a: "0 < d" "0 \<le> t" "t \<le> d" "0 < c"
  define u where "u = t / d"
  with a have "0 \<le> u" "u \<le> 1" by simp_all
  then have "0 \<le> 1 - u * u" "1 - u * u \<le> 1" using mult_le_one [of u u] by auto
  then have "b \<le> c * (1 - sqrt (1 - u * u)) + b \<and> c * (1 - sqrt (1 - u * u)) + b \<le> b + c"
    using a(4) by (intro scaled_bounds) auto
  then show "b \<le> easeInCirc x t b c d \<and> easeInCirc x t b c d \<le> b + c"
    unfolding easeInCirc_def Let_def u_def [symmetric] by (simp add: algebra_simps)
qed

text \<open>Each arc of the bounce is a parabola of height at most 1 over its piece.\<close>

lemma bounce_arc:
  assumes "\<bar>t\<bar> \<le> r" "7.5625 * (r * r) + h \<le> 1" "0 \<le> h"
  shows "0 \<le> 7.5625 * t * t + h" "7.5625 * t * t + h \<le> (1::real)"
proof -
  have "t * t \<le> r * r" using assms(1) abs_le_square_iff [of t r] by (simp add: power2_eq_square)
  then have "7.5625 * (t * t) \<le> 7.5625 * (r * r)" by simp
  then show "7.5625 * t * t + h \<le> 1" using assms(2) by (simp only: mult.assoc)
  show "0 \<le> 7.5625 * t * t + h" using assms(3) by (simp add: mult.assoc)
qed

lemma easeOutBounce_bounded: "bounded_easing easeOutBounce"
  unfolding bounded_easing_def
proof (intro allI impI)
  fix x t b c d :: real
  assume a: "0 < d" "0 \<le> t" "t \<le> d" "0 < c"
  define u where "u = t / d"
  with a have u: "0 \<le> u" "u \<le> 1" by simp_all
  note arc = scaled_bounds [OF a(4) bounce_arc]
  consider "u < 1 / 2.75" | "\<not> u < 1 / 2.75" "u < 2 / 2.75"
    | "\<not> u < 2 / 2.75" "u < 2.5 / 2.75" | "\<not> u < 2.5 / 2.75" by linarith
  then show "b \<le> easeOutBounce x t b c d \<and> easeOutBounce x t b c d \<le> b + c"
  proof cases
    case 1
    then have "\<bar>u\<bar> \<le> 4 / 11" using u by simp
    from arc [OF this _ _ this, of 0 b] 1 show ?thesis
      by (simp add: easeOutBounce_def flip: u_def)
  next
    case 2
    then have "\<bar>u - 6 / 11\<bar> \<le> 2 / 11" by (simp add: abs_if)
    from arc [OF this _ _ this, of "0.75" b] 2 show ?thesis
      by (simp add: easeOutBounce_def flip: u_def)
  next
    case 3
    then have "\<bar>u - 9 / 11\<bar> \<le> 1 / 11" by (simp add: abs_if)
    from arc [OF this _ _ this, of "0.9375" b] 3 show ?thesis
      by (simp add: easeOutBounce_def flip: u_def)
  next
    case 4
    then have "\<bar>u - 21 / 22\<bar> \<le> 1 / 22" using u by (simp add: abs_if)
    from arc [OF this _ _ this, of "0.984375" b] 4 show ?thesis
      by (simp add: easeOutBounce_def flip: u_def)
  qed
qed

lemma easeInBounce_bounded: "bounded_easing easeInBounce"
  unfolding bounded_easing_def
proof (intro allI impI)
  fix x t b c d :: real
  assume "0 < d" "0 \<le> t" "t \<le> d" "0 < c"
  then have "0 \<le> easeOutBounce x (d - t) 0 c d \<and> easeOutBounce x (d - t) 0 c d \<le> 0 + c"
    by (intro bounded_easingD [OF easeOutBounce_bounded]) auto
  then show "b \<le> easeInBounce x t b c d \<and> easeInBounce x t b c d \<le> b + c"
    by (simp add: easeInBounce_def)
qed

lemmas ein_bounded =
  pow_in_bounded [of 2, folded poly_in] pow_in_bounded [of 3, folded poly_in]
  pow_in_bounded [of 4, folded poly_in] pow_in_bounded [of 5, folded poly_in]
  easeInSine_bounded easeInExpo_bounded easeInCirc_bounded easeInBounce_bounded

end
