(* ===== verification/Easing_Properties.thy ===== *)
theory Easing_Properties
  imports Easing_Correct
begin

text \<open>
  The properties of the easing plugin: every entry of its table runs an animation from its
  start to its end, the members of a family determine each other, most families never leave
  the range of the animation, and the back functions leave it for a known time.
\<close>

definition easing_families :: "(easing_fn \<times> easing_fn \<times> easing_fn) list" where
  "easing_families =
     [(easeInQuad, easeOutQuad, easeInOutQuad), (easeInCubic, easeOutCubic, easeInOutCubic),
      (easeInQuart, easeOutQuart, easeInOutQuart), (easeInQuint, easeOutQuint, easeInOutQuint),
      (easeInSine, easeOutSine, easeInOutSine), (easeInExpo, easeOutExpo, easeInOutExpo),
      (easeInCirc, easeOutCirc, easeInOutCirc), (easeInBounce, easeOutBounce, easeInOutBounce)]"

lemma table_is_easing: "(name, f) \<in> set easing_table \<Longrightarrow> easing f"
  unfolding easing_table_def
  by (simp, elim disjE conjE; hypsubst;
      rule easeInQuad.easing_axioms easeOutQuad.easing_axioms easeInOutQuad.easing_axioms
        easeInCubic.easing_axioms easeOutCubic.easing_axioms easeInOutCubic.easing_axioms
        easeInQuart.easing_axioms easeOutQuart.easing_axioms easeInOutQuart.easing_axioms
        easeInQuint.easing_axioms easeOutQuint.easing_axioms easeInOutQuint.easing_axioms
        easeInSine.easing_axioms easeOutSine.easing_axioms easeInOutSine.easing_axioms
        easeInExpo.easing_axioms easeOutExpo.easing_axioms easeInOutExpo.easing_axioms
        easeInCirc.easing_axioms easeOutCirc.easing_axioms easeInOutCirc.easing_axioms
        easeInElastic.easing_axioms easeOutElastic.easing_axioms easeInOutElastic.easing_axioms
        easeInBack.easing_axioms easeOutBack.easing_axioms easeInOutBack.easing_axioms
        easeInBounce.easing_axioms easeOutBounce.easing_axioms easeInOutBounce.easing_axioms)

lemma families_are_families:
  "(ein, eout, eio) \<in> set easing_families \<Longrightarrow> easing_family ein eout eio"
  unfolding easing_families_def
  by (simp, elim disjE conjE; hypsubst;
      rule quad.easing_family_axioms cubic.easing_family_axioms quart.easing_family_axioms
        quint.easing_family_axioms sine.easing_family_axioms expo.easing_family_axioms
        circ.easing_family_axioms bounce.easing_family_axioms)

lemma families_bounded_in:
  "(ein, eout, eio) \<in> set easing_families \<Longrightarrow> bounded_easing ein"
  unfolding easing_families_def using ein_bounded by auto



text \<open>
  C39: In each of the eight families, the out function is the in function mirrored in time
  and value, and the in-out function is the in function at double speed up to half the time
  and the out function after it, each over half the change.
\<close>

theorem easing_family_members:
  assumes "(ein, eout, eio) \<in> set easing_families" "0 < d" "c \<noteq> 0"
  shows "eout x t b c d = 2 * b + c - ein x (d - t) b c d \<and>
    eio x t b c d =
      (if t < d / 2 then ein x (2 * t) b (c / 2) d
       else eout x (2 * t - d) (b + c / 2) (c / 2) d)"
proof -
  note fam = families_are_families [OF assms(1)]
  note pair = easing_family.axioms(1) [OF fam]
  have "eout x t b c d + ein x (d - t) b c d = 2 * b + c"
    by (rule easing_pair.dual [OF pair assms(2,3)])
  then show ?thesis
    using easing_family.first_half [OF fam assms(2), of t x b c x]
      easing_family.second_half [OF fam assms(2), of t x b c x] by auto
qed

theorem easing_family_members_witness:
  "easeOutBounce 0 1 0 2 4 = 2 * 0 + 2 - easeInBounce 0 (4 - 1) 0 2 4 \<and>
    easeInOutBounce 0 1 0 2 4 =
      (if 1 < 4 / (2::real) then easeInBounce 0 (2 * 1) 0 (2 / 2) 4
       else easeOutBounce 0 (2 * 1 - 4) (0 + 2 / 2) (2 / 2) 4)"
  by (rule easing_family_members) (simp_all add: easing_families_def)

text \<open>
  At every moment of an animation the eased value of the polynomial, sine, exponential,
  circular and bounce functions lies between start and end: they never overshoot.
\<close>

theorem easing_families_bounded:
  assumes "(ein, eout, eio) \<in> set easing_families" "f \<in> {ein, eout, eio}"
    "0 < d" "0 \<le> t" "t \<le> d" "0 < c"
  shows "b \<le> f x t b c d \<and> f x t b c d \<le> b + c"
proof -
  note fam = families_are_families [OF assms(1)]
  note pair = easing_family.axioms(1) [OF fam]
  note ein = families_bounded_in [OF assms(1)]
  have "bounded_easing f"
    using ein easing_pair.eout_bounded [OF pair ein] easing_family.eio_bounded [OF fam ein]
      assms(2) by auto
  from bounded_easingD [OF this assms(3-6)] show ?thesis .
qed

theorem easing_families_bounded_witness:
  "(10::real) \<le> easeOutBounce 0 3 10 90 4 \<and> easeOutBounce 0 3 10 90 4 \<le> 10 + 90"
  by (rule easing_families_bounded [of easeInBounce easeOutBounce easeInOutBounce])
    (simp_all add: easing_families_def)

text \<open>
  The back function with its default overshoot runs backwards first: its value is below
  the start exactly until the fraction 1.70158 / 2.70158 of the duration, and the out
  function, mirrored, is above the end exactly after the remaining fraction.
\<close>

theorem easeInBack_undershoots:
  assumes "0 < d" "0 < t" "t < d" "0 < c"
  shows "(easeInBack x t b c d None < b \<longleftrightarrow> t / d < 1.70158 / 2.70158) \<and>
    (b + c < easeOutBack x t b c d None \<longleftrightarrow> 1 - 1.70158 / 2.70158 < t / d)"
proof -
  have below: "easeInBack x t b c d None < b \<longleftrightarrow> t / d < 1.70158 / 2.70158"
    if "0 < t" for t
  proof -
    define u where "u = t / d"
    have "0 < c * u * u" using that assms u_def by simp
    moreover have "0 < k \<Longrightarrow> k * v < 0 \<longleftrightarrow> v < 0" for k v :: real
      by (simp add: mult_less_0_iff)
    ultimately have "c * u * u * (2.70158 * u - 1.70158) < 0 \<longleftrightarrow> 2.70158 * u - 1.70158 < 0"
      by blast
    then show ?thesis
      by (simp add: easeInBack_def overshoot_def Let_def mult.commute [of u] flip: u_def)
  qed
  have "easeOutBack x t b c d None = 2 * b + c - easeInBack x (d - t) b c d None"
    using backing.dual [of d c x t b None x] assms by simp
  moreover have "(d - t) / d = 1 - t / d" using assms by (simp add: field_simps)
  ultimately show ?thesis using below [of t] below [of "d - t"] assms by auto
qed

theorem easeInBack_undershoots_witness:
  "(easeInBack 0 1 5 (3::real) 4 None < 5 \<longleftrightarrow> 1 / 4 < 1.70158 / (2.70158::real)) \<and>
    (5 + 3 < easeOutBack 0 1 5 3 4 None \<longleftrightarrow> 1 - 1.70158 / 2.70158 < 1 / (4::real))"
  by (rule easeInBack_undershoots) simp_all

end
