(* ===== verification/Class_Names.thy ===== *)
theory Class_Names
  imports Prelude
begin

text \<open>
  The string operations of JavaScript that \<open>public/js/jquery.js\<close> applies to an element's
  \<open>className\<close> (\<open>indexOf\<close>, \<open>replace\<close> of a string, \<open>split\<close> and \<open>trim\<close> at white space), and
  its \<open>addClass\<close>, \<open>removeClass\<close> and \<open>hasClass\<close> as they work on the string. The lemmas show
  that, on a class name that is a list of words separated by single blanks, they are the
  list operations one expects.
\<close>

section \<open>Strings\<close>

text \<open>\<open>\s\<close> of a regular expression, among the 8-bit characters.\<close>

definition isWs :: "char \<Rightarrow> bool" where
  "isWs c \<longleftrightarrow> c \<in> {CHR 0x09, CHR 0x0A, CHR 0x0B, CHR 0x0C, CHR 0x0D, CHR 0x20, CHR 0xA0}"

fun contains :: "string \<Rightarrow> string \<Rightarrow> bool" where
  "contains p [] = (p = [])"
| "contains p (c # s) = (take (length p) (c # s) = p \<or> contains p s)"

fun replaceFirst :: "string \<Rightarrow> string \<Rightarrow> string \<Rightarrow> string" where
  "replaceFirst p r [] = (if p = [] then r else [])"
| "replaceFirst p r (c # s) =
     (if take (length p) (c # s) = p then r @ drop (length p) (c # s)
      else c # replaceFirst p r s)"

text \<open>\<open>split(/\s+/)\<close>: an empty word before leading and after trailing white space.\<close>

function splitWs :: "string \<Rightarrow> string list" where
  "splitWs s =
     (let w = takeWhile (\<lambda>c. \<not> isWs c) s; rest = dropWhile (\<lambda>c. \<not> isWs c) s in
      if rest = [] then [w] else w # splitWs (dropWhile isWs rest))"
  by pat_completeness auto
termination
proof (relation "measure length", goal_cases)
  case (2 s w rest)
  then have "rest \<noteq> []" "isWs (hd rest)"
    using hd_dropWhile [of "\<lambda>c. \<not> isWs c" s] by simp_all
  then have "length (dropWhile isWs rest) < length rest"
    by (cases rest) (simp_all add: le_imp_less_Suc length_dropWhile_le)
  moreover have "length rest \<le> length s" using 2 by (simp add: length_dropWhile_le)
  ultimately show ?case by simp
qed simp

declare splitWs.simps [simp del]

definition trim :: "string \<Rightarrow> string" where
  "trim s = rev (dropWhile isWs (rev (dropWhile isWs s)))"

lemma length_replaceFirst:
  assumes "contains p s" "length r < length p"
  shows "length (replaceFirst p r s) < length s"
  using assms
proof (induction s)
  case (Cons c s)
  show ?case
  proof (cases "take (length p) (c # s) = p")
    case True
    then have "length p \<le> length (c # s)" by (metis length_take min.cobounded1)
    then show ?thesis using True Cons.prems(2) by simp
  qed (use Cons in simp)
qed simp

section \<open>The class operations\<close>

definition blanked :: "string \<Rightarrow> string" where
  "blanked w = '' '' @ w @ '' ''"

definition addClass :: "string \<Rightarrow> string \<Rightarrow> string" where
  "addClass a className =
     (if a = [] then className
      else let b = splitWs a in
      if className = [] \<and> length b = 1 then a
      else trim (fold (\<lambda>w f. if contains (blanked w) f then f else f @ w @ '' '')
             b (blanked className)))"

text \<open>\<open>while (d.indexOf(" " + w + " ") > -1) d = d.replace(" " + w + " ", " ")\<close>\<close>

function strip :: "string \<Rightarrow> string \<Rightarrow> string" where
  "strip w d =
     (if contains (blanked w) d then strip w (replaceFirst (blanked w) '' '' d) else d)"
  by pat_completeness auto
termination
  by (relation "measure (\<lambda>(w, d). length d)") (auto simp: blanked_def intro!: length_replaceFirst)

declare strip.simps [simp del]

text \<open>\<open>replace(/[\t\r\n]/g, " ")\<close>\<close>

definition detab :: "string \<Rightarrow> string" where
  "detab = map (\<lambda>c. if c \<in> {CHR 0x09, CHR 0x0D, CHR 0x0A} then CHR 0x20 else c)"

definition removeClass :: "string \<Rightarrow> string \<Rightarrow> string" where
  "removeClass a className =
     (if a = [] \<or> className = [] then className
      else trim (fold strip (splitWs a) (detab (blanked className))))"

definition hasClass :: "string \<Rightarrow> string \<Rightarrow> bool" where
  "hasClass a className = contains (blanked a) (detab (blanked className))"

section \<open>Words\<close>

text \<open>A class name as its words: \<open>className\<close> is \<open>unwords ws\<close>, padded it is \<open>padded ws\<close>.\<close>

definition word :: "string \<Rightarrow> bool" where
  "word w \<longleftrightarrow> w \<noteq> [] \<and> (\<forall>c \<in> set w. \<not> isWs c)"

definition padded :: "string list \<Rightarrow> string" where
  "padded ws = '' '' @ concat (map (\<lambda>w. w @ '' '') ws)"

fun unwords :: "string list \<Rightarrow> string" where
  "unwords [] = []"
| "unwords [w] = w"
| "unwords (w # ws) = w @ '' '' @ unwords ws"

lemma blank_ws [simp]: "isWs (CHR 0x20)" by (simp add: isWs_def)

lemma word_blank: "word w \<Longrightarrow> CHR 0x20 \<notin> set w"
  by (auto simp: word_def)

lemma padded_Nil [simp]: "padded [] = '' ''"
  by (simp add: padded_def)

lemma padded_Cons: "padded (w # ws) = '' '' @ w @ padded ws"
  by (simp add: padded_def)

lemma padded_append: "padded (us @ vs) = padded us @ tl (padded vs)"
  by (simp add: padded_def)

lemma padded_snoc: "padded ws @ w @ '' '' = padded (ws @ [w])"
  by (simp add: padded_def)

lemma blanked_unwords: "blanked (unwords ws) = (if ws = [] then ''  '' else padded ws)"
proof (induction ws rule: unwords.induct)
  case (3 w v ws)
  then have "'' '' @ unwords (v # ws) @ '' '' = padded (v # ws)" by (simp add: blanked_def)
  then show ?case by (simp add: blanked_def padded_Cons)
qed (simp_all add: blanked_def padded_def)

lemma contains_skip:
  assumes "b \<notin> set w"
  shows "contains (b # p) (w @ s) = contains (b # p) s"
  using assms by (induction w) auto

lemma replaceFirst_skip:
  assumes "b \<notin> set w"
  shows "replaceFirst (b # p) r (w @ s) = w @ replaceFirst (b # p) r s"
  using assms by (induction w) auto

lemma take_word_match:
  assumes "b \<notin> set w" "b \<notin> set k"
  shows "take (Suc (length k)) (w @ b # s) = k @ [b] \<longleftrightarrow> w = k"
  using assms
proof (induction w arbitrary: k)
  case Nil
  then show ?case by (cases k) auto
next
  case (Cons c w)
  then show ?case by (cases k) auto
qed

lemma padded_hd: "\<exists>s. padded ws = CHR 0x20 # s"
  by (simp add: padded_def)

lemma take_blanked:
  assumes "word w" "word k"
  shows "take (length (blanked k)) (padded (w # ws)) = blanked k \<longleftrightarrow> w = k"
proof -
  obtain s where "padded ws = CHR 0x20 # s" using padded_hd by blast
  then show ?thesis
    using take_word_match [OF word_blank [OF assms(1)] word_blank [OF assms(2)], of s]
    by (simp add: padded_Cons blanked_def)
qed

lemma contains_padded:
  assumes "word k" "\<forall>w \<in> set ws. word w"
  shows "contains (blanked k) (padded ws) \<longleftrightarrow> k \<in> set ws"
  using assms(2)
proof (induction ws)
  case Nil
  then show ?case using assms(1) by (simp add: blanked_def)
next
  case (Cons w ws)
  have "contains (blanked k) (padded (w # ws)) \<longleftrightarrow>
      take (length (blanked k)) (padded (w # ws)) = blanked k \<or>
      contains (blanked k) (w @ padded ws)"
    by (simp add: padded_Cons)
  also have "contains (blanked k) (w @ padded ws) = contains (blanked k) (padded ws)"
    using contains_skip [OF word_blank, of w] Cons.prems by (simp add: blanked_def)
  finally show ?case using take_blanked [of w k ws] assms(1) Cons by auto
qed

lemma replaceFirst_padded:
  assumes "word k" "\<forall>w \<in> set ws. word w" "k \<in> set ws"
  shows "replaceFirst (blanked k) '' '' (padded ws) = padded (remove1 k ws)"
  using assms(2,3)
proof (induction ws)
  case (Cons w ws)
  show ?case
  proof (cases "w = k")
    case True
    then have "take (length (blanked k)) (padded (w # ws)) = blanked k"
      using take_blanked [of w k ws] assms(1) by simp
    then have "replaceFirst (blanked k) '' '' (padded (w # ws))
        = '' '' @ drop (length (blanked k)) (padded (w # ws))"
      by (simp add: padded_Cons)
    with True show ?thesis by (simp add: blanked_def padded_def)
  next
    case False
    then have "take (length (blanked k)) (padded (w # ws)) \<noteq> blanked k"
      using take_blanked [of w k ws] assms(1) Cons.prems by simp
    then have "replaceFirst (blanked k) '' '' (padded (w # ws))
        = '' '' @ replaceFirst (blanked k) '' '' (w @ padded ws)"
      by (simp add: padded_Cons)
    also have "\<dots> = '' '' @ w @ replaceFirst (blanked k) '' '' (padded ws)"
      using replaceFirst_skip [OF word_blank, of w] Cons.prems by (simp add: blanked_def)
    finally show ?thesis using False Cons by (simp add: padded_Cons)
  qed
qed simp

lemma strip_padded:
  assumes "word k" "\<forall>w \<in> set ws. word w"
  shows "strip k (padded ws) = padded (filter (\<lambda>w. w \<noteq> k) ws)"
  using assms(2)
proof (induction "length ws" arbitrary: ws rule: less_induct)
  case less
  show ?case
  proof (cases "k \<in> set ws")
    case True
    then have "strip k (padded ws) = strip k (padded (remove1 k ws))"
      using strip.simps [of k "padded ws"] contains_padded replaceFirst_padded assms(1) less.prems
      by simp
    also have "\<dots> = padded (filter (\<lambda>w. w \<noteq> k) (remove1 k ws))"
      using less.prems True length_pos_if_in_set [OF True]
      by (intro less.hyps) (auto simp: length_remove1 dest: notin_set_remove1)
    also have "filter (\<lambda>w. w \<noteq> k) (remove1 k ws) = filter (\<lambda>w. w \<noteq> k) ws"
      by (simp add: remove1_filter_not filter_remove1)
    finally show ?thesis .
  next
    case False
    then have "filter (\<lambda>w. w \<noteq> k) ws = ws" by (auto simp: filter_id_conv)
    then show ?thesis
      using strip.simps [of k "padded ws"] contains_padded assms(1) less.prems False by simp
  qed
qed

section \<open>The class operations on words\<close>

abbreviation words :: "string list \<Rightarrow> bool" where
  "words ws \<equiv> \<forall>w \<in> set ws. word w"

lemma unwords_Nil_iff: "words ws \<Longrightarrow> unwords ws = [] \<longleftrightarrow> ws = []"
  by (cases ws rule: unwords.cases) (auto simp: word_def)

lemma unwords_ends:
  assumes "words ws" "ws \<noteq> []"
  shows "\<not> isWs (hd (unwords ws))" "\<not> isWs (last (unwords ws))"
  using assms
proof (induction ws rule: unwords.induct)
  case (3 w v ws)
  { case 1 then show ?case using hd_in_set [of w] by (auto simp: word_def hd_append) }
  { case 2 then show ?case
      using 3(2) unwords_Nil_iff [of "v # ws"] by (auto simp: last_append) }
qed (auto simp: word_def)

lemma trim_ends:
  assumes "u \<noteq> []" "\<not> isWs (hd u)" "\<not> isWs (last u)" "\<forall>c \<in> set us. isWs c" "isWs c"
  shows "trim (us @ u @ [c]) = u"
proof -
  have d: "dropWhile isWs v = v" if "v \<noteq> []" "\<not> isWs (hd v)" for v
    using that by (cases v) auto
  have "dropWhile isWs (us @ u @ [c]) = u @ [c]"
    using assms d [of "u @ [c]"] by (simp add: dropWhile_append2)
  then show ?thesis using assms d [of "rev u"] by (simp add: trim_def hd_rev)
qed

lemma trim_padded:
  assumes "words ws" "\<forall>c \<in> set bs. isWs c"
  shows "trim (bs @ padded ws) = unwords ws"
proof (cases "ws = []")
  case True
  have "dropWhile isWs (bs @ '' '') = []" using assms(2) by simp
  then show ?thesis using True by (simp add: trim_def)
next
  case False
  have "bs @ padded ws = (bs @ '' '') @ unwords ws @ '' ''"
    using blanked_unwords [of ws] False by (simp add: blanked_def)
  moreover have "trim ((bs @ '' '') @ unwords ws @ '' '') = unwords ws"
    using assms False unwords_ends [OF assms(1) False] unwords_Nil_iff [OF assms(1)]
    by (intro trim_ends) auto
  ultimately show ?thesis by simp
qed

lemma takeWhile_word:
  assumes "word w"
  shows "takeWhile (\<lambda>c. \<not> isWs c) (w @ CHR 0x20 # s) = w"
    "dropWhile (\<lambda>c. \<not> isWs c) (w @ CHR 0x20 # s) = CHR 0x20 # s"
    "takeWhile (\<lambda>c. \<not> isWs c) w = w" "dropWhile (\<lambda>c. \<not> isWs c) w = []"
  using assms by (auto simp: word_def takeWhile_append2 dropWhile_append2 takeWhile_eq_all_conv)

lemma splitWs_unwords:
  assumes "words ws" "ws \<noteq> []"
  shows "splitWs (unwords ws) = ws"
  using assms
proof (induction ws rule: unwords.induct)
  case (2 w)
  then show ?case by (subst splitWs.simps) (simp add: takeWhile_word)
next
  case (3 w v ws)
  have "dropWhile isWs (unwords (v # ws)) = unwords (v # ws)"
    using 3(2) unwords_ends(1) [of "v # ws"] unwords_Nil_iff [of "v # ws"]
    by (cases "unwords (v # ws)") auto
  then show ?case using 3 by (subst splitWs.simps) (simp add: takeWhile_word)
qed simp

lemma detab_padded: "words ws \<Longrightarrow> detab (padded ws) = padded ws"
  unfolding detab_def padded_def by (induction ws) (auto simp: word_def isWs_def map_idI)

definition addWord :: "string \<Rightarrow> string list \<Rightarrow> string list" where
  "addWord w ws = (if w \<in> set ws then ws else ws @ [w])"

lemma words_addWord: "word w \<Longrightarrow> words ws \<Longrightarrow> words (addWord w ws)"
  by (auto simp: addWord_def)

lemma contains_bs_padded:
  assumes "word k" "words ws" "bs = [] \<or> bs = '' ''"
  shows "contains (blanked k) (bs @ padded ws) \<longleftrightarrow> k \<in> set ws"
proof -
  obtain c k' where "k = c # k'" "c \<noteq> CHR 0x20"
    using assms(1) blank_ws by (cases k) (auto simp: word_def simp del: blank_ws)
  then have "contains (blanked k) ('' '' @ padded ws) \<longleftrightarrow> contains (blanked k) (padded ws)"
    by (simp add: blanked_def padded_def)
  then show ?thesis using assms contains_padded by auto
qed

lemma fold_addWord:
  assumes "words as" "words ws" "bs = [] \<or> bs = '' ''"
  shows "fold (\<lambda>w f. if contains (blanked w) f then f else f @ w @ '' '') as (bs @ padded ws)
    = bs @ padded (fold addWord as ws) \<and> words (fold addWord as ws)"
  using assms(1,2)
proof (induction as arbitrary: ws)
  case (Cons a as)
  then have "contains (blanked a) (bs @ padded ws) \<longleftrightarrow> a \<in> set ws"
    using contains_bs_padded assms(3) by simp
  then have step: "(if contains (blanked a) (bs @ padded ws) then bs @ padded ws
      else (bs @ padded ws) @ a @ '' '') = bs @ padded (addWord a ws)"
    by (simp add: addWord_def padded_snoc)
  have "words as" "words (addWord a ws)" using Cons.prems words_addWord [of a ws] by simp_all
  from Cons.IH [OF this] show ?case unfolding fold_simps step .
qed simp

text \<open>\<open>addClass\<close> appends the missing words, \<open>removeClass\<close> deletes every occurrence.\<close>

lemma addClass_words:
  assumes "words as" "as \<noteq> []" "words ws"
  shows "addClass (unwords as) (unwords ws) = unwords (fold addWord as ws)"
proof -
  have ne: "unwords as \<noteq> []" using unwords_Nil_iff assms by simp
  note split = splitWs_unwords [OF assms(1,2)]
  show ?thesis
  proof (cases "ws = [] \<and> length as = 1")
    case True
    then obtain a where "as = [a]" by (cases as) auto
    then show ?thesis using True ne split by (simp add: addClass_def addWord_def)
  next
    case False
    have "blanked (unwords ws) = (if ws = [] then '' '' else []) @ padded ws"
      by (simp add: blanked_unwords)
    then show ?thesis
      using False ne split unwords_Nil_iff [OF assms(3)]
        fold_addWord [OF assms(1,3), of "if ws = [] then '' '' else []"]
        trim_padded [of "fold addWord as ws" "if ws = [] then '' '' else []"]
      by (auto simp: addClass_def)
  qed
qed

lemma fold_strip:
  assumes "words as" "words ws"
  shows "fold strip as (padded ws) = padded (filter (\<lambda>w. w \<notin> set as) ws)"
  using assms
proof (induction as arbitrary: ws)
  case (Cons a as)
  then have "fold strip (a # as) (padded ws) = fold strip as (padded (filter (\<lambda>w. w \<noteq> a) ws))"
    using strip_padded by simp
  also have "\<dots> = padded (filter (\<lambda>w. w \<notin> set as) (filter (\<lambda>w. w \<noteq> a) ws))"
    using Cons by (intro Cons.IH) auto
  finally show ?case by (simp add: conj_commute)
qed simp

lemma removeClass_words:
  assumes "words as" "as \<noteq> []" "words ws"
  shows "removeClass (unwords as) (unwords ws) = unwords (filter (\<lambda>w. w \<notin> set as) ws)"
proof (cases "ws = []")
  case False
  then show ?thesis
    using assms unwords_Nil_iff splitWs_unwords detab_padded fold_strip
      trim_padded [of "filter (\<lambda>w. w \<notin> set as) ws" "[]"]
    by (simp add: removeClass_def blanked_unwords)
qed (simp add: removeClass_def)

lemma hasClass_words:
  assumes "word a" "words ws"
  shows "hasClass a (unwords ws) \<longleftrightarrow> a \<in> set ws"
proof (cases "ws = []")
  case True
  have "\<not> contains (blanked a) ''  ''"
    using contains_bs_padded [OF assms(1), of "[]" "'' ''"] by simp
  then show ?thesis using True by (simp add: hasClass_def blanked_def [of "[]"] detab_def)
next
  case False
  then show ?thesis
    using assms contains_padded by (simp add: hasClass_def blanked_unwords detab_padded)
qed

end
