(* ===== verification/Animate.thy ===== *)
theory Animate
  imports Class_Names
begin

text \<open>
  The hover effects of \<open>public/js/animate.js\<close>: the page's ready handler attaches, to the
  elements of each class \<open>e_X\<close>, a handler that adds the classes \<open>animated X\<close> when the mouse
  enters and one that removes them when it leaves. One table per section of the file, in
  the order of the calls; an entry is the class selected and the arguments of \<open>addClass\<close>
  and \<open>removeClass\<close>.
\<close>

type_synonym hover = "string \<times> string \<times> string"

definition attention_effects :: "hover list" where
  "attention_effects =
     [(''e_flash'', ''animated flash'', ''animated flash''),
      (''e_bounce'', ''animated bounce'', ''animated bounce''),
      (''e_shake'', ''animated shake'', ''animated shake''),
      (''e_tada'', ''animated tada'', ''animated tada''),
      (''e_swing'', ''animated swing'', ''animated swing''),
      (''e_wobble'', ''animated wobble'', ''animated wobble''),
      (''e_wiggle'', ''animated wiggle'', ''animated wiggle''),
      (''e_pulse'', ''animated pulse'', ''animated pulse'')]"

definition flippers :: "hover list" where
  "flippers =
     [(''e_flip'', ''animated flip'', ''animated flip''),
      (''e_flipInX'', ''animated flipInX'', ''animated flipInX''),
      (''e_flipOutX'', ''animated flipOutX'', ''animated flipOutX''),
      (''e_flipInY'', ''animated flipInY'', ''animated flipInY''),
      (''e_flipOutY'', ''animated flipOutY'', ''animated flipOutY'')]"

definition fading_entrances :: "hover list" where
  "fading_entrances =
     [(''e_fadeIn'', ''animated fadeIn'', ''animated fadeIn''),
      (''e_fadeInUp'', ''animated fadeInUp'', ''animated fadeInUp''),
      (''e_fadeInDown'', ''animated fadeInDown'', ''animated fadeInDown''),
      (''e_fadeInLeft'', ''animated fadeInLeft'', ''animated fadeInLeft''),
      (''e_fadeInRight'', ''animated fadeInRight'', ''animated fadeInRight''),
      (''e_fadeInUpBig'', ''animated fadeInUpBig'', ''animated fadeInUpBig''),
      (''e_fadeInUpBig'', ''animated fadeInUpBig'', ''animated fadeInUpBig''),
      (''e_fadeInDownBig'', ''animated fadeInDownBig'', ''animated fadeInDownBig''),
      (''e_fadeInLeftBig'', ''animated fadeInLeftBig'', ''animated fadeInLeftBig''),
      (''e_fadeInRightBig'', ''animated fadeInRightBig'', ''animated fadeInRightBig'')]"

definition fading_exits :: "hover list" where
  "fading_exits =
     [(''e_fadeOut'', ''animated fadeOut'', ''animated fadeOut''),
      (''e_fadeOutUp'', ''animated fadeOutUp'', ''animated fadeOutUp''),
      (''e_fadeOutDown'', ''animated fadeOutDown'', ''animated fadeOutDown''),
      (''e_fadeOutLeft'', ''animated fadeOutLeft'', ''animated fadeOutLeft''),
      (''e_fadeOutRight'', ''animated fadeOutRight'', ''animated fadeOutRight''),
      (''e_fadeOutUpBig'', ''animated fadeOutUpBig'', ''animated fadeOutUpBig''),
      (''e_fadeOutDownBig'', ''animated fadeOutDownBig'', ''animated fadeOutDownBig''),
      (''e_fadeOutLeftBig'', ''animated fadeOutLeftBig'', ''animated fadeOutLeftBig''),
      (''e_fadeOutRightBig'', ''animated fadeOutRightBig'', ''animated fadeOutRightBig'')]"

definition bouncing_entrances :: "hover list" where
  "bouncing_entrances =
     [(''e_bounceIn'', ''animated bounceIn'', ''animated bounceIn''),
      (''e_bounceInDown'', ''animated bounceInDown'', ''animated bounceInDown''),
      (''e_bounceInUp'', ''animated bounceInUp'', ''animated bounceInUp''),
      (''e_bounceInLeft'', ''animated bounceInLeft'', ''animated bounceInLeft''),
      (''e_bounceInRight'', ''animated bounceInRight'', ''animated bounceInRight'')]"

definition bouncing_exits :: "hover list" where
  "bouncing_exits =
     [(''e_bounceOut'', ''animated bounceOut'', ''animated bounceOut''),
      (''e_bounceOutDown'', ''animated bounceOutDown'', ''animated bounceOutDown''),
      (''e_bounceOutUp'', ''animated bounceOutUp'', ''animated bounceOutUp''),
      (''e_bounceOutLeft'', ''animated bounceOutLeft'', ''animated bounceOutLeft''),
      (''e_bounceOutRight'', ''animated bounceOutRight'', ''animated bounceOutRight'')]"

definition rotating_entrances :: "hover list" where
  "rotating_entrances =
     [(''e_rotateIn'', ''animated rotateIn'', ''animated rotateIn''),
      (''e_rotateInDownLeft'', ''animated rotateInDownLeft'', ''animated rotateInDownLeft''),
      (''e_rotateInDownRight'', ''animated rotateInDownRight'', ''animated rotateInDownRight''),
      (''e_rotateInUpRight'', ''animated rotateInUpRight'', ''animated rotateInUpRight''),
      (''e_rotateInUpLeft'', ''animated rotateInUpLeft'', ''animated rotateInUpLeft'')]"

definition rotating_exits :: "hover list" where
  "rotating_exits =
     [(''e_rotateOut'', ''animated rotateOut'', ''animated rotateOut''),
      (''e_rotateOutDownLeft'', ''animated rotateOutDownLeft'', ''animated rotateOutDownLeft''),
      (''e_rotateOutDownRight'', ''animated rotateOutDownRight'', ''animated rotateOutDownRight''),
      (''e_rotateOutUpLeft'', ''animated rotateOutUpLeft'', ''animated rotateOutUpLeft''),
      (''e_rotateOutUpRight'', ''animated rotateOutUpRight'', ''animated rotateOutUpRight'')]"

definition lightspeed :: "hover list" where
  "lightspeed =
     [(''e_lightSpeedIn'', ''animated lightSpeedIn'', ''animated lightSpeedIn''),
      (''e_lightSpeedOut'', ''animated lightSpeedOut'', ''animated lightSpeedOut'')]"

definition specials :: "hover list" where
  "specials =
     [(''e_hinge'', ''animated hinge'', ''animated hinge''),
      (''e_rollIn'', ''animated rollIn'', ''animated rollIn''),
      (''e_rollOut'', ''animated rollOut'', ''animated rollOut'')]"

definition animate_table :: "hover list" where
  "animate_table = attention_effects @ flippers @ fading_entrances @ fading_exits @
     bouncing_entrances @ bouncing_exits @ rotating_entrances @
     rotating_exits @ lightspeed @ specials"

lemmas animate_tables = attention_effects_def flippers_def fading_entrances_def
  fading_exits_def bouncing_entrances_def bouncing_exits_def rotating_entrances_def
  rotating_exits_def lightspeed_def specials_def

text \<open>
  The handlers of one element: the ready handler binds them to the elements whose class
  name matches at that time; jQuery runs the handlers of an event in the order bound.
\<close>

definition bound :: "string \<Rightarrow> hover list" where
  "bound className = filter (\<lambda>(sel, _, _). hasClass sel className) animate_table"

definition mouseenter :: "hover list \<Rightarrow> string \<Rightarrow> string" where
  "mouseenter hs className = fold (\<lambda>(_, added, _). addClass added) hs className"

definition mouseleave :: "hover list \<Rightarrow> string \<Rightarrow> string" where
  "mouseleave hs className = fold (\<lambda>(_, _, removed). removeClass removed) hs className"

section \<open>The tables are regular\<close>

definition regular :: "hover \<Rightarrow> bool" where
  "regular h = (case h of (sel, added, removed) \<Rightarrow>
     take 2 sel = ''e_'' \<and> word (drop 2 sel) \<and>
     added = unwords [''animated'', drop 2 sel] \<and> removed = added)"

lemma tables_regular:
  "list_all regular attention_effects" "list_all regular flippers"
  "list_all regular fading_entrances" "list_all regular fading_exits"
  "list_all regular bouncing_entrances" "list_all regular bouncing_exits"
  "list_all regular rotating_entrances" "list_all regular rotating_exits"
  "list_all regular lightspeed" "list_all regular specials"
  by (simp_all add: animate_tables regular_def word_def isWs_def)

lemma table_regular: "h \<in> set animate_table \<Longrightarrow> regular h"
  using tables_regular by (auto simp: animate_table_def list_all_iff)

text \<open>The animations an element with the classes \<open>ws\<close> gets.\<close>

definition effects :: "string list \<Rightarrow> string list" where
  "effects ws = map (\<lambda>(sel, _, _). drop 2 sel)
     (filter (\<lambda>(sel, _, _). sel \<in> set ws) animate_table)"

definition effectClasses :: "string list \<Rightarrow> string set" where
  "effectClasses ws = \<Union> ((\<lambda>x. {''animated'', x}) ` set (effects ws))"

lemma word_selector:
  assumes "regular (sel, added, removed)"
  shows "word sel"
proof -
  have "sel = ''e_'' @ drop 2 sel" using assms append_take_drop_id [of 2 sel] by (simp add: regular_def)
  moreover have "word (''e_'' @ drop 2 sel)" using assms by (simp add: regular_def word_def isWs_def)
  ultimately show ?thesis by simp
qed

lemma bound_words:
  assumes "words ws"
  shows "bound (unwords ws) = filter (\<lambda>(sel, _, _). sel \<in> set ws) animate_table"
  unfolding bound_def
proof (rule filter_cong [OF refl])
  fix h
  assume "h \<in> set animate_table"
  moreover obtain sel added removed where h: "h = (sel, added, removed)" by (cases h)
  ultimately have "word sel" using table_regular word_selector by blast
  with hasClass_words [OF this assms] h show
    "(case h of (sel, _, _) \<Rightarrow> hasClass sel (unwords ws)) = (case h of (sel, _, _) \<Rightarrow> sel \<in> set ws)"
    by simp
qed

lemma word_animated: "word ''animated''" by (simp add: word_def isWs_def)

lemma enter_regular:
  assumes "\<forall>h \<in> set hs. regular h" "words ws"
  shows "mouseenter hs (unwords ws)
      = unwords (fold (\<lambda>(sel, _, _) us. addWord (drop 2 sel) (addWord ''animated'' us)) hs ws)"
  using assms
proof (induction hs arbitrary: ws)
  case (Cons h hs)
  obtain sel added removed where h: "h = (sel, added, removed)" by (cases h)
  with Cons.prems have r: "word (drop 2 sel)" "added = unwords [''animated'', drop 2 sel]"
    by (simp_all add: regular_def)
  have "addClass added (unwords ws) = unwords (addWord (drop 2 sel) (addWord ''animated'' ws))"
    using addClass_words [of "[''animated'', drop 2 sel]" ws] r word_animated Cons.prems by simp
  moreover have "words (addWord (drop 2 sel) (addWord ''animated'' ws))"
    using words_addWord r word_animated Cons.prems(2) by blast
  ultimately show ?case using Cons h by (simp add: mouseenter_def)
qed (simp add: mouseenter_def)

lemma leave_regular:
  assumes "\<forall>h \<in> set hs. regular h" "words ws"
  shows "mouseleave hs (unwords ws)
      = unwords (filter (\<lambda>w. \<forall>(sel, _, _) \<in> set hs. w \<noteq> ''animated'' \<and> w \<noteq> drop 2 sel) ws)"
  using assms
proof (induction hs arbitrary: ws)
  case (Cons h hs)
  obtain sel added removed where h: "h = (sel, added, removed)" by (cases h)
  with Cons.prems have r: "word (drop 2 sel)" "removed = unwords [''animated'', drop 2 sel]"
    by (simp_all add: regular_def)
  define vs where "vs = filter (\<lambda>w. w \<noteq> ''animated'' \<and> w \<noteq> drop 2 sel) ws"
  have "removeClass removed (unwords ws) = unwords vs"
    using removeClass_words [of "[''animated'', drop 2 sel]" ws] r word_animated Cons.prems
    by (simp add: vs_def)
  moreover have "words vs" using Cons.prems(2) by (simp add: vs_def)
  ultimately show ?case using Cons h
    by (simp add: mouseleave_def vs_def conj_commute)
qed (simp add: mouseleave_def)

lemma set_addWord: "set (addWord w ws) = insert w (set ws)"
  by (auto simp: addWord_def)

lemma filter_addWord: "\<not> P w \<Longrightarrow> filter P (addWord w ws) = filter P ws"
  by (simp add: addWord_def)

lemma set_enter:
  "set (fold (\<lambda>(sel, _, _) us. addWord (drop 2 sel) (addWord ''animated'' us)) hs ws)
    = set ws \<union> (\<Union>(sel, _, _) \<in> set hs. {''animated'', drop 2 sel})"
  by (induction hs arbitrary: ws) (auto simp: set_addWord)

lemma filter_enter:
  assumes "\<forall>(sel, _, _) \<in> set hs. \<not> P ''animated'' \<and> \<not> P (drop 2 sel)"
  shows "filter P (fold (\<lambda>(sel, _, _) us. addWord (drop 2 sel) (addWord ''animated'' us)) hs ws)
    = filter P ws"
  using assms by (induction hs arbitrary: ws) (auto simp: filter_addWord)

lemma words_enter:
  assumes "\<forall>h \<in> set hs. regular h" "words ws"
  shows "words (fold (\<lambda>(sel, _, _) us. addWord (drop 2 sel) (addWord ''animated'' us)) hs ws)"
  using assms(1,2) word_animated
  by (auto simp: set_enter regular_def)

lemma effectClasses_bound:
  assumes "words ws"
  shows "effectClasses ws = (\<Union>(sel, _, _) \<in> set (bound (unwords ws)). {''animated'', drop 2 sel})"
  unfolding bound_words [OF assms] effectClasses_def effects_def by force

lemma bound_regular: "\<forall>h \<in> set (bound className). regular h"
  using table_regular by (auto simp: bound_def)

section \<open>Properties\<close>

text \<open>
  When the mouse enters an element, the string its class name becomes has exactly the
  classes it had before together with \<open>animated\<close> and the animation of each \<open>e_X\<close> class of
  the table that the element carries.
\<close>

theorem hover_adds_effects:
  assumes "words ws" "word c"
  shows "hasClass c (mouseenter (bound (unwords ws)) (unwords ws))
    \<longleftrightarrow> c \<in> set ws \<or> c \<in> effectClasses ws"
  unfolding enter_regular [OF bound_regular assms(1)] effectClasses_bound [OF assms(1)]
    hasClass_words [OF assms(2) words_enter [OF bound_regular assms(1)]] set_enter by simp

theorem hover_adds_effects_witness:
  "hasClass ''tada'' (mouseenter (bound (unwords [''item'', ''e_tada''])) (unwords [''item'', ''e_tada'']))
    \<longleftrightarrow> ''tada'' \<in> set [''item'', ''e_tada''] \<or> ''tada'' \<in> effectClasses [''item'', ''e_tada'']"
  by (rule hover_adds_effects) (simp_all add: word_def isWs_def)

text \<open>
  C38: Entering and leaving leaves exactly the words that are not effect classes, in their
  order: the class name is restored to the character when the author used none of the
  effect classes, and otherwise an authored \<open>animated\<close> (or animation name) is gone for good.
\<close>

theorem hover_leave_restores:
  assumes "words ws"
  shows "mouseleave (bound (unwords ws)) (mouseenter (bound (unwords ws)) (unwords ws))
    = unwords (filter (\<lambda>w. w \<notin> effectClasses ws) ws)"
proof -
  let ?hs = "bound (unwords ws)"
  let ?P = "\<lambda>w. \<forall>(sel, _, _) \<in> set ?hs. w \<noteq> ''animated'' \<and> w \<noteq> drop 2 sel"
  have "mouseleave ?hs (mouseenter ?hs (unwords ws)) = unwords (filter ?P ws)"
    unfolding enter_regular [OF bound_regular assms]
      leave_regular [OF bound_regular words_enter [OF bound_regular assms]]
    by (subst filter_enter) auto
  moreover have "filter ?P ws = filter (\<lambda>w. w \<notin> effectClasses ws) ws"
    unfolding effectClasses_bound [OF assms] by (rule filter_cong) auto
  ultimately show ?thesis by simp
qed

theorem hover_leave_restores_witness:
  "mouseleave (bound (unwords [''animated'', ''e_flip'']))
      (mouseenter (bound (unwords [''animated'', ''e_flip''])) (unwords [''animated'', ''e_flip'']))
    = unwords (filter (\<lambda>w. w \<notin> effectClasses [''animated'', ''e_flip''])
        [''animated'', ''e_flip''])"
  by (rule hover_leave_restores) (simp add: word_def isWs_def)

end
