(* ===== verification/Page_Handlers.thy ===== *)
theory Page_Handlers
  imports Class_Names
begin

text \<open>
  The small handlers of \<open>public/js/custom.js\<close>: the hover effects of the call to action and of the
  boxes, the marks of the accordion, the title of a gallery image and the button that scrolls up.
  The sliders of the same file are set up in the theories of the slider.
\<close>

section \<open>Hovering\<close>

text \<open>The classes of all elements \<open>.cta a\<close> of the page.\<close>

definition ctaEnter :: "string list \<Rightarrow> string list" where
  "ctaEnter cs = map (addClass ''animated shake'') cs"

definition ctaLeave :: "string list \<Rightarrow> string list" where
  "ctaLeave cs = map (removeClass ''animated shake'') cs"

text \<open>A \<open>.box\<close>: the classes of the elements \<open>.icon\<close> and \<open>p\<close> in it.\<close>

record box =
  icons :: "string list"
  paras :: "string list"

definition boxEnter :: "box \<Rightarrow> box" where
  "boxEnter b = b\<lparr>icons := map (addClass ''animated fadeInDown'') (icons b),
     paras := map (addClass ''animated fadeInUp'') (paras b)\<rparr>"

definition boxLeave :: "box \<Rightarrow> box" where
  "boxLeave b = b\<lparr>icons := map (removeClass ''animated fadeInDown'') (icons b),
     paras := map (removeClass ''animated fadeInUp'') (paras b)\<rparr>"

section \<open>The accordion\<close>

text \<open>
  A group of an accordion: whether its body directly follows an \<open>.accordion-heading\<close>, the class
  of the toggle in it and those of the icons in the toggle.
\<close>

record accordionGroup =
  headed :: bool
  toggle :: string
  toggleIcons :: "string list"

definition onShow :: "accordionGroup \<Rightarrow> accordionGroup" where
  "onShow g =
     (if headed g
      then g\<lparr>toggle := addClass ''active'' (toggle g),
        toggleIcons := map (addClass ''icon-minus'' \<circ> removeClass ''icon-plus'') (toggleIcons g)\<rparr>
      else g)"

text \<open>The target of the event is a body, so \<open>.not($(e.target))\<close> excludes no toggle and no icon.\<close>

definition onHide :: "accordionGroup \<Rightarrow> accordionGroup" where
  "onHide g = g\<lparr>toggle := removeClass ''active'' (toggle g),
     toggleIcons := map (addClass ''icon-plus'' \<circ> removeClass ''icon-minus'') (toggleIcons g)\<rparr>"

datatype accordionEvent = Show nat | Hide nat

definition onAccordion :: "accordionEvent \<Rightarrow> accordionGroup list \<Rightarrow> accordionGroup list" where
  "onAccordion e gs =
     (case e of Show i \<Rightarrow> gs[i := onShow (gs ! i)] | Hide i \<Rightarrow> map onHide gs)"

lemma onAccordion_simps [simp]:
  "onAccordion (Show i) gs = gs[i := onShow (gs ! i)]"
  "onAccordion (Hide i) gs = map onHide gs"
  by (simp_all add: onAccordion_def)

section \<open>The gallery title and the scroll button\<close>

text \<open>A missing attribute reads \<open>undefined\<close>; nothing is escaped.\<close>

definition jsText :: "string option \<Rightarrow> string" where
  "jsText s = (case s of None \<Rightarrow> ''undefined'' | Some t \<Rightarrow> t)"

definition galleryTitle :: "string option \<Rightarrow> string option \<Rightarrow> string" where
  "galleryTitle title alt = ''<h4>'' @ jsText title @ ''</h4>'' @ ''<p>'' @ jsText alt @ ''</p>''"

datatype fading = FadeIn | FadeOut

definition onScroll :: "int \<Rightarrow> fading" where
  "onScroll scrollTop = (if scrollTop > 100 then FadeIn else FadeOut)"

section \<open>The marks of an accordion\<close>

text \<open>A group is marked when it has been shown and no group has been hidden since.\<close>

definition marked :: "accordionEvent list \<Rightarrow> nat \<Rightarrow> bool" where
  "marked es i \<longleftrightarrow> Show i \<in> set (takeWhile (\<lambda>e. \<exists>j. e = Show j) (rev es))"

definition toggle_state :: "bool \<Rightarrow> string \<Rightarrow> bool" where
  "toggle_state m c \<longleftrightarrow> (\<exists>ws. words ws \<and> c = unwords ws \<and> (''active'' \<in> set ws \<longleftrightarrow> m))"

definition icon_state :: "bool \<Rightarrow> string \<Rightarrow> bool" where
  "icon_state m c \<longleftrightarrow> (\<exists>ws. words ws \<and> c = unwords ws \<and>
     (''icon-minus'' \<in> set ws \<longleftrightarrow> m) \<and> (''icon-plus'' \<in> set ws \<longleftrightarrow> \<not> m))"

definition group_state :: "bool \<Rightarrow> accordionGroup \<Rightarrow> bool" where
  "group_state m g \<longleftrightarrow> headed g \<and> toggle_state m (toggle g) \<and> (\<forall>c \<in> set (toggleIcons g). icon_state m c)"

lemma class_words: "word ''active''" "word ''icon-minus''" "word ''icon-plus''"
  by (simp_all add: word_def isWs_def)

lemma add_word:
  "word w \<Longrightarrow> words ws \<Longrightarrow> addClass w (unwords ws) = unwords (addWord w ws)"
  using addClass_words [of "[w]" ws] by simp

lemma remove_word:
  "word w \<Longrightarrow> words ws \<Longrightarrow> removeClass w (unwords ws) = unwords (filter (\<lambda>v. v \<noteq> w) ws)"
  using removeClass_words [of "[w]" ws] by simp

lemma toggle_on: "toggle_state m c \<Longrightarrow> toggle_state True (addClass ''active'' c)"
  unfolding toggle_state_def
proof (elim exE conjE)
  fix ws
  assume ws: "words ws" "c = unwords ws"
  have "words (addWord ''active'' ws)" "''active'' \<in> set (addWord ''active'' ws)"
    using words_addWord [OF class_words(1) ws(1)] by (simp_all add: addWord_def)
  then show "\<exists>vs. words vs \<and> addClass ''active'' c = unwords vs \<and> (''active'' \<in> set vs) = True"
    using add_word [OF class_words(1) ws(1)] ws(2) by metis
qed

lemma toggle_off: "toggle_state m c \<Longrightarrow> toggle_state False (removeClass ''active'' c)"
  unfolding toggle_state_def
proof (elim exE conjE)
  fix ws
  assume ws: "words ws" "c = unwords ws"
  have "words (filter (\<lambda>v. v \<noteq> ''active'') ws)" "''active'' \<notin> set (filter (\<lambda>v. v \<noteq> ''active'') ws)"
    using ws(1) by simp_all
  then show "\<exists>vs. words vs \<and> removeClass ''active'' c = unwords vs \<and> (''active'' \<in> set vs) = False"
    using remove_word [OF class_words(1) ws(1)] ws(2) by metis
qed

lemma swap_icon:
  assumes "words ws" "word a" "word b" "a \<noteq> b"
  shows "\<exists>vs. words vs \<and> addClass a (removeClass b (unwords ws)) = unwords vs \<and> a \<in> set vs \<and> b \<notin> set vs"
proof -
  let ?us = "filter (\<lambda>v. v \<noteq> b) ws"
  have us: "words ?us" using assms(1) by simp
  have "a \<in> set (addWord a ?us)" "b \<notin> set (addWord a ?us)" using assms(4) by (auto simp: addWord_def)
  then show ?thesis
    using remove_word [OF assms(3,1)] add_word [OF assms(2) us] words_addWord [OF assms(2) us] by metis
qed

lemma icon_on: "icon_state m c \<Longrightarrow> icon_state True (addClass ''icon-minus'' (removeClass ''icon-plus'' c))"
  unfolding icon_state_def
proof (elim exE conjE)
  fix ws
  assume ws: "words ws" "c = unwords ws"
  obtain vs where "words vs" "addClass ''icon-minus'' (removeClass ''icon-plus'' c) = unwords vs"
      "''icon-minus'' \<in> set vs" "''icon-plus'' \<notin> set vs"
    using swap_icon [OF ws(1) class_words(2,3)] ws(2) by auto
  then show "\<exists>ws. words ws \<and> addClass ''icon-minus'' (removeClass ''icon-plus'' c) = unwords ws \<and>
      (''icon-minus'' \<in> set ws) = True \<and> (''icon-plus'' \<in> set ws) = (\<not> True)" by blast
qed

lemma icon_off: "icon_state m c \<Longrightarrow> icon_state False (addClass ''icon-plus'' (removeClass ''icon-minus'' c))"
  unfolding icon_state_def
proof (elim exE conjE)
  fix ws
  assume ws: "words ws" "c = unwords ws"
  obtain vs where "words vs" "addClass ''icon-plus'' (removeClass ''icon-minus'' c) = unwords vs"
      "''icon-plus'' \<in> set vs" "''icon-minus'' \<notin> set vs"
    using swap_icon [OF ws(1) class_words(3,2)] ws(2) by auto
  then show "\<exists>ws. words ws \<and> addClass ''icon-plus'' (removeClass ''icon-minus'' c) = unwords ws \<and>
      (''icon-minus'' \<in> set ws) = False \<and> (''icon-plus'' \<in> set ws) = (\<not> False)" by blast
qed

lemma show_state: "group_state m g \<Longrightarrow> group_state True (onShow g)"
  using toggle_on icon_on by (auto simp: group_state_def onShow_def)

lemma hide_state: "group_state m g \<Longrightarrow> group_state False (onHide g)"
  using toggle_off icon_off by (auto simp: group_state_def onHide_def)

lemma group_state_classes:
  assumes "group_state m g"
  shows "hasClass ''active'' (toggle g) = m"
    "\<forall>c \<in> set (toggleIcons g). hasClass ''icon-minus'' c = m \<and> hasClass ''icon-plus'' c = (\<not> m)"
proof -
  obtain ws where "words ws" "toggle g = unwords ws" "''active'' \<in> set ws \<longleftrightarrow> m"
    using assms unfolding group_state_def toggle_state_def by blast
  then show "hasClass ''active'' (toggle g) = m" by (simp only: hasClass_words [OF class_words(1)])
  have "hasClass ''icon-minus'' c = m \<and> hasClass ''icon-plus'' c = (\<not> m)" if i: "icon_state m c" for c
  proof -
    obtain vs where "words vs" "c = unwords vs" "''icon-minus'' \<in> set vs \<longleftrightarrow> m" "''icon-plus'' \<in> set vs \<longleftrightarrow> \<not> m"
      using i unfolding icon_state_def by blast
    then show ?thesis by (simp only: hasClass_words [OF class_words(2)] hasClass_words [OF class_words(3)] simp_thms)
  qed
  then show "\<forall>c \<in> set (toggleIcons g). hasClass ''icon-minus'' c = m \<and> hasClass ''icon-plus'' c = (\<not> m)"
    using assms by (simp add: group_state_def)
qed

lemma accordion_states:
  assumes "\<forall>g \<in> set gs. group_state False g" "\<forall>e \<in> set es. \<forall>i. e = Show i \<longrightarrow> i < length gs"
  shows "length (fold onAccordion es gs) = length gs \<and>
    (\<forall>i < length gs. group_state (marked es i) (fold onAccordion es gs ! i))"
  using assms(2)
proof (induction es rule: rev_induct)
  case Nil
  then show ?case using assms(1) by (simp add: marked_def)
next
  case (snoc e es)
  then have IH: "length (fold onAccordion es gs) = length gs"
    "\<forall>i < length gs. group_state (marked es i) (fold onAccordion es gs ! i)" by simp_all
  show ?case
  proof (cases e)
    case (Show j)
    have m: "marked (es @ [e]) i = (i = j \<or> marked es i)" for i
      by (auto simp: marked_def Show)
    have "group_state (marked (es @ [e]) i) ((fold onAccordion es gs)[j := onShow (fold onAccordion es gs ! j)] ! i)"
      if "i < length gs" for i
    proof (cases "i = j")
      case True
      then show ?thesis using that IH show_state by (auto simp: m)
    next
      case False
      then show ?thesis using that IH by (simp add: m)
    qed
    then show ?thesis using IH(1) by (simp add: Show)
  next
    case (Hide j)
    have "\<not> marked (es @ [e]) i" for i by (simp add: marked_def Hide)
    then show ?thesis using IH hide_state by (auto simp: Hide)
  qed
qed


text \<open>Two open groups, one of them hidden: the other loses its marks though it is open.\<close>

definition closedGroup :: accordionGroup where
  "closedGroup = \<lparr>headed = True, toggle = ''accordion-toggle'', toggleIcons = [''icon-plus'']\<rparr>"


section \<open>Hovering leaves no trace\<close>

lemma hover_words:
  assumes "words as" "as \<noteq> []" "words ws" "set as \<inter> set ws = {}"
  shows "removeClass (unwords as) (addClass (unwords as) (unwords ws)) = unwords ws"
proof -
  have "filter (\<lambda>w. w \<notin> set as) (fold addWord bs vs) = filter (\<lambda>w. w \<notin> set as) vs \<and> words (fold addWord bs vs)"
    if "set bs \<subseteq> set as" "words vs" for bs vs
    using that
  proof (induction bs arbitrary: vs)
    case (Cons b bs)
    then have "words (addWord b vs)" "filter (\<lambda>w. w \<notin> set as) (addWord b vs) = filter (\<lambda>w. w \<notin> set as) vs"
      using assms(1) by (auto simp: addWord_def)
    then show ?case using Cons.IH [of "addWord b vs"] Cons.prems(1) by simp
  qed simp
  from this [of as ws] assms(3)
  have f: "filter (\<lambda>w. w \<notin> set as) (fold addWord as ws) = filter (\<lambda>w. w \<notin> set as) ws"
    "words (fold addWord as ws)" by simp_all
  moreover have "filter (\<lambda>w. w \<notin> set as) ws = ws" using assms(4) by (auto simp: filter_id_conv)
  ultimately show ?thesis
    using addClass_words [OF assms(1-3)] removeClass_words [OF assms(1,2) f(2)] by simp
qed

lemma cta_hover:
  assumes "\<forall>c \<in> set cs. \<exists>ws. words ws \<and> c = unwords ws \<and> {''animated'', ''shake''} \<inter> set ws = {}"
  shows "ctaLeave (ctaEnter cs) = cs"
proof -
  have "words [''animated'', ''shake'']" by (simp add: word_def isWs_def)
  then have "removeClass ''animated shake'' (addClass ''animated shake'' c) = c" if "c \<in> set cs" for c
    using assms that hover_words [of "[''animated'', ''shake'']"] by fastforce
  then show ?thesis by (simp add: ctaEnter_def ctaLeave_def map_idI)
qed

end
