(* ===== verification/RegExp.thy ===== *)
theory RegExp
  imports Prelude
begin

text \<open>
  The regular expressions of JavaScript that the site's scripts use: a backtracking matcher
  after the semantics of the language, with greedy quantifiers, captures and the tests of the
  two ends and of what comes next. \<open>run\<close> lists the states a pattern can reach, in the order the
  engine tries them, and \<open>exec\<close> takes the first state of the leftmost match. Characters are
  8-bit.
\<close>

section \<open>Patterns\<close>

datatype rx = Cls "char \<Rightarrow> bool" | Eps | Seq rx rx | Alt rx rx | Many rx | Maybe rx
  | Grp nat rx | NotAhead rx | AtStart | AtEnd

text \<open>The position, what is left of the subject and the captures.\<close>

type_synonym st = "nat \<times> string \<times> (nat \<Rightarrow> string option)"

definition ahead :: "st \<Rightarrow> st \<Rightarrow> bool" where
  "ahead x y \<longleftrightarrow> fst x < fst y"

text \<open>A quantified pattern may not match the empty string a second time.\<close>

primrec repeats :: "(st \<Rightarrow> st list) \<Rightarrow> nat \<Rightarrow> st \<Rightarrow> st list" where
  "repeats f 0 x = [x]"
| "repeats f (Suc n) x = concat (map (repeats f n) (filter (ahead x) (f x))) @ [x]"

primrec run :: "rx \<Rightarrow> st \<Rightarrow> st list" where
  "run (Cls P) x = (case x of (i, s, g) \<Rightarrow>
     (case s of [] \<Rightarrow> [] | c # s' \<Rightarrow> if P c then [(Suc i, s', g)] else []))"
| "run Eps x = [x]"
| "run (Seq a b) x = concat (map (run b) (run a x))"
| "run (Alt a b) x = run a x @ run b x"
| "run (Many a) x = repeats (run a) (length (fst (snd x))) x"
| "run (Maybe a) x = filter (ahead x) (run a x) @ [x]"
| "run (Grp n a) x = (case x of (i, s, g) \<Rightarrow>
     map (\<lambda>(j, t, g'). (j, t, g'(n \<mapsto> take (j - i) s))) (run a x))"
| "run (NotAhead a) x = (if run a x = [] then [x] else [])"
| "run AtStart x = (if fst x = 0 then [x] else [])"
| "run AtEnd x = (if fst (snd x) = [] then [x] else [])"

definition some_more :: "rx \<Rightarrow> rx" where
  "some_more a = Seq a (Many a)"

primrec times :: "nat \<Rightarrow> rx \<Rightarrow> rx" where
  "times 0 a = Eps"
| "times (Suc n) a = Seq a (times n a)"

primrec upto :: "nat \<Rightarrow> rx \<Rightarrow> rx" where
  "upto 0 a = Eps"
| "upto (Suc n) a = Maybe (Seq a (upto n a))"

fun lit :: "string \<Rightarrow> rx" where
  "lit [] = Eps"
| "lit (c # s) = Seq (Cls (\<lambda>x. x = c)) (lit s)"

text \<open>The match at the leftmost position: the captures, the whole match as number 0.\<close>

fun exec_from :: "rx \<Rightarrow> nat \<Rightarrow> string \<Rightarrow> (nat \<Rightarrow> string option) option" where
  "exec_from r i [] = (case run r (i, [], \<lambda>_. None) of [] \<Rightarrow> None
     | (j, t, g) # _ \<Rightarrow> Some (g(0 \<mapsto> [])))"
| "exec_from r i (c # s) = (case run r (i, c # s, \<lambda>_. None) of
       [] \<Rightarrow> exec_from r (Suc i) s
     | (j, t, g) # _ \<Rightarrow> Some (g(0 \<mapsto> take (j - i) (c # s))))"

definition exec :: "rx \<Rightarrow> string \<Rightarrow> (nat \<Rightarrow> string option) option" where
  "exec r s = exec_from r 0 s"

definition test :: "rx \<Rightarrow> string \<Rightarrow> bool" where
  "test r s \<longleftrightarrow> exec r s \<noteq> None"

section \<open>Character classes\<close>

definition code :: "char \<Rightarrow> nat" where "code c = of_char c"

definition digit :: "char \<Rightarrow> bool" where "digit c \<longleftrightarrow> 48 \<le> code c \<and> code c \<le> 57"

definition letter :: "char \<Rightarrow> bool" where
  "letter c \<longleftrightarrow> 65 \<le> code c \<and> code c \<le> 90 \<or> 97 \<le> code c \<and> code c \<le> 122"

definition wordChar :: "char \<Rightarrow> bool" where
  "wordChar c \<longleftrightarrow> letter c \<or> digit c \<or> c = CHR ''_''"

definition blank :: "char \<Rightarrow> bool" where
  "blank c \<longleftrightarrow> code c \<in> {9, 10, 11, 12, 13, 32, 160}"

section \<open>Lemmas\<close>

lemma run_lit:
  "run (lit p) (i, s, g) = (if take (length p) s = p then [(i + length p, drop (length p) s, g)] else [])"
proof (induction p arbitrary: i s)
  case (Cons c p)
  then show ?case by (cases s) auto
qed simp

text \<open>A repeated class reaches every prefix of the longest run of its characters, longest first.\<close>

lemma repeats_Cls:
  assumes "length s \<le> n"
  shows "repeats (run (Cls P)) n (i, s, g)
    = map (\<lambda>k. (i + k, drop k s, g)) (rev [0..<Suc (length (takeWhile P s))])"
  using assms
proof (induction n arbitrary: i s)
  case (Suc n)
  show ?case
  proof (cases "s = [] \<or> \<not> P (hd s)")
    case True
    then show ?thesis by (cases s) auto
  next
    case False
    then obtain c t where s: "s = c # t" "P c" by (cases s) auto
    let ?m = "length (takeWhile P t)"
    have IH: "repeats (run (Cls P)) n (Suc i, t, g)
      = map (\<lambda>k. (Suc i + k, drop k t, g)) (rev [0..<Suc ?m])"
      by (rule Suc.IH) (use Suc.prems s in simp)
    have one: "filter (ahead (i, s, g)) (run (Cls P) (i, s, g)) = [(Suc i, t, g)]"
      by (simp add: s ahead_def)
    have "repeats (run (Cls P)) (Suc n) (i, s, g)
      = map (\<lambda>k. (Suc i + k, drop k t, g)) (rev [0..<Suc ?m]) @ [(i, s, g)]"
      by (simp only: repeats.simps one IH list.map concat.simps append_Nil2)
    also have "map (\<lambda>k. (Suc i + k, drop k t, g)) (rev [0..<Suc ?m])
      = map (\<lambda>k. (i + k, drop k s, g)) (map Suc (rev [0..<Suc ?m]))"
      by (simp add: s)
    also have "map Suc (rev [0..<Suc ?m]) = rev [1..<Suc (Suc ?m)]"
      by (simp only: rev_map [symmetric] map_Suc_upt One_nat_def)
    also have "map (\<lambda>k. (i + k, drop k s, g)) (rev [1..<Suc (Suc ?m)]) @ [(i, s, g)]
      = map (\<lambda>k. (i + k, drop k s, g)) (rev [0..<Suc (Suc ?m)])"
      by (simp add: upt_conv_Cons del: upt_Suc)
    finally show ?thesis using s by (simp del: upt_Suc)
  qed
qed simp

lemma run_many_Cls:
  "run (Many (Cls P)) (i, s, g)
    = map (\<lambda>k. (i + k, drop k s, g)) (rev [0..<Suc (length (takeWhile P s))])"
  by (simp add: repeats_Cls del: upt_Suc)

lemma set_run_many_Cls:
  "y \<in> set (run (Many (Cls P)) (i, s, g)) \<longleftrightarrow>
    (\<exists>a t. s = a @ t \<and> (\<forall>c \<in> set a. P c) \<and> y = (i + length a, t, g))"
proof -
  have "(\<exists>k < Suc (length (takeWhile P s)). y = (i + k, drop k s, g)) \<longleftrightarrow>
    (\<exists>a t. s = a @ t \<and> (\<forall>c \<in> set a. P c) \<and> y = (i + length a, t, g))" (is "?l = ?r")
  proof
    assume ?l
    then obtain k where k: "k \<le> length (takeWhile P s)" "y = (i + k, drop k s, g)" by auto
    have "length (takeWhile P s) \<le> length s" by (rule length_takeWhile_le)
    then have "length (take k s) = k" using k(1) by simp
    moreover have "take k (takeWhile P s @ dropWhile P s) = take k (takeWhile P s)"
      using k(1) by (simp del: takeWhile_dropWhile_id)
    then have "take k s = take k (takeWhile P s)" by simp
    then have "\<forall>c \<in> set (take k s). P c" by (auto dest: in_set_takeD set_takeWhileD)
    ultimately show ?r
      using k(2) by (intro exI [of _ "take k s"] exI [of _ "drop k s"]) simp
  next
    assume ?r
    then obtain a t where a: "s = a @ t" "\<forall>c \<in> set a. P c" "y = (i + length a, t, g)" by auto
    then have "length a \<le> length (takeWhile P s)" by (simp add: takeWhile_append)
    with a show ?l by (intro exI [of _ "length a"]) auto
  qed
  moreover have "y \<in> set (run (Many (Cls P)) (i, s, g)) \<longleftrightarrow>
    (\<exists>k < Suc (length (takeWhile P s)). y = (i + k, drop k s, g))"
    by (simp only: run_many_Cls) (auto simp del: upt_Suc)
  ultimately show ?thesis by simp
qed

lemma set_run_some_Cls:
  "y \<in> set (run (some_more (Cls P)) (i, s, g)) \<longleftrightarrow>
    (\<exists>a t. s = a @ t \<and> a \<noteq> [] \<and> (\<forall>c \<in> set a. P c) \<and> y = (i + length a, t, g))"
proof (cases s)
  case Nil
  then show ?thesis by (simp add: some_more_def)
next
  case (Cons b u)
  have "y \<in> set (run (some_more (Cls P)) (i, s, g)) \<longleftrightarrow>
    P b \<and> y \<in> set (run (Many (Cls P)) (Suc i, u, g))"
    by (simp add: some_more_def Cons del: run.simps(5))
  also have "\<dots> \<longleftrightarrow> (\<exists>a t. s = a @ t \<and> a \<noteq> [] \<and> (\<forall>c \<in> set a. P c) \<and> y = (i + length a, t, g))"
    unfolding set_run_many_Cls by (auto simp: Cons Cons_eq_append_conv)
  finally show ?thesis .
qed

lemma exec_from_None_iff:
  "exec_from r i s = None \<longleftrightarrow> (\<forall>k \<le> length s. run r (i + k, drop k s, \<lambda>_. None) = [])"
proof (induction s arbitrary: i)
  case Nil
  then show ?case by (auto split: list.split)
next
  case (Cons c s)
  have "(\<forall>k \<le> Suc (length s). run r (i + k, drop k (c # s), \<lambda>_. None) = []) \<longleftrightarrow>
    run r (i, c # s, \<lambda>_. None) = [] \<and> (\<forall>k \<le> length s. run r (Suc i + k, drop k s, \<lambda>_. None) = [])"
    by (simp only: less_Suc_eq_le [symmetric] All_less_Suc2) simp
  then show ?case using Cons [of "Suc i"] by (auto split: list.split)
qed

text \<open>A pattern that begins with \<open>^\<close> is tried at the start only.\<close>

lemma test_anchored:
  "test (Seq AtStart r) s \<longleftrightarrow> run r (0, s, \<lambda>_. None) \<noteq> []"
  by (auto simp: test_def exec_def exec_from_None_iff)

end
