(* ===== verification/Validate.thy ===== *)
theory Validate
  imports RegExp
begin

text \<open>
  The contact form (\<open>public/js/validate.js\<close>): the check of its fields against their
  \<open>data-rule\<close>, the decision to send, and what the handlers of the reply do to the page.

  The children of the \<open>.field\<close> elements are a list of records. \<open>new RegExp\<close> of a rule's
  argument is an argument of the model, the pattern the string denotes or a \<open>SyntaxError\<close>. The
  jQuery file is 1.8: \<open>ajaxComplete\<close> binds a handler to the element and the global event runs
  an element's handlers in the order they were bound, until one throws.
\<close>

section \<open>Fields and rules\<close>

datatype tag = InputTag | TextareaTag

record field =
  tag :: tag
  rule :: "string option"
  val :: string
  isChecked :: bool
  msg :: "string option"

definition splitRule :: "string \<Rightarrow> string \<times> string option" where
  "splitRule r =
     (if CHR '':'' \<in> set r
      then (takeWhile (\<lambda>c. c \<noteq> CHR '':'') r, Some (tl (dropWhile (\<lambda>c. c \<noteq> CHR '':'') r)))
      else (r, None))"

text \<open>
  \<open>parseInt(exp)\<close>: white space, a sign, \<open>0x\<close> for hexadecimal, the digits there are; \<open>None\<close> is
  \<open>NaN\<close>.
\<close>

definition digitValue :: "char \<Rightarrow> nat" where
  "digitValue c = (if digit c then code c - 48
     else if 97 \<le> code c \<and> code c \<le> 122 then code c - 87
     else if 65 \<le> code c \<and> code c \<le> 90 then code c - 55 else 99)"

definition numeral_value :: "nat \<Rightarrow> string \<Rightarrow> int option" where
  "numeral_value radix s =
     (let ds = takeWhile (\<lambda>c. digitValue c < radix) s in
      if ds = [] then None else Some (foldl (\<lambda>n c. n * int radix + int (digitValue c)) 0 ds))"

definition parseInt :: "string option \<Rightarrow> int option" where
  "parseInt ex = (case ex of None \<Rightarrow> None | Some e \<Rightarrow>
     (let s = dropWhile blank e;
          neg = (s \<noteq> [] \<and> hd s = CHR ''-'');
          s = (if s \<noteq> [] \<and> hd s \<in> {CHR ''-'', CHR ''+''} then tl s else s);
          v = (if take 2 s \<in> {''0x'', ''0X''} then numeral_value 16 (drop 2 s) else numeral_value 10 s)
      in map_option (\<lambda>n. if neg then - n else n) v))"

definition emailLocal :: "char \<Rightarrow> bool" where
  "emailLocal c \<longleftrightarrow> \<not> blank c \<and> c \<notin> set ''()<>@,;:/''"

definition emailHost :: "char \<Rightarrow> bool" where
  "emailHost c \<longleftrightarrow> wordChar c \<or> c = CHR ''.'' \<or> c = CHR ''-''"

text \<open>The pattern \<open>/^[^\s()<>@,;:\/]+@\w[\w\.-]+\.[a-z]{2,}$/i\<close>.\<close>

definition emailExp :: rx where
  "emailExp = Seq AtStart (Seq (some_more (Cls emailLocal)) (Seq (Cls (\<lambda>c. c = CHR ''@''))
     (Seq (Cls wordChar) (Seq (some_more (Cls emailHost)) (Seq (Cls (\<lambda>c. c = CHR ''.''))
     (Seq (Cls letter) (Seq (some_more (Cls letter)) AtEnd)))))))"

text \<open>The two \<open>switch\<close> statements: whether the field is in error.\<close>

definition textareaError :: "field \<Rightarrow> string \<Rightarrow> bool" where
  "textareaError f r =
     (case splitRule r of (name, ex) \<Rightarrow>
        if name = ''required'' then val f = []
        else if name = ''maxlen'' then (case parseInt ex of None \<Rightarrow> False | Some n \<Rightarrow> int (length (val f)) < n)
        else False)"

definition inputError :: "(string option \<Rightarrow> script_error + rx) \<Rightarrow> field \<Rightarrow> string \<Rightarrow> script_error + bool" where
  "inputError newRegExp f r =
     (case splitRule r of (name, ex) \<Rightarrow>
        if name = ''email'' then Inr (\<not> test emailExp (val f))
        else if name = ''checked'' then Inr (\<not> isChecked f)
        else if name = ''regexp'' then res_bind (newRegExp ex) (\<lambda>x. Inr (\<not> test x (val f)))
        else Inr (textareaError f r))"

text \<open>The text of \<open>.validation\<close> behind the field.\<close>

definition validationHtml :: "field \<Rightarrow> bool \<Rightarrow> string" where
  "validationHtml f ierror =
     (if ierror then (case msg f of None \<Rightarrow> ''wrong Input'' | Some m \<Rightarrow> m) else [])"

definition fieldError :: "(string option \<Rightarrow> script_error + rx) \<Rightarrow> field \<Rightarrow> string \<Rightarrow> script_error + bool" where
  "fieldError newRegExp f r =
     (case tag f of InputTag \<Rightarrow> inputError newRegExp f r | TextareaTag \<Rightarrow> Inr (textareaError f r))"

fun checkFields ::
    "(string option \<Rightarrow> script_error + rx) \<Rightarrow> field list \<Rightarrow> script_error + (bool \<times> string list)" where
  "checkFields newRegExp [] = Inr (False, [])"
| "checkFields newRegExp (f # fs) =
     (case rule f of
        None \<Rightarrow> checkFields newRegExp fs
      | Some r \<Rightarrow>
          res_bind (fieldError newRegExp f r) (\<lambda>ierror.
          res_bind (checkFields newRegExp fs) (\<lambda>(ferror, htmls).
          Inr (ierror \<or> ferror, validationHtml f ierror # htmls))))"

text \<open>The submit handler: whether the form is posted, and the validation texts.\<close>

definition ofTag :: "tag \<Rightarrow> field list \<Rightarrow> field list" where
  "ofTag t fs = filter (\<lambda>f. tag f = t) fs"

definition submit ::
    "(string option \<Rightarrow> script_error + rx) \<Rightarrow> field list \<Rightarrow> script_error + (bool \<times> string list)" where
  "submit newRegExp fs =
     res_bind (checkFields newRegExp (ofTag InputTag fs)) (\<lambda>(e1, h1).
     res_bind (checkFields newRegExp (ofTag TextareaTag fs)) (\<lambda>(e2, h2).
     Inr (\<not> (e1 \<or> e2), h1 @ h2)))"

section \<open>The reply\<close>

record reply_page =
  sendShown :: bool
  errorHtml :: string
  completes :: "string list"

text \<open>
  One \<open>ajaxComplete\<close> handler, closed over its reply. The variable \<open>result\<close> is declared nowhere
  and the script is strict, so the assignment throws, and so does the read when there was none.
\<close>

definition completeHandler :: "string \<Rightarrow> reply_page \<Rightarrow> reply_page \<times> script_error option" where
  "completeHandler m p =
     (if m = ''OK'' then (p\<lparr>sendShown := True\<rparr>, Some ReferenceError)
      else (p\<lparr>sendShown := False\<rparr>, Some ReferenceError))"

fun runHandlers :: "string list \<Rightarrow> reply_page \<Rightarrow> reply_page \<times> script_error option" where
  "runHandlers [] p = (p, None)"
| "runHandlers (m # ms) p =
     (case completeHandler m p of
        (p', None) \<Rightarrow> runHandlers ms p'
      | (p', Some e) \<Rightarrow> (p', Some e))"

definition success :: "string \<Rightarrow> reply_page \<Rightarrow> reply_page" where
  "success m p = p\<lparr>sendShown := True, completes := completes p @ [m]\<rparr>"

definition reply :: "string \<Rightarrow> reply_page \<Rightarrow> reply_page \<times> script_error option" where
  "reply m p = (let p1 = success m p in runHandlers (completes p1) p1)"

section \<open>The address pattern\<close>

text \<open>
  What the pattern accepts, without a search: the local part ends at the first \<open>@\<close>, the top
  level begins behind the last dot.
\<close>

definition lastPart :: "string \<Rightarrow> string" where
  "lastPart s = rev (takeWhile (\<lambda>c. c \<noteq> CHR ''.'') (rev s))"

definition validEmail :: "string \<Rightarrow> bool" where
  "validEmail s =
     (let a = takeWhile (\<lambda>c. c \<noteq> CHR ''@'') s; d = drop (Suc (length a)) s;
          t = lastPart d; m = take (length d - length t - 1) d
      in a \<noteq> [] \<and> list_all emailLocal a \<and> CHR ''@'' \<in> set s \<and> CHR ''.'' \<in> set d \<and>
         2 \<le> length t \<and> list_all letter t \<and>
         2 \<le> length m \<and> wordChar (hd m) \<and> list_all emailHost m)"

definition emailShape :: "string \<Rightarrow> string \<Rightarrow> char \<Rightarrow> string \<Rightarrow> string \<Rightarrow> bool" where
  "emailShape s a b m t \<longleftrightarrow> s = a @ CHR ''@'' # b # m @ CHR ''.'' # t \<and>
     a \<noteq> [] \<and> list_all emailLocal a \<and> wordChar b \<and> m \<noteq> [] \<and> list_all emailHost m \<and>
     2 \<le> length t \<and> list_all letter t"

lemma run_Cls_Seq:
  "run (Seq (Cls P) r) (i, s, g) = (case s of [] \<Rightarrow> [] | c # s' \<Rightarrow> if P c then run r (Suc i, s', g) else [])"
  by (cases s) simp_all

lemma run_ne: "run (Seq r q) x \<noteq> [] \<longleftrightarrow> (\<exists>y \<in> set (run r x). run q y \<noteq> [])"
  by (auto simp: concat_eq_Nil_conv)

lemma run_some_ne:
  "run (Seq (some_more (Cls P)) q) (i, s, g) \<noteq> [] \<longleftrightarrow>
    (\<exists>a t. s = a @ t \<and> a \<noteq> [] \<and> list_all P a \<and> run q (i + length a, t, g) \<noteq> [])"
  by (simp only: run_ne Bex_def set_run_some_Cls) (auto simp: list_all_iff)

lemma emailExp_shape: "test emailExp s \<longleftrightarrow> (\<exists>a b m t. emailShape s a b m t)"
proof -
  have top: "run (Seq (Cls letter) (Seq (some_more (Cls letter)) AtEnd)) (i, s, g) \<noteq> [] \<longleftrightarrow>
      2 \<le> length s \<and> list_all letter s" for i s g
  proof (cases s)
    case (Cons c t)
    then show ?thesis
      unfolding Cons run_Cls_Seq list.case
      using run_some_ne [of letter AtEnd "Suc i" t g]
      by (cases t) (auto simp: Suc_le_eq simp del: run.simps(3) split: if_splits)
  qed (simp add: run_Cls_Seq)
  have dot: "run (Seq (Cls (\<lambda>c. c = CHR ''.'')) q) (i, s, g) \<noteq> [] \<longleftrightarrow>
      (\<exists>t. s = CHR ''.'' # t \<and> run q (Suc i, t, g) \<noteq> [])" for q i s g
    by (cases s) (auto simp: run_Cls_Seq simp del: run.simps(3))
  have at: "run (Seq (Cls (\<lambda>c. c = CHR ''@'')) q) (i, s, g) \<noteq> [] \<longleftrightarrow>
      (\<exists>t. s = CHR ''@'' # t \<and> run q (Suc i, t, g) \<noteq> [])" for q i s g
    by (cases s) (auto simp: run_Cls_Seq simp del: run.simps(3))
  have first: "run (Seq (Cls wordChar) q) (i, s, g) \<noteq> [] \<longleftrightarrow>
      (\<exists>b t. s = b # t \<and> wordChar b \<and> run q (Suc i, t, g) \<noteq> [])" for q i s g
    by (cases s) (auto simp: run_Cls_Seq simp del: run.simps(3))
  show ?thesis
    unfolding emailExp_def test_anchored run_some_ne at first dot top emailShape_def by blast
qed

lemma lastPart_append: "CHR ''.'' \<notin> set t \<Longrightarrow> lastPart (m @ CHR ''.'' # t) = t"
  by (simp add: lastPart_def takeWhile_append)

lemma lastPart_split:
  assumes "CHR ''.'' \<in> set d"
  shows "d = take (length d - length (lastPart d) - 1) d @ CHR ''.'' # lastPart d"
proof -
  obtain m t where d: "d = m @ CHR ''.'' # t" "CHR ''.'' \<notin> set t"
    using split_list_last [OF assms] by auto
  then show ?thesis by (simp add: lastPart_append)
qed

lemma letter_not_dot: "letter c \<Longrightarrow> c \<noteq> CHR ''.''"
  by (auto simp: letter_def code_def)

lemma emailShape_valid: "emailShape s a b m t \<Longrightarrow> validEmail s"
proof -
  assume sh: "emailShape s a b m t"
  then have s: "s = a @ CHR ''@'' # b # m @ CHR ''.'' # t" and a: "CHR ''@'' \<notin> set a"
    and t: "CHR ''.'' \<notin> set t"
    by (auto simp: emailShape_def list_all_iff emailLocal_def dest: letter_not_dot)
  have "takeWhile (\<lambda>c. c \<noteq> CHR ''@'') s = a" using a by (simp add: s takeWhile_append)
  moreover have "drop (Suc (length a)) s = (b # m) @ CHR ''.'' # t" by (simp add: s)
  moreover have "lastPart ((b # m) @ CHR ''.'' # t) = t" using t by (rule lastPart_append)
  moreover have "emailHost b" using sh by (simp add: emailShape_def emailHost_def)
  moreover have "Suc 0 \<le> length m" using sh by (simp add: emailShape_def Suc_le_eq)
  ultimately show ?thesis using sh
    by (simp add: validEmail_def Let_def emailShape_def)
qed

lemma valid_emailShape:
  assumes "validEmail s"
  shows "\<exists>a b m t. emailShape s a b m t"
proof -
  define a where "a = takeWhile (\<lambda>c. c \<noteq> CHR ''@'') s"
  define d where "d = drop (Suc (length a)) s"
  define t where "t = lastPart d"
  define m where "m = take (length d - length t - 1) d"
  have v: "a \<noteq> []" "list_all emailLocal a" "CHR ''@'' \<in> set s" "CHR ''.'' \<in> set d" "2 \<le> length t"
    "list_all letter t" "2 \<le> length m" "wordChar (hd m)" "list_all emailHost m"
    using assms [unfolded validEmail_def Let_def, folded a_def, folded d_def, folded t_def, folded m_def]
    by blast+
  obtain u w where u: "s = u @ CHR ''@'' # w" "CHR ''@'' \<notin> set u"
    using split_list_first [OF v(3)] by auto
  then have "a = u" by (simp add: a_def takeWhile_append)
  with u have s: "s = a @ CHR ''@'' # d" by (simp add: d_def)
  obtain b n where m: "m = b # n" "n \<noteq> []" using v(7) by (cases m; cases "tl m") auto
  have "d = m @ CHR ''.'' # t" using lastPart_split [OF v(4)] by (simp add: m_def t_def)
  then have "emailShape s a b n t" using s v m by (simp add: emailShape_def)
  then show ?thesis by blast
qed

section \<open>Sent exactly when valid\<close>

definition ruleName :: "field \<Rightarrow> string" where
  "ruleName f = (case rule f of None \<Rightarrow> [] | Some r \<Rightarrow> fst (splitRule r))"

definition ruleArg :: "field \<Rightarrow> string option" where
  "ruleArg f = (case rule f of None \<Rightarrow> None | Some r \<Rightarrow> snd (splitRule r))"

text \<open>What each rule asks of the value, and of which kinds of field.\<close>

definition meets :: "(string option \<Rightarrow> script_error + rx) \<Rightarrow> field \<Rightarrow> bool" where
  "meets newRegExp f \<longleftrightarrow>
     (ruleName f = ''required'' \<longrightarrow> val f \<noteq> []) \<and>
     (ruleName f = ''maxlen'' \<longrightarrow> (\<forall>n. parseInt (ruleArg f) = Some n \<longrightarrow> n \<le> int (length (val f)))) \<and>
     (tag f = InputTag \<longrightarrow>
       (ruleName f = ''email'' \<longrightarrow> validEmail (val f)) \<and>
       (ruleName f = ''checked'' \<longrightarrow> isChecked f) \<and>
       (ruleName f = ''regexp'' \<longrightarrow> (\<forall>r. newRegExp (ruleArg f) = Inr r \<longrightarrow> test r (val f))))"

definition compiles :: "(string option \<Rightarrow> script_error + rx) \<Rightarrow> field \<Rightarrow> bool" where
  "compiles newRegExp f \<longleftrightarrow> (tag f = InputTag \<and> ruleName f = ''regexp'' \<longrightarrow> \<not> isl (newRegExp (ruleArg f)))"

lemma emailExp_valid: "test emailExp s = validEmail s"
  using emailExp_shape emailShape_valid valid_emailShape by blast

lemma fieldError_meets:
  assumes "compiles newRegExp f" "rule f = Some r"
  shows "fieldError newRegExp f r = Inr (\<not> meets newRegExp f)"
proof (cases "tag f = InputTag \<and> fst (splitRule r) = ''regexp''")
  case True
  with assms obtain x where "newRegExp (snd (splitRule r)) = Inr x"
    by (cases "newRegExp (snd (splitRule r))") (auto simp: compiles_def ruleName_def ruleArg_def)
  with True assms(2) show ?thesis
    by (cases "splitRule r")
      (simp add: fieldError_def inputError_def meets_def ruleName_def ruleArg_def)
next
  case False
  obtain name ex where s: "splitRule r = (name, ex)" by (cases "splitRule r")
  then have n: "ruleName f = name" "ruleArg f = ex"
    using assms(2) by (simp_all add: ruleName_def ruleArg_def)
  have "textareaError f r \<longleftrightarrow> (name = ''required'' \<and> val f = []) \<or>
      (name = ''maxlen'' \<and> (\<exists>k. parseInt ex = Some k \<and> int (length (val f)) < k))"
    by (cases "parseInt ex") (simp_all add: textareaError_def s)
  then have t: "textareaError f r \<longleftrightarrow> \<not> ((name = ''required'' \<longrightarrow> val f \<noteq> []) \<and>
      (name = ''maxlen'' \<longrightarrow> (\<forall>k. parseInt ex = Some k \<longrightarrow> k \<le> int (length (val f)))))"
    by (auto simp: not_less)
  have g: "name \<noteq> ''regexp'' \<or> tag f \<noteq> InputTag" using False s by auto
  show ?thesis
    unfolding fieldError_def inputError_def s prod.case meets_def n t
    using g by (cases "tag f"; cases "name = ''email''"; cases "name = ''checked''")
      (simp_all add: emailExp_valid)
qed

definition ruled :: "field list \<Rightarrow> field list" where
  "ruled fs = filter (\<lambda>f. rule f \<noteq> None) fs"

lemma checkFields_meets:
  assumes "\<forall>f \<in> set fs. compiles newRegExp f"
  shows "checkFields newRegExp fs = Inr (\<not> list_all (meets newRegExp) fs,
    map (\<lambda>f. validationHtml f (\<not> meets newRegExp f)) (ruled fs))"
  using assms
proof (induction fs)
  case (Cons f fs)
  show ?case
  proof (cases "rule f")
    case None
    with Cons show ?thesis by (simp add: meets_def ruleName_def ruled_def)
  next
    case (Some r)
    with Cons fieldError_meets [of newRegExp f r] show ?thesis by (simp add: ruled_def)
  qed
qed (simp add: ruled_def)

section \<open>Properties\<close>

text \<open>
  C33: the address pattern of the form, run by the backtracking matcher, accepts exactly the
  strings whose part before the first \<open>@\<close> is made of allowed characters, whose part behind the
  last dot has at least two letters, and whose host between has at least two characters and
  begins with a word character; so it refuses every host of one character.
\<close>

theorem email_pattern: "test emailExp s = validEmail s"
  by (rule emailExp_valid)

text \<open>
  C32: the form is posted exactly when every field meets its rule, and each field with a rule
  gets its message when it does not and an empty text when it does, inputs first; an invalid
  pattern in a rule is the only way to fail.
\<close>

theorem form_sent_iff_valid:
  assumes "\<forall>f \<in> set fs. compiles newRegExp f"
  shows "submit newRegExp fs = Inr (list_all (meets newRegExp) fs,
    map (\<lambda>f. validationHtml f (\<not> meets newRegExp f)) (ruled (ofTag InputTag fs @ ofTag TextareaTag fs)))"
proof -
  have "list_all P fs = (list_all P (ofTag InputTag fs) \<and> list_all P (ofTag TextareaTag fs))" for P
    using tag.exhaust by (auto simp: ofTag_def list_all_iff)
  then show ?thesis
    using checkFields_meets [of "ofTag InputTag fs" newRegExp]
      checkFields_meets [of "ofTag TextareaTag fs" newRegExp] assms
    by (simp add: submit_def ofTag_def ruled_def)
qed

definition demoFields :: "field list" where
  "demoFields =
     [\<lparr>tag = TextareaTag, rule = Some ''required'', val = [], isChecked = False, msg = Some ''write''\<rparr>,
      \<lparr>tag = InputTag, rule = Some ''email'', val = ''me@example.org'', isChecked = False, msg = None\<rparr>,
      \<lparr>tag = InputTag, rule = Some ''maxlen:4'', val = ''Ann'', isChecked = False, msg = None\<rparr>]"

theorem form_sent_iff_valid_witness:
  "submit (\<lambda>_. Inl SyntaxError) demoFields = Inr (list_all (meets (\<lambda>_. Inl SyntaxError)) demoFields,
    map (\<lambda>f. validationHtml f (\<not> meets (\<lambda>_. Inl SyntaxError) f))
      (ruled (ofTag InputTag demoFields @ ofTag TextareaTag demoFields)))"
  by (rule form_sent_iff_valid) (simp add: demoFields_def compiles_def ruleName_def splitRule_def)

text \<open>
  C34: the page shows the outcome of the first reply for ever. Every handler of a completed
  request throws at the undeclared \<open>result\<close>, so after any replies only the handler of the first
  one has worked: the confirmation is shown exactly when the first reply was OK, and the error
  text is never filled in.
\<close>

theorem first_reply_decides:
  "fst (foldl (\<lambda>(p, _) x. reply x p) (reply m \<lparr>sendShown = False, errorHtml = e, completes = []\<rparr>) ms)
    = \<lparr>sendShown = (m = ''OK''), errorHtml = e, completes = m # ms\<rparr>"
proof (induction ms rule: rev_induct)
  case Nil
  then show ?case by (simp add: reply_def success_def completeHandler_def Let_def)
next
  case (snoc x ms)
  then show ?case
    by (auto simp: reply_def success_def completeHandler_def Let_def split: prod.splits)
qed

end
