(* ===== verification/Quicksand.thy ===== *)
theory Quicksand
  imports Prelude Complex_Main
begin

text \<open>
  The shuffling of the portfolio (\<open>public/js/portfolio/jquery.quicksand.js\<close>): what a call does
  to the container, from the positions it fixes to the animations it starts, and the swap of
  the collections when an animation ends.

  An item is a record: its \<open>data-id\<close>, its offset on the page as the browser lays it out, its
  inline position and its opacity. The target collection comes with the offsets and the height
  the browser gives it in the temporary container. Lengths are real numbers.
  The user's \<open>enhancement\<close> and callback functions do not change the items and are left out.
\<close>

section \<open>Data\<close>

type_synonym pos = "real \<times> real"

record item =
  ident :: "string option"
  offset :: pos
  absolute :: bool
  place :: pos
  opacity :: real
  scale :: real

record animation =
  goto :: "pos option"
  fade :: real
  rescale :: "real option"

datatype adjust = Dynamic | Auto | Fixed

text \<open>The attribute option: a name, or a function, given a wrapped or a raw element.\<close>

datatype attribute = ByName | ByFunction "bool \<Rightarrow> item \<Rightarrow> string"

record options =
  attr :: attribute
  adjustHeight :: adjust
  useScaling :: bool
  dx :: real
  dy :: real

record browser =
  msie :: bool
  version :: string
  hasScale :: bool

text \<open>The positioned parent: its offset (\<open>None\<close> for \<open>NaN\<close>), borders and margins.\<close>

record parent =
  relative :: bool
  isBody :: bool
  parentTop :: "real option"
  parentLeft :: "real option"
  border :: pos
  margin :: pos

text \<open>
  The container: its items, its height, the animations that run on the item at a position, and
  what the callback of this run will do: the collection and the height it will set.
\<close>

record panel =
  items :: "item list"
  height :: real
  running :: "(nat \<times> animation) list"
  swap :: "(item list \<times> real option) option"

record target =
  collection :: "item list"
  destHeight :: real

section \<open>Starting a shuffle\<close>

definition scaling :: "browser \<Rightarrow> options \<Rightarrow> bool" where
  "scaling b p \<longleftrightarrow> (if msie b \<or> \<not> hasScale b then False else useScaling p)"

text \<open>\<open>version.substr(0,1) < 7\<close>: the first character as a number.\<close>

definition oldIE :: "browser \<Rightarrow> bool" where
  "oldIE b \<longleftrightarrow> msie b \<and> (case version b of [] \<Rightarrow> True
     | c # _ \<Rightarrow> of_char c \<in> {48..<(55::nat)} \<union> {9..13} \<union> {32, 160})"

definition correct :: "real option \<Rightarrow> real \<Rightarrow> real" where
  "correct base d = (case base of None \<Rightarrow> 0 | Some x \<Rightarrow> x + d)"

definition correctionOffset :: "options \<Rightarrow> parent \<Rightarrow> pos" where
  "correctionOffset p c =
     (let (dt, dl) = (if relative c then if isBody c then (0, 0) else border c
                      else (- fst (border c) - fst (margin c), - snd (border c) - snd (margin c)))
      in (correct (parentTop c) dt - dy p, correct (parentLeft c) dl - dx p))"

definition less_pos :: "pos \<Rightarrow> pos \<Rightarrow> pos" where
  "less_pos a b = (fst a - fst b, snd a - snd b)"

text \<open>
  An item leaves the flow at its place: the margin is set to 0 before it is read, and an item
  that is absolute already is moved by the options the other way.
\<close>

definition pin :: "options \<Rightarrow> pos \<Rightarrow> item \<Rightarrow> item" where
  "pin p corr x =
     (let d = (if absolute x then (- dy p, - dx p) else (dy p, dx p)) in
      x\<lparr>absolute := True, place := (fst (offset x) - 0 - fst corr + fst d, snd (offset x) - 0 - snd corr + snd d)\<rparr>)"

text \<open>
  The elements of a collection that are the same item. A name is compared through the selector
  \<open>[data-id=value]\<close>; a missing attribute reads \<open>undefined\<close>. jQuery's own selector grammar
  takes identifier characters, \<open>#\<close> and the empty value; for a collection of one element it
  quotes the value and asks the browser first. Quotes, brackets and backslashes in a value, which
  jQuery would parse as part of the selector, and blanks around it count as errors here.
\<close>

definition identChar :: "char \<Rightarrow> bool" where
  "identChar c \<longleftrightarrow> (let n = of_char c :: nat in
     48 \<le> n \<and> n \<le> 57 \<or> 65 \<le> n \<and> n \<le> 90 \<or> 97 \<le> n \<and> n \<le> 122 \<or> n = 45 \<or> n = 95 \<or> n = 35 \<or> 160 < n)"

definition quotable :: "char \<Rightarrow> bool" where
  "quotable c \<longleftrightarrow> c \<notin> {CHR 0x22, CHR 0x27, CHR 0x5C, CHR 0x5D, CHR 0x0A, CHR 0x0C, CHR 0x0D}"

definition selectable :: "'a list \<Rightarrow> string \<Rightarrow> bool" where
  "selectable ys k \<longleftrightarrow> list_all identChar k \<or> length ys = 1 \<and> list_all quotable k"

definition same :: "options \<Rightarrow> item \<Rightarrow> item list \<Rightarrow> script_error + item list" where
  "same p x ys =
     (case attr p of
        ByName \<Rightarrow>
          let k = (case ident x of None \<Rightarrow> ''undefined'' | Some k \<Rightarrow> k) in
          if selectable ys k then Inr (filter (\<lambda>y. ident y = Some k) ys) else Inl SyntaxError
      | ByFunction f \<Rightarrow> Inr (case filter (\<lambda>y. f False y = f True x) ys of [] \<Rightarrow> [] | y # _ \<Rightarrow> [y]))"

definition scaleTo :: "bool \<Rightarrow> real \<Rightarrow> real option" where
  "scaleTo sc r = (if sc then Some r else None)"

text \<open>The animation of a source item: to its place in the target, or out of sight.\<close>

definition animateSource :: "options \<Rightarrow> bool \<Rightarrow> pos \<Rightarrow> item list \<Rightarrow> item \<Rightarrow> script_error + animation" where
  "animateSource p sc corr dest x =
     res_bind (same p x dest) (\<lambda>ys. Inr (case ys of
        y # _ \<Rightarrow> \<lparr>goto = Some (less_pos (offset y) corr), fade = 1, rescale = scaleTo sc 1\<rparr>
      | [] \<Rightarrow> \<lparr>goto = None, fade = 0, rescale = scaleTo sc 0\<rparr>))"

text \<open>
  The elements a target item adds when the source has no such item: the clones of all elements
  of the target that are the same item, the first one put at its place; and their animation.
\<close>

definition newItems :: "options \<Rightarrow> bool \<Rightarrow> pos \<Rightarrow> item list \<Rightarrow> item list \<Rightarrow> item \<Rightarrow> script_error + item list" where
  "newItems p sc corr source dest x =
     res_bind (same p x source) (\<lambda>xs.
     if xs \<noteq> [] then Inr []
     else res_bind (same p x dest) (\<lambda>ys.
       Inr (case ys of [] \<Rightarrow> [] | y # zs \<Rightarrow>
         map (\<lambda>z. z\<lparr>opacity := 0, scale := (if sc then 0 else scale z)\<rparr>)
           (y\<lparr>absolute := True, place := less_pos (offset y) corr\<rparr> # zs))))"

definition appear :: "bool \<Rightarrow> animation" where
  "appear sc = \<lparr>goto = None, fade = 1, rescale = scaleTo sc 1\<rparr>"

fun collect :: "('a \<Rightarrow> script_error + 'b) \<Rightarrow> 'a list \<Rightarrow> script_error + 'b list" where
  "collect f [] = Inr []"
| "collect f (x # xs) = res_bind (f x) (\<lambda>y. res_bind (collect f xs) (\<lambda>ys. Inr (y # ys)))"

text \<open>The height now, and the height the callback will set.\<close>

definition heights :: "options \<Rightarrow> real \<Rightarrow> real \<Rightarrow> real \<times> real option" where
  "heights p h dest =
     (case adjustHeight p of
        Dynamic \<Rightarrow> (dest, None)
      | Auto \<Rightarrow> if h < dest then (dest, None) else (h, Some dest)
      | Fixed \<Rightarrow> (h, None))"

definition quicksand ::
    "browser \<Rightarrow> options \<Rightarrow> parent \<Rightarrow> target \<Rightarrow> panel \<Rightarrow> script_error + panel" where
  "quicksand b p c t w =
     (if oldIE b then Inr (w\<lparr>items := collection t\<rparr>)
      else
        let sc = scaling b p; corr = correctionOffset p c;
            source = map (pin p corr) (items w)
        in res_bind (collect (animateSource p sc corr (collection t)) source) (\<lambda>moves.
           res_bind (collect (newItems p sc corr source (collection t)) (collection t)) (\<lambda>added.
           let news = concat added; (h, late) = heights p (height w) (destHeight t)
           in Inr \<lparr>items = source @ news, height = h,
                    running = zip [0..<length (source @ news)] (moves @ replicate (length news) (appear sc)),
                    swap = Some (collection t, late)\<rparr>)))"

section \<open>The end of the animations\<close>

definition animated :: "animation \<Rightarrow> item \<Rightarrow> item" where
  "animated a x = x\<lparr>place := (case goto a of None \<Rightarrow> place x | Some q \<Rightarrow> q), opacity := fade a,
     scale := (case rescale a of None \<Rightarrow> scale x | Some r \<Rightarrow> r)\<rparr>"

text \<open>What is on the screen when the animations have run, before the callback.\<close>

definition shown :: "panel \<Rightarrow> item list" where
  "shown w = fold (\<lambda>(i, a) xs. xs[i := animated a (xs ! i)]) (running w) (items w)"

text \<open>\<open>postCallback\<close>, the first time: the target collection replaces what is in the container.\<close>

definition postCallback :: "panel \<Rightarrow> panel" where
  "postCallback w =
     (case swap w of
        None \<Rightarrow> w
      | Some (dest, late) \<Rightarrow> w\<lparr>items := dest, height := (case late of None \<Rightarrow> height w | Some h \<Rightarrow> h),
          swap := None\<rparr>)"

definition finish :: "panel \<Rightarrow> panel" where
  "finish w = (if running w = [] then w else (postCallback w)\<lparr>running := []\<rparr>)"

end
