(* ===== verification/Quicksand_Properties.thy ===== *)
theory Quicksand_Properties
  imports Quicksand
begin

text \<open>
  What a shuffle shows: when the animations have run, the visible items are those of the target,
  each at the place the target's layout gives it, so that the swap does not move anything; and
  of several shuffles started before the first has ended, the last decides.
\<close>

section \<open>Items with names of their own\<close>

definition named :: "item \<Rightarrow> bool" where
  "named x \<longleftrightarrow> (\<exists>k. ident x = Some k \<and> list_all identChar k)"

definition names_ok :: "item list \<Rightarrow> bool" where
  "names_ok xs \<longleftrightarrow> distinct (map ident xs) \<and> (\<forall>x \<in> set xs. named x)"

lemma collect_map:
  "\<forall>x \<in> set xs. f x = Inr (g x) \<Longrightarrow> collect f xs = Inr (map g xs)"
  by (induction xs) simp_all

lemma same_named:
  "attr p = ByName \<Longrightarrow> named x \<Longrightarrow> same p x ys = Inr (filter (\<lambda>y. ident y = ident x) ys)"
  by (auto simp: same_def named_def selectable_def)

lemma filter_ident:
  assumes "distinct (map ident ys)" "y \<in> set ys"
  shows "filter (\<lambda>z. ident z = ident y) ys = [y]"
  using assms
proof (induction ys)
  case (Cons z ys)
  show ?case
  proof (cases "z = y")
    case True
    then have "\<forall>x \<in> set ys. ident x \<noteq> ident y" using Cons.prems(1) by (auto simp: image_iff)
    with True show ?thesis by (simp add: filter_empty_conv)
  next
    case False
    with Cons show ?thesis by (auto simp: image_iff)
  qed
qed simp

lemma pin_fields [simp]: "ident (pin p corr x) = ident x" "opacity (pin p corr x) = opacity x"
  by (simp_all add: pin_def Let_def)

lemma names_ok_pin [simp]: "names_ok (map (pin p corr) xs) = names_ok xs"
  by (simp add: names_ok_def named_def comp_def)

section \<open>The animations of one shuffle\<close>

definition moveOf :: "bool \<Rightarrow> pos \<Rightarrow> item list \<Rightarrow> item \<Rightarrow> animation" where
  "moveOf sc corr dest x = (case filter (\<lambda>y. ident y = ident x) dest of
     y # _ \<Rightarrow> \<lparr>goto = Some (less_pos (offset y) corr), fade = 1, rescale = scaleTo sc 1\<rparr>
   | [] \<Rightarrow> \<lparr>goto = None, fade = 0, rescale = scaleTo sc 0\<rparr>)"

definition newOf :: "bool \<Rightarrow> pos \<Rightarrow> item \<Rightarrow> item" where
  "newOf sc corr y = y\<lparr>absolute := True, place := less_pos (offset y) corr, opacity := 0,
     scale := (if sc then 0 else scale y)\<rparr>"

definition missing :: "item list \<Rightarrow> item list \<Rightarrow> item list" where
  "missing source dest = filter (\<lambda>y. ident y \<notin> ident ` set source) dest"

lemma animateSource_named:
  assumes "attr p = ByName" "named x"
  shows "animateSource p sc corr dest x = Inr (moveOf sc corr dest x)"
  using assms by (simp add: animateSource_def same_named moveOf_def)

lemma newItems_named:
  assumes "attr p = ByName" "names_ok dest" "y \<in> set dest"
  shows "newItems p sc corr source dest y
    = Inr (if ident y \<in> ident ` set source then [] else [newOf sc corr y])"
proof -
  have y: "named y" "filter (\<lambda>z. ident z = ident y) dest = [y]"
    using assms filter_ident by (auto simp: names_ok_def)
  have "filter (\<lambda>x. ident x = ident y) source = [] \<longleftrightarrow> ident y \<notin> ident ` set source"
    by (auto simp: filter_empty_conv image_iff)
  then show ?thesis
    using assms(1) y by (auto simp: newItems_def same_named newOf_def)
qed

lemma concat_missing:
  "concat (map (\<lambda>y. if ident y \<in> ident ` set source then [] else [f y]) dest) = map f (missing source dest)"
  by (induction dest) (simp_all add: missing_def)

text \<open>The container when the animations have started, for given new items.\<close>

definition started :: "options \<Rightarrow> bool \<Rightarrow> pos \<Rightarrow> target \<Rightarrow> item list \<Rightarrow> panel \<Rightarrow> panel" where
  "started p sc corr t news w =
     (let source = map (pin p corr) (items w); hl = heights p (height w) (destHeight t)
      in \<lparr>items = source @ news, height = fst hl,
          running = zip [0..<length (source @ news)]
            (map (moveOf sc corr (collection t)) source @ replicate (length news) (appear sc)),
          swap = Some (collection t, snd hl)\<rparr>)"

definition shuffled :: "options \<Rightarrow> bool \<Rightarrow> pos \<Rightarrow> target \<Rightarrow> panel \<Rightarrow> panel" where
  "shuffled p sc corr t w =
     started p sc corr t (map (newOf sc corr) (missing (items w) (collection t))) w"

lemma quicksand_started:
  assumes "\<not> oldIE b" "attr p = ByName" "\<forall>x \<in> set (items w). named x"
    "\<forall>y \<in> set (collection t). newItems p (scaling b p) (correctionOffset p c)
        (map (pin p (correctionOffset p c)) (items w)) (collection t) y = Inr (f y)"
  shows "quicksand b p c t w
    = Inr (started p (scaling b p) (correctionOffset p c) t (concat (map f (collection t))) w)"
proof -
  define corr where "corr = correctionOffset p c"
  define source where "source = map (pin p corr) (items w)"
  have "\<forall>x \<in> set source. named x" using assms(3) by (simp add: source_def named_def)
  then have m: "collect (animateSource p (scaling b p) corr (collection t)) source
      = Inr (map (moveOf (scaling b p) corr (collection t)) source)"
    using assms(2) by (intro collect_map) (simp add: animateSource_named)
  have n: "collect (newItems p (scaling b p) corr source (collection t)) (collection t)
      = Inr (map f (collection t))"
    using assms(4) by (intro collect_map) (simp add: corr_def source_def)
  have "length source = length (items w)" by (simp add: source_def)
  then show ?thesis
    using assms(1) m n
    by (simp add: quicksand_def started_def Let_def corr_def [symmetric] source_def [symmetric]
        split: prod.split)
qed

lemma quicksand_shuffled:
  assumes "\<not> oldIE b" "attr p = ByName" "names_ok (items w)" "names_ok (collection t)"
  shows "quicksand b p c t w = Inr (shuffled p (scaling b p) (correctionOffset p c) t w)"
proof -
  have ids: "ident ` pin p corr ` set (items w) = ident ` set (items w)" for corr
    by (simp add: image_image)
  show ?thesis
    using assms
    by (subst quicksand_started [where f = "\<lambda>y. if ident y \<in> ident ` set (items w) then []
          else [newOf (scaling b p) (correctionOffset p c) y]"])
      (simp_all add: newItems_named ids shuffled_def concat_missing names_ok_def [of "items w"])
qed

lemma fold_updates:
  assumes "length as = length xs"
  shows "fold (\<lambda>(i, a) ys. ys[i := f a (ys ! i)]) (zip [0..<length xs] as) xs = map2 f as xs"
  using assms
proof (induction xs arbitrary: as rule: rev_induct)
  case (snoc x xs)
  then obtain bs a where as: "as = bs @ [a]" "length bs = length xs" by (cases as rule: rev_cases) auto
  have "fold (\<lambda>(i, a) ys. ys[i := f a (ys ! i)]) (zip ks cs) (ys @ [x])
      = fold (\<lambda>(i, a) ys. ys[i := f a (ys ! i)]) (zip ks cs) ys @ [x]"
    if "\<forall>k \<in> set ks. k < length ys" for ks cs and ys :: "'b list"
    using that
  proof (induction ks arbitrary: cs ys)
    case (Cons k ks)
    then show ?case by (cases cs) (simp_all add: nth_append list_update_append)
  qed simp
  then show ?case
    using snoc.IH [OF as(2)] as(2) by (simp add: as(1) list_update_append nth_append)
qed simp

lemma shown_started:
  "shown (started p sc corr t news w) =
     map (\<lambda>x. animated (moveOf sc corr (collection t) x) (pin p corr x)) (items w) @
     map (animated (appear sc)) news"
proof -
  let ?s = "map (pin p corr) (items w)"
  have "shown (started p sc corr t news w) = map2 animated
      (map (moveOf sc corr (collection t)) ?s @ replicate (length news) (appear sc)) (?s @ news)"
    unfolding shown_def started_def Let_def panel.simps by (rule fold_updates) simp
  moreover have "map2 animated (replicate (length news) (appear sc)) news = map (animated (appear sc)) news"
    by (simp add: zip_replicate1 comp_def)
  ultimately show ?thesis
    by (simp add: zip_map1 zip_map2 zip_same_conv_map comp_def moveOf_def)
qed

lemma shown_shuffled:
  "shown (shuffled p sc corr t w) =
     map (\<lambda>x. animated (moveOf sc corr (collection t) x) (pin p corr x)) (items w) @
     map (\<lambda>y. animated (appear sc) (newOf sc corr y)) (missing (items w) (collection t))"
  by (simp add: shuffled_def shown_started)

definition visible :: "item list \<Rightarrow> (string option \<times> pos) list" where
  "visible xs = map (\<lambda>x. (ident x, place x)) (filter (\<lambda>x. opacity x \<noteq> 0) xs)"

lemma find_ident:
  assumes "distinct (map ident ys)" "y \<in> set ys" "ident y = ident x"
  shows "moveOf sc corr ys x = \<lparr>goto = Some (less_pos (offset y) corr), fade = 1, rescale = scaleTo sc 1\<rparr>"
  using filter_ident [OF assms(1,2)] assms(3) by (simp add: moveOf_def)

lemma moveOf_missing:
  "ident x \<notin> ident ` set ys \<Longrightarrow> moveOf sc corr ys x = \<lparr>goto = None, fade = 0, rescale = scaleTo sc 0\<rparr>"
  by (auto simp: moveOf_def filter_empty_conv image_iff split: list.split dest!: filter_eq_ConsD)

lemma animated_fields [simp]: "ident (animated a x) = ident x" "opacity (animated a x) = fade a"
  "place (animated a x) = (case goto a of None \<Rightarrow> place x | Some q \<Rightarrow> q)"
  by (simp_all add: animated_def)

lemma set_visible_shuffled:
  assumes "names_ok (items w)" "names_ok (collection t)"
  shows "set (visible (shown (shuffled p sc corr t w)))
    = set (map (\<lambda>y. (ident y, less_pos (offset y) corr)) (collection t))" (is "?l = ?r")
proof (intro set_eqI iffI)
  fix z
  assume "z \<in> ?l"
  then consider x where "x \<in> set (items w)" "fade (moveOf sc corr (collection t) x) \<noteq> 0"
      "z = (ident x, place (animated (moveOf sc corr (collection t) x) (pin p corr x)))"
    | y where "y \<in> set (collection t)" "z = (ident y, less_pos (offset y) corr)"
    by (auto simp: visible_def shown_shuffled missing_def appear_def newOf_def)
  then show "z \<in> ?r"
  proof cases
    case 1
    then obtain y where y: "y \<in> set (collection t)" "ident y = ident x"
      using moveOf_missing [of x "collection t" sc corr] by force
    have "distinct (map ident (collection t))" using assms(2) by (simp add: names_ok_def)
    from find_ident [OF this y, of sc corr] 1 y show ?thesis
      by (auto intro!: image_eqI [of _ _ y])
  qed auto
next
  fix z
  assume "z \<in> ?r"
  then obtain y where y: "y \<in> set (collection t)" "z = (ident y, less_pos (offset y) corr)" by auto
  have d: "distinct (map ident (collection t))" using assms(2) by (simp add: names_ok_def)
  show "z \<in> ?l"
  proof (cases "ident y \<in> ident ` set (items w)")
    case True
    then obtain x where x: "x \<in> set (items w)" "ident y = ident x" by auto
    let ?x = "animated (moveOf sc corr (collection t) x) (pin p corr x)"
    have "?x \<in> set (shown (shuffled p sc corr t w))" using x(1) by (simp add: shown_shuffled)
    moreover have "opacity ?x = 1" "z = (ident ?x, place ?x)"
      using find_ident [OF d y(1) x(2), of sc corr] x(2) y(2) by simp_all
    ultimately show ?thesis unfolding visible_def by (auto intro: rev_image_eqI)
  next
    case False
    let ?x = "animated (appear sc) (newOf sc corr y)"
    have "?x \<in> set (shown (shuffled p sc corr t w))"
      using y(1) False by (simp add: shown_shuffled missing_def)
    moreover have "opacity ?x = 1" "z = (ident ?x, place ?x)"
      using y(2) by (simp_all add: appear_def newOf_def)
    ultimately show ?thesis unfolding visible_def by (auto intro: rev_image_eqI)
  qed
qed

lemma names_ok_cong:
  assumes "map ident xs = map ident ys"
  shows "names_ok xs = names_ok ys"
proof -
  have "(\<forall>x \<in> set xs. named x) \<longleftrightarrow> (\<forall>i \<in> set (map ident xs). \<exists>k. i = Some k \<and> list_all identChar k)"
    for xs by (simp add: named_def)
  with assms show ?thesis by (simp only: names_ok_def)
qed

lemma names_ok_shuffled:
  assumes "names_ok (items w)" "names_ok (collection t)"
  shows "names_ok (items (shuffled p sc corr t w))"
proof -
  have "map ident (items (shuffled p sc corr t w)) = map ident (items w @ missing (items w) (collection t))"
    by (simp add: shuffled_def started_def Let_def comp_def newOf_def)
  moreover have "names_ok (items w @ missing (items w) (collection t))"
    using assms by (auto simp: names_ok_def missing_def distinct_map_filter image_iff)
  ultimately show ?thesis using names_ok_cong by blast
qed

lemma distinct_visible:
  assumes "distinct (map ident xs)"
  shows "distinct (visible xs)"
proof -
  have "distinct (map fst (visible xs))"
    using assms by (simp add: visible_def comp_def distinct_map_filter)
  then show ?thesis by (simp add: distinct_map)
qed

lemma ident_shown:
  "map ident (shown (shuffled p sc corr t w)) = map ident (items (shuffled p sc corr t w))"
  by (simp only: shown_shuffled, simp add: shuffled_def started_def Let_def comp_def newOf_def)

text \<open>
  A shuffle shows its target: when the animations have run the visible items are exactly those of
  the target, each once and at the place the target's layout gives it, whatever was shown before.
\<close>

lemma shuffle_once:
  assumes "\<not> oldIE b" "attr p = ByName" "names_ok (items w)" "names_ok (collection t)"
  shows "\<exists>w'. quicksand b p c t w = Inr w' \<and> names_ok (items w') \<and>
    mset (visible (shown w'))
      = mset (map (\<lambda>y. (ident y, less_pos (offset y) (correctionOffset p c))) (collection t)) \<and>
    items (finish w') = collection t"
proof -
  define w' where "w' = shuffled p (scaling b p) (correctionOffset p c) t w"
  have names: "names_ok (items w')" using names_ok_shuffled assms(3,4) by (simp add: w'_def)
  have "distinct (visible (shown w'))"
    using distinct_visible ident_shown names by (metis names_ok_def w'_def)
  moreover have "distinct (map (\<lambda>y. (ident y, less_pos (offset y) (correctionOffset p c))) (collection t))"
    using assms(4) by (auto simp: names_ok_def distinct_map inj_on_def)
  ultimately have m: "mset (visible (shown w'))
      = mset (map (\<lambda>y. (ident y, less_pos (offset y) (correctionOffset p c))) (collection t))"
    using set_visible_shuffled [OF assms(3,4), of p "scaling b p" "correctionOffset p c"]
    by (subst set_eq_iff_mset_eq_distinct [symmetric]) (simp_all only: w'_def)
  have "items w' = []" if "running w' = []"
    using that by (auto simp: w'_def shuffled_def started_def Let_def)
  moreover have "collection t = []" if "items w' = []"
  proof -
    have w: "items w = []" using that by (simp add: w'_def shuffled_def started_def Let_def)
    moreover have "missing (items w) (collection t) = []"
      using that by (auto simp: w'_def shuffled_def started_def Let_def)
    ultimately show ?thesis by (simp add: missing_def)
  qed
  moreover have "items (postCallback w') = collection t"
    by (simp add: postCallback_def w'_def shuffled_def started_def Let_def split: option.split)
  ultimately have "items (finish w') = collection t" by (simp add: finish_def)
  with names m show ?thesis using quicksand_shuffled [OF assms(1-4)] by (simp add: w'_def)
qed

section \<open>Properties\<close>

definition thumb :: "string \<Rightarrow> pos \<Rightarrow> item" where
  "thumb k q = \<lparr>ident = Some k, offset = q, absolute = False, place = (0, 0), opacity = 1, scale = 1\<rparr>"

definition firefox :: browser where
  "firefox = \<lparr>msie = False, version = ''19.0'', hasScale = False\<rparr>"

definition folio :: options where
  "folio = \<lparr>attr = ByName, adjustHeight = Auto, useScaling = True, dx = 0, dy = 0\<rparr>"

definition bodyParent :: parent where
  "bodyParent = \<lparr>relative = True, isBody = True, parentTop = Some 0, parentLeft = Some 0,
     border = (0, 0), margin = (0, 0)\<rparr>"

definition wall :: panel where
  "wall = \<lparr>items = [thumb ''a'' (0, 0), thumb ''b'' (0, 100)], height = 100, running = [], swap = None\<rparr>"

definition onlyB :: target where
  "onlyB = \<lparr>collection = [thumb ''b'' (0, 0), thumb ''c'' (0, 100)], destHeight = 50\<rparr>"

lemmas demo_folio = thumb_def firefox_def folio_def bodyParent_def wall_def onlyB_def
  oldIE_def names_ok_def named_def identChar_def

text \<open>
  Several shuffles, each started while the animations of the one before still run: before each
  of them the browser has moved the items somewhere, which keeps their names.
\<close>

definition moves_only :: "(item list \<Rightarrow> item list) \<Rightarrow> bool" where
  "moves_only r \<longleftrightarrow> (\<forall>xs. map ident (r xs) = map ident xs)"

fun shuffles ::
    "browser \<Rightarrow> options \<Rightarrow> ((item list \<Rightarrow> item list) \<times> parent \<times> target) list \<Rightarrow> panel \<Rightarrow> script_error + panel" where
  "shuffles b p [] w = Inr w"
| "shuffles b p ((r, c, t) # ts) w =
     res_bind (quicksand b p c t (w\<lparr>items := r (items w)\<rparr>)) (shuffles b p ts)"

lemma shuffles_append:
  "shuffles b p (ts @ us) w = res_bind (shuffles b p ts w) (shuffles b p us)"
proof (induction b p ts w rule: shuffles.induct)
  case (2 b p r c t ts w)
  then show ?case by (cases "quicksand b p c t (w\<lparr>items := r (items w)\<rparr>)") simp_all
qed simp

lemma shuffles_names:
  assumes "\<not> oldIE b" "attr p = ByName" "names_ok (items w)"
    "\<forall>(r, c, t) \<in> set ts. moves_only r \<and> names_ok (collection t)"
  shows "\<exists>w'. shuffles b p ts w = Inr w' \<and> names_ok (items w')"
  using assms(3,4)
proof (induction ts arbitrary: w)
  case (Cons u ts)
  obtain r c t where u: "u = (r, c, t)" by (cases u) auto
  with Cons.prems have ok: "names_ok (items (w\<lparr>items := r (items w)\<rparr>))" "names_ok (collection t)"
    using names_ok_cong [of "r (items w)" "items w"] by (auto simp: moves_only_def)
  show ?case
    using Cons.IH [OF names_ok_shuffled [OF ok]] Cons.prems(2) quicksand_shuffled [OF assms(1,2) ok]
    by (simp add: u)
qed simp

text \<open>
  The last shuffle decides. However many shuffles are started one upon the other, each with
  its own target and with the items wherever the browser has moved them meanwhile, none fails,
  and when the animations end the container holds the target of the last one, with every visible
  item at that target's place: no callback of an earlier shuffle puts its own target there.
\<close>

theorem last_shuffle_decides:
  assumes "\<not> oldIE b" "attr p = ByName" "names_ok (items w)"
    "\<forall>(r, c, t) \<in> set (ts @ [(r', c', t')]). moves_only r \<and> names_ok (collection t)"
  shows "\<exists>w'. shuffles b p (ts @ [(r', c', t')]) w = Inr w' \<and>
    mset (visible (shown w'))
      = mset (map (\<lambda>y. (ident y, less_pos (offset y) (correctionOffset p c'))) (collection t')) \<and>
    items (finish w') = collection t' \<and> finish (finish w') = finish w'"
proof -
  obtain v where v: "shuffles b p ts w = Inr v" "names_ok (items v)"
    using shuffles_names [OF assms(1-3), of ts] assms(4) by auto
  then have ok: "names_ok (items (v\<lparr>items := r' (items v)\<rparr>))" "names_ok (collection t')"
    using assms(4) names_ok_cong [of "r' (items v)" "items v"] by (auto simp: moves_only_def)
  show ?thesis
    using shuffle_once [OF assms(1,2) ok, of c'] v(1)
    by (auto simp: shuffles_append finish_def)
qed

lemma last_shuffle_decides_witness:
  "\<exists>w'. shuffles firefox folio ([(rev \<circ> rev, bodyParent, onlyB)] @ [(id, bodyParent, onlyB\<lparr>destHeight := 10\<rparr>)]) wall = Inr w' \<and>
    mset (visible (shown w'))
      = mset (map (\<lambda>y. (ident y, less_pos (offset y) (correctionOffset folio bodyParent)))
          (collection (onlyB\<lparr>destHeight := 10\<rparr>))) \<and>
    items (finish w') = collection (onlyB\<lparr>destHeight := 10\<rparr>) \<and> finish (finish w') = finish w'"
  by (rule last_shuffle_decides) (simp_all add: demo_folio moves_only_def)

text \<open>Items that share a name.\<close>

lemma newItems_idents:
  assumes "attr p = ByName" "named y"
  shows "\<exists>zs. newItems p sc corr source dest y = Inr zs \<and> (\<forall>z \<in> set zs. ident z = ident y) \<and>
    (ident y \<in> ident ` set source \<longrightarrow> zs = [])"
proof (cases "ident y \<in> ident ` set source")
  case True
  then have "filter (\<lambda>x. ident x = ident y) source \<noteq> []" by (auto simp: filter_empty_conv)
  then show ?thesis using assms by (simp add: newItems_def same_named)
next
  case False
  then have "filter (\<lambda>x. ident x = ident y) source = []" by (auto simp: filter_empty_conv image_iff)
  then show ?thesis using assms False
    by (auto simp: newItems_def same_named split: list.split dest!: arg_cong [of _ _ set])
qed

lemma moveOf_first:
  assumes "ys = us @ y # vs" "ident y = ident x" "ident x \<notin> ident ` set us"
  shows "moveOf sc corr ys x = \<lparr>goto = Some (less_pos (offset y) corr), fade = 1, rescale = scaleTo sc 1\<rparr>"
proof -
  have "filter (\<lambda>z. ident z = ident x) us = []" using assms(3) by (auto simp: filter_empty_conv image_iff)
  then show ?thesis using assms(1,2) by (simp add: moveOf_def)
qed

lemma visible_append: "visible (xs @ ys) = visible xs @ visible ys"
  by (simp add: visible_def)

text \<open>
  Items that share a name pile up. Of the items the container shows, all that have the
  same name move to one place, that of the first item of that name in the target: the places of
  the other target items of that name stay empty until the swap. The portfolio page gives the
  name id-0 to four of its eight items.
\<close>

theorem same_names_pile_up:
  assumes "\<not> oldIE b" "attr p = ByName" "\<forall>z \<in> set (items w) \<union> set (collection t). named z"
    "x \<in> set (items w)" "collection t = us @ y # vs" "ident y = ident x" "ident x \<notin> ident ` set us"
  shows "\<exists>w'. quicksand b p c t w = Inr w' \<and>
    filter (\<lambda>(i, q). i = ident x) (visible (shown w'))
      = replicate (length (filter (\<lambda>z. ident z = ident x) (items w)))
          (ident x, less_pos (offset y) (correctionOffset p c))"
proof -
  let ?corr = "correctionOffset p c" and ?sc = "scaling b p"
  let ?new = "newItems p ?sc ?corr (map (pin p ?corr) (items w)) (collection t)"
  have "\<forall>z \<in> set (collection t). \<exists>zs. ?new z = Inr zs \<and> (\<forall>v \<in> set zs. ident v = ident z) \<and>
      (ident z \<in> ident ` set (items w) \<longrightarrow> zs = [])"
    using newItems_idents [OF assms(2), of _ ?sc ?corr "map (pin p ?corr) (items w)"] assms(3)
    by (auto simp: image_image)
  then obtain f where f: "\<forall>z \<in> set (collection t). ?new z = Inr (f z) \<and>
      (\<forall>v \<in> set (f z). ident v = ident z) \<and> (ident z \<in> ident ` set (items w) \<longrightarrow> f z = [])"
    by (metis (full_types))
  let ?news = "concat (map f (collection t))"
  have fresh: "\<forall>v \<in> set ?news. ident v \<noteq> ident x"
    using f assms(4) by (fastforce simp: image_iff)
  have n: "filter (\<lambda>(i, q). i = ident x) (visible (map (animated (appear ?sc)) ?news)) = []"
    using fresh by (auto simp: visible_def filter_empty_conv)
  have "filter (\<lambda>(i, q). i = ident x)
      (visible (map (\<lambda>z. animated (moveOf ?sc ?corr (collection t) z) (pin p ?corr z)) xs))
    = replicate (length (filter (\<lambda>z. ident z = ident x) xs)) (ident x, less_pos (offset y) ?corr)" for xs
  proof (induction xs)
    case (Cons z xs)
    then show ?case
      using moveOf_first [OF assms(5), of z ?sc ?corr] assms(6,7)
      by (cases "ident z = ident x") (simp_all add: visible_def)
  qed (simp add: visible_def)
  then have "filter (\<lambda>(i, q). i = ident x) (visible (shown (started p ?sc ?corr t ?news w)))
    = replicate (length (filter (\<lambda>z. ident z = ident x) (items w))) (ident x, less_pos (offset y) ?corr)"
    by (simp only: shown_started visible_append filter_append n append_Nil2)
  moreover have "quicksand b p c t w = Inr (started p ?sc ?corr t ?news w)"
    using assms(3) f by (intro quicksand_started [OF assms(1,2)]) blast+
  ultimately show ?thesis by blast
qed

text \<open>The eight items of \<open>portfolio.html\<close>, two to a row, and its three web design items.\<close>

definition thumbs :: panel where
  "thumbs = \<lparr>items = [thumb ''id-0'' (0, 0), thumb ''id-1'' (0, 100), thumb ''id-2'' (100, 0),
     thumb ''id-0'' (100, 100), thumb ''id-4'' (200, 0), thumb ''id-5'' (200, 100),
     thumb ''id-0'' (300, 0), thumb ''id-0'' (300, 100)], height = 400, running = [], swap = None\<rparr>"

definition web :: target where
  "web = \<lparr>collection = [thumb ''id-0'' (0, 0), thumb ''id-0'' (0, 100), thumb ''id-4'' (100, 0),
     thumb ''id-0'' (100, 100)], destHeight = 200\<rparr>"

theorem same_names_pile_up_witness:
  "\<exists>w'. quicksand firefox folio bodyParent web thumbs = Inr w' \<and>
    filter (\<lambda>(i, q). i = Some ''id-0'') (visible (shown w'))
      = replicate 4 (Some ''id-0'', less_pos (0, 0) (correctionOffset folio bodyParent))"
proof -
  have n: "length (filter (\<lambda>z. ident z = Some ''id-0'') (items thumbs)) = 4"
    by (simp add: thumbs_def thumb_def)
  have i: "ident (thumb k q) = Some k" "offset (thumb k q) = q" for k q by (simp_all add: thumb_def)
  have "\<not> oldIE firefox" "attr folio = ByName"
    "\<forall>z \<in> set (items thumbs) \<union> set (collection web). named z" "thumb ''id-0'' (0, 0) \<in> set (items thumbs)"
    by (simp_all add: demo_folio thumbs_def web_def)
  moreover have "collection web = [] @ thumb ''id-0'' (0, 0) #
      [thumb ''id-0'' (0, 100), thumb ''id-4'' (100, 0), thumb ''id-0'' (100, 100)]"
    by (simp add: web_def)
  ultimately show ?thesis
    using same_names_pile_up [of firefox folio thumbs web "thumb ''id-0'' (0, 0)" "[]"
        "thumb ''id-0'' (0, 0)" _ bodyParent] n
    by (simp only: i list.set image_empty empty_iff not_False_eq_True)
qed

end
