(* ===== verification/Portfolio.thy ===== *)
theory Portfolio
  imports Class_Names Quicksand_Properties
begin

text \<open>
  The category filter of the portfolio page (\<open>public/js/portfolio/setting.js\<close>): a click on an
  entry of \<open>.filter\<close> makes it the active one and shuffles the container to the works of its
  category. The handler composes the class operations of jQuery with the shuffle.
\<close>

section \<open>The handler\<close>

text \<open>A work of \<open>$data\<close>, the clone of the container that is made when the page is ready.\<close>

record work =
  workClass :: string
  workType :: "string option"
  thumbOf :: item

text \<open>The class attributes of \<open>.filter li\<close>, the works, and the container on the page.\<close>

record portfolio =
  filters :: "string option list"
  works :: "work list"
  shelf :: panel

text \<open>\<open>split(' ').slice(-1)[0]\<close>\<close>

definition lastWord :: "string \<Rightarrow> string" where
  "lastWord s = rev (takeWhile (\<lambda>c. c \<noteq> CHR 0x20) (rev s))"

definition filteredData :: "string \<Rightarrow> work list \<Rightarrow> script_error + work list" where
  "filteredData k ws =
     (let ts = filter (\<lambda>x. hasClass ''item-thumbs'' (workClass x)) ws in
      if k = ''all'' then Inr ts
      else if list_all identChar k then Inr (filter (\<lambda>x. workType x = Some k) ts)
      else Inl SyntaxError)"

text \<open>The options \<open>quicksand\<close> works with: those of the call over the defaults.\<close>

definition shuffleOptions :: options where
  "shuffleOptions = \<lparr>attr = ByName, adjustHeight = Auto, useScaling = True, dx = 0, dy = 0\<rparr>"

text \<open>
  A click on entry \<open>i\<close>, with the layout the browser gives the works it selects. An entry without
  a class attribute has no \<open>split\<close>. What a failing shuffle has done to the container is dropped.
\<close>

definition filterClick ::
    "browser \<Rightarrow> parent \<Rightarrow> (item list \<Rightarrow> target) \<Rightarrow> nat \<Rightarrow> portfolio \<Rightarrow> portfolio \<times> script_error option" where
  "filterClick b c lay i f =
     (let f1 = f\<lparr>filters := map (map_option (removeClass ''active'')) (filters f)\<rparr> in
      case filters f1 ! i of
        None \<Rightarrow> (f1, Some TypeError)
      | Some k \<Rightarrow>
          (case res_bind (filteredData (lastWord k) (works f1))
                  (\<lambda>ws. quicksand b shuffleOptions c (lay (map thumbOf ws)) (shelf f1)) of
             Inl e \<Rightarrow> (f1, Some e)
           | Inr w \<Rightarrow> (f1\<lparr>shelf := w, filters := (filters f1)[i := Some (addClass ''active'' k)]\<rparr>, None)))"

text \<open>
  A visitor's clicks: before each of them the browser has moved the items of the container. A
  click that throws leaves the page as it is and the next one is handled all the same.
\<close>

type_synonym click = "(item list \<Rightarrow> item list) \<times> parent \<times> (item list \<Rightarrow> target) \<times> nat"

definition moved :: "(item list \<Rightarrow> item list) \<Rightarrow> portfolio \<Rightarrow> portfolio" where
  "moved r f = f\<lparr>shelf := (shelf f)\<lparr>items := r (items (shelf f))\<rparr>\<rparr>"

fun filterClicks :: "browser \<Rightarrow> click list \<Rightarrow> portfolio \<Rightarrow> portfolio \<times> script_error option list" where
  "filterClicks b [] f = (f, [])"
| "filterClicks b ((r, c, lay, i) # es) f =
     (let (f1, e) = filterClick b c lay i (moved r f); (f2, errs) = filterClicks b es f1
      in (f2, e # errs))"

section \<open>One click\<close>

text \<open>An entry: its own words, the last of them its category, and \<open>active\<close> behind them or not.\<close>

definition tab :: "string list \<Rightarrow> bool \<Rightarrow> string option" where
  "tab ws a = Some (unwords (if a then ws @ [''active''] else ws))"

definition tab_ok :: "string list \<Rightarrow> bool" where
  "tab_ok ws \<longleftrightarrow> ws \<noteq> [] \<and> (\<forall>w \<in> set ws. word w) \<and> ''active'' \<notin> set ws \<and> list_all identChar (last ws)"

definition category :: "string \<Rightarrow> work list \<Rightarrow> item list" where
  "category k ws = map thumbOf (filter (\<lambda>x. hasClass ''item-thumbs'' (workClass x) \<and>
     (k = ''all'' \<or> workType x = Some k)) ws)"

definition lays_out :: "(item list \<Rightarrow> target) \<Rightarrow> bool" where
  "lays_out lay \<longleftrightarrow> (\<forall>xs. map ident (collection (lay xs)) = map ident xs)"

lemma word_active: "word ''active''"
  by (simp add: word_def isWs_def)

lemma remove_active:
  assumes "tab_ok ws"
  shows "map_option (removeClass ''active'') (tab ws a) = tab ws False"
proof -
  have "filter (\<lambda>w. w \<noteq> ''active'') ws = ws"
    using assms by (auto simp: tab_ok_def filter_id_conv)
  moreover have "\<forall>w \<in> set (if a then ws @ [''active''] else ws). word w"
    using assms word_active by (auto simp: tab_ok_def)
  ultimately show ?thesis
    using removeClass_words [of "[''active'']" "if a then ws @ [''active''] else ws"] word_active
    by (auto simp: tab_def)
qed

lemma add_active:
  assumes "tab_ok ws"
  shows "Some (addClass ''active'' (unwords ws)) = tab ws True"
  using assms addClass_words [of "[''active'']" ws] word_active
  by (simp add: tab_def tab_ok_def addWord_def)

lemma lastWord_unwords:
  assumes "ws \<noteq> []" "\<forall>w \<in> set ws. word w"
  shows "lastWord (unwords ws) = last ws"
  using assms
proof (induction ws rule: unwords.induct)
  case (2 w)
  then have "takeWhile (\<lambda>c. c \<noteq> CHR 0x20) (rev w) = rev w"
    using word_blank [of w] by (auto simp: takeWhile_eq_all_conv)
  then show ?case by (simp only: lastWord_def unwords.simps rev_rev_ident last_ConsL)
next
  case (3 w v ws)
  have "takeWhile (\<lambda>c. c \<noteq> CHR 0x20) (z @ CHR 0x20 # u) = takeWhile (\<lambda>c. c \<noteq> CHR 0x20) z" for z u
    by (induction z) simp_all
  then have "lastWord (x @ '' '' @ y) = lastWord y" for x y
    by (simp add: lastWord_def)
  then show ?case using 3 by simp
qed simp

lemma filteredData_category:
  assumes "list_all identChar k"
  shows "\<exists>ws'. filteredData k ws = Inr ws' \<and> map thumbOf ws' = category k ws"
  using assms by (auto simp: filteredData_def category_def Let_def intro!: arg_cong [of _ _ "map thumbOf"] filter_cong)

lemma names_ok_filter:
  "names_ok (map f xs) \<Longrightarrow> names_ok (map f (filter P xs))"
  by (auto simp: names_ok_def distinct_map_filter)

lemma names_ok_category:
  assumes "names_ok (category ''all'' ws)"
  shows "names_ok (category k ws)"
proof -
  have "category k ws = map thumbOf (filter (\<lambda>x. k = ''all'' \<or> workType x = Some k)
      (filter (\<lambda>x. hasClass ''item-thumbs'' (workClass x)) ws))"
    by (simp add: category_def conj_commute)
  moreover have "category ''all'' ws = map thumbOf (filter (\<lambda>x. hasClass ''item-thumbs'' (workClass x)) ws)"
    by (simp add: category_def)
  ultimately show ?thesis using assms names_ok_filter by (simp only:)
qed

text \<open>One click from a page whose items have names of their own.\<close>

lemma filterClick_shows:
  assumes "\<not> oldIE b" "filters f = map2 tab ts as" "length as = length ts" "\<forall>ws \<in> set ts. tab_ok ws"
    "names_ok (category ''all'' (works f))" "names_ok (items (shelf f))" "lays_out lay" "i < length ts"
  shows "\<exists>w'. filterClick b c lay i f =
      (f\<lparr>filters := map2 tab ts (map (\<lambda>j. j = i) [0..<length ts]), shelf := w'\<rparr>, None) \<and>
    quicksand b shuffleOptions c (lay (category (last (ts ! i)) (works f))) (shelf f) = Inr w' \<and>
    names_ok (items w')"
proof -
  let ?k = "last (ts ! i)"
  have ti: "tab_ok (ts ! i)" using assms(4,8) by simp
  have off: "map (map_option (removeClass ''active'')) (filters f) = map (\<lambda>ws. tab ws False) ts"
    using assms(2,3,4) by (intro nth_equalityI) (simp_all add: remove_active)
  have on: "(map (\<lambda>ws. tab ws False) ts)[i := tab (ts ! i) True] = map2 tab ts (map (\<lambda>j. j = i) [0..<length ts])"
    using assms(8) by (intro nth_equalityI) (auto simp: nth_list_update)
  have k: "lastWord (unwords (ts ! i)) = ?k" "list_all identChar ?k"
    using ti lastWord_unwords by (simp_all add: tab_ok_def)
  obtain ws where ws: "filteredData ?k (works f) = Inr ws" "map thumbOf ws = category ?k (works f)"
    using filteredData_category [OF k(2)] by blast
  have "names_ok (collection (lay (category ?k (works f))))"
    using names_ok_category [OF assms(5)] names_ok_cong assms(7) by (metis lays_out_def)
  moreover have "attr shuffleOptions = ByName" by (simp add: shuffleOptions_def)
  ultimately obtain w' where w': "quicksand b shuffleOptions c (lay (category ?k (works f))) (shelf f) = Inr w'"
      "names_ok (items w')"
    using shuffle_once assms(1,6) by meson
  show ?thesis
    using w' ws k assms(8) off on add_active [OF ti]
    by (intro exI [of _ w']) (simp add: filterClick_def Let_def tab_def)
qed

section \<open>Properties\<close>

lemma filterClicks_append:
  "filterClicks b (es @ [(r, c, lay, i)]) f =
    (let (f1, errs) = filterClicks b es f; (f2, e) = filterClick b c lay i (moved r f1)
     in (f2, errs @ [e]))"
proof (induction b es f rule: filterClicks.induct)
  case (2 b r' c' lay' i' es f)
  then show ?case by (auto split: prod.splits)
qed (simp split: prod.splits)

definition clicks_ok :: "nat \<Rightarrow> click list \<Rightarrow> bool" where
  "clicks_ok n es \<longleftrightarrow> (\<forall>(r, c, lay, i) \<in> set es. moves_only r \<and> lays_out lay \<and> i < n)"

lemma filterClicks_ok:
  assumes "\<not> oldIE b" "filters f = map2 tab ts as" "length as = length ts" "\<forall>ws \<in> set ts. tab_ok ws"
    "names_ok (category ''all'' (works f))" "names_ok (items (shelf f))" "clicks_ok (length ts) es"
  shows "\<exists>as' w'. filterClicks b es f
      = (f\<lparr>filters := map2 tab ts as', shelf := w'\<rparr>, replicate (length es) None) \<and>
    length as' = length ts \<and> names_ok (items w')"
  using assms(7)
proof (induction es rule: rev_induct)
  case Nil
  have "f = f\<lparr>filters := map2 tab ts as, shelf := shelf f\<rparr>" using assms(2) by simp
  then show ?case using assms(3,6) by (intro exI [of _ as] exI [of _ "shelf f"]) simp
next
  case (snoc e es)
  obtain r c lay i where e: "e = (r, c, lay, i)" by (cases e)
  have ok: "moves_only r" "lays_out lay" "i < length ts" and es: "clicks_ok (length ts) es"
    using snoc.prems by (auto simp: clicks_ok_def e)
  obtain as' w' where IH: "filterClicks b es f
      = (f\<lparr>filters := map2 tab ts as', shelf := w'\<rparr>, replicate (length es) None)"
      "length as' = length ts" "names_ok (items w')"
    using snoc.IH [OF es] by blast
  let ?f = "moved r (f\<lparr>filters := map2 tab ts as', shelf := w'\<rparr>)"
  have "names_ok (items (shelf ?f))"
    using IH(3) ok(1) names_ok_cong [of "r (items w')" "items w'"] by (simp add: moved_def moves_only_def)
  then obtain v where "filterClick b c lay i ?f =
      (?f\<lparr>filters := map2 tab ts (map (\<lambda>j. j = i) [0..<length ts]), shelf := v\<rparr>, None)" "names_ok (items v)"
    using filterClick_shows [OF assms(1) _ IH(2) assms(4) _ _ ok(2,3), of ?f c] assms(5)
    by (auto simp: moved_def)
  then show ?case
    unfolding e
    by (intro exI [of _ "map (\<lambda>j. j = i) [0..<length ts]"] exI [of _ v])
      (simp add: filterClicks_append IH(1) moved_def replicate_append_same)
qed

text \<open>
  C31: the portfolio shows the category clicked last. Whatever entries a visitor clicks, however
  fast, no click fails; afterwards exactly the entry clicked last is marked active, every visible
  item is at its place among the works of that category, and the container ends up with these
  works as the browser lays them out. The works need names of their own.
\<close>

theorem filter_shows_category:
  assumes "\<not> oldIE b" "filters f = map2 tab ts as" "length as = length ts" "\<forall>ws \<in> set ts. tab_ok ws"
    "names_ok (category ''all'' (works f))" "names_ok (items (shelf f))"
    "clicks_ok (length ts) (es @ [(r, c, lay, i)])"
  shows "\<exists>f'. filterClicks b (es @ [(r, c, lay, i)]) f = (f', replicate (Suc (length es)) None) \<and>
    filters f' = map2 tab ts (map (\<lambda>j. j = i) [0..<length ts]) \<and>
    mset (visible (shown (shelf f'))) = mset (map (\<lambda>y. (ident y, less_pos (offset y) (correctionOffset shuffleOptions c)))
        (collection (lay (category (last (ts ! i)) (works f))))) \<and>
    items (finish (shelf f')) = collection (lay (category (last (ts ! i)) (works f)))"
proof -
  have ok: "moves_only r" "lays_out lay" "i < length ts" and es: "clicks_ok (length ts) es"
    using assms(7) by (auto simp: clicks_ok_def)
  obtain as' w' where clicks: "filterClicks b es f
      = (f\<lparr>filters := map2 tab ts as', shelf := w'\<rparr>, replicate (length es) None)"
      "length as' = length ts" "names_ok (items w')"
    using filterClicks_ok [OF assms(1-6) es] by blast
  let ?f = "moved r (f\<lparr>filters := map2 tab ts as', shelf := w'\<rparr>)"
  let ?dest = "collection (lay (category (last (ts ! i)) (works f)))"
  have names: "names_ok (items (shelf ?f))"
    using clicks(3) ok(1) names_ok_cong [of "r (items w')" "items w'"] by (simp add: moved_def moves_only_def)
  have dest: "names_ok ?dest"
    using names_ok_category [OF assms(5)] names_ok_cong ok(2) by (metis lays_out_def)
  obtain v where v: "filterClick b c lay i ?f =
      (?f\<lparr>filters := map2 tab ts (map (\<lambda>j. j = i) [0..<length ts]), shelf := v\<rparr>, None)"
      "quicksand b shuffleOptions c (lay (category (last (ts ! i)) (works f))) (shelf ?f) = Inr v"
    using filterClick_shows [OF assms(1) _ clicks(2) assms(4) _ names ok(2,3), of c] assms(5)
    by (auto simp: moved_def)
  have "attr shuffleOptions = ByName" by (simp add: shuffleOptions_def)
  then have "mset (visible (shown v))
      = mset (map (\<lambda>y. (ident y, less_pos (offset y) (correctionOffset shuffleOptions c))) ?dest)"
    "items (finish v) = ?dest"
    using shuffle_once [OF assms(1) _ names dest, of shuffleOptions c] v(2) by auto
  then show ?thesis
    by (intro exI [of _ "?f\<lparr>filters := map2 tab ts (map (\<lambda>j. j = i) [0..<length ts]), shelf := v\<rparr>"])
      (simp add: filterClicks_append clicks(1) v(1) replicate_append_same)
qed

definition demoWorks :: portfolio where
  "demoWorks = \<lparr>filters = [Some ''all active'', Some ''web''],
     works = [\<lparr>workClass = ''item-thumbs design'', workType = Some ''web'', thumbOf = thumb ''id-0'' (0, 0)\<rparr>,
       \<lparr>workClass = ''item-thumbs'', workType = Some ''icon'', thumbOf = thumb ''id-1'' (0, 100)\<rparr>],
     shelf = wall\<rparr>"

definition rows :: "item list \<Rightarrow> target" where
  "rows xs = \<lparr>collection = map (\<lambda>(k, x). x\<lparr>offset := (100 * real k, 0)\<rparr>) (zip [0..<length xs] xs),
     destHeight = 100 * real (length xs)\<rparr>"

lemma rows_lays_out: "lays_out rows"
  by (auto simp: lays_out_def rows_def intro!: nth_equalityI)

theorem filter_shows_category_witness:
  "\<exists>f'. filterClicks firefox ([(id, bodyParent, rows, 0)] @ [(rev \<circ> rev, bodyParent, rows, 1)]) demoWorks
      = (f', replicate (Suc (length [(id :: item list \<Rightarrow> item list, bodyParent, rows, 0 :: nat)])) None) \<and>
    filters f' = map2 tab [[''all''], [''web'']] (map (\<lambda>j. j = 1) [0..<length [[''all''], [''web'']]]) \<and>
    mset (visible (shown (shelf f'))) = mset (map (\<lambda>y. (ident y, less_pos (offset y) (correctionOffset shuffleOptions bodyParent)))
        (collection (rows (category (last ([[''all''], [''web'']] ! 1)) (works demoWorks))))) \<and>
    items (finish (shelf f')) = collection (rows (category (last ([[''all''], [''web'']] ! 1)) (works demoWorks)))"
proof -
  have "names_ok (map thumbOf (works demoWorks))"
    by (simp add: demoWorks_def demo_folio)
  then have w: "names_ok (category ''all'' (works demoWorks))"
    unfolding category_def by (rule names_ok_filter)
  have t: "\<forall>ws \<in> set [[''all''], [''web'']]. tab_ok ws"
    by (simp add: tab_ok_def word_def isWs_def identChar_def)
  have f: "filters demoWorks = map2 tab [[''all''], [''web'']] [True, False]"
    by (simp add: demoWorks_def tab_def)
  have b: "\<not> oldIE firefox" "names_ok (items (shelf demoWorks))"
    by (simp_all add: demoWorks_def demo_folio)
  have c: "clicks_ok (length [[''all''], [''web'']])
      ([(id, bodyParent, rows, 0)] @ [(rev \<circ> rev, bodyParent, rows, 1)])"
    using rows_lays_out by (simp add: clicks_ok_def moves_only_def)
  show ?thesis by (rule filter_shows_category [OF b(1) f _ t w b(2) c]) simp
qed

end
