(* ===== verification/RegExp_Facts.thy ===== *)
theory RegExp_Facts
  imports RegExp
begin

text \<open>
  Facts about the matcher that several patterns share: which state a pattern reaches first, the
  captures it leaves alone, and the characters it cannot match without.
\<close>

section \<open>What a pattern reaches first\<close>

definition first :: "rx \<Rightarrow> st \<Rightarrow> st \<Rightarrow> bool" where
  "first r x y \<longleftrightarrow> (\<exists>ys. run r x = y # ys)"

lemma first_Seq: "first a x y \<Longrightarrow> first b y z \<Longrightarrow> first (Seq a b) x z"
  by (auto simp: first_def)

lemma first_Grp:
  "first a (i, s, g) (j, t, h) \<Longrightarrow> first (Grp n a) (i, s, g) (j, t, h(n \<mapsto> take (j - i) s))"
  by (auto simp: first_def)

lemma first_AltI1: "first a x y \<Longrightarrow> first (Alt a b) x y"
  by (auto simp: first_def)

lemma first_AltI2: "run a x = [] \<Longrightarrow> first b x y \<Longrightarrow> first (Alt a b) x y"
  by (auto simp: first_def)

lemma first_Maybe: "first a x y \<Longrightarrow> ahead x y \<Longrightarrow> first (Maybe a) x y"
  by (auto simp: first_def)

lemma first_MaybeN: "run a x = [] \<Longrightarrow> first (Maybe a) x x"
  by (auto simp: first_def)

lemma first_lit: "first (lit p) (i, p @ s, g) (i + length p, s, g)"
  by (auto simp: first_def run_lit)

lemma first_times:
  "length u = n \<Longrightarrow> list_all P u \<Longrightarrow> first (times n (Cls P)) (i, u @ s, g) (i + length u, s, g)"
proof (induction n arbitrary: u i)
  case (Suc n)
  then obtain c v where u: "u = c # v" by (cases u) auto
  have "first (times n (Cls P)) (Suc i, v @ s, g) (Suc i + length v, s, g)"
    by (rule Suc.IH) (use Suc.prems u in simp_all)
  moreover have "first (Cls P) (i, u @ s, g) (Suc i, v @ s, g)"
    using Suc.prems(2) by (simp add: first_def u)
  ultimately have "first (Seq (Cls P) (times n (Cls P))) (i, u @ s, g) (Suc i + length v, s, g)"
    by (rule first_Seq [rotated])
  then show ?case by (simp add: u)
qed (simp add: first_def)

lemma first_many:
  "first (Many (Cls P)) (i, s, g) (i + length (takeWhile P s), dropWhile P s, g)"
  unfolding first_def run_many_Cls by (simp add: dropWhile_eq_drop)

lemma exec_from_skip:
  "\<forall>c \<in> set u. \<forall>i s g. run r (i, c # s, g) = [] \<Longrightarrow> exec_from r i (u @ s) = exec_from r (i + length u) s"
  by (induction u arbitrary: i) auto

lemma exec_from_first:
  "first r (i, s, \<lambda>_. None) (j, t, g) \<Longrightarrow> exec_from r i s = Some (g(0 \<mapsto> take (j - i) s))"
  by (cases s) (auto simp: first_def)

section \<open>What every match keeps\<close>

lemma repeats_keeps:
  assumes "\<And>x y. y \<in> set (f x) \<Longrightarrow> R x y" "\<And>x. R x x" "\<And>x y z. R x y \<Longrightarrow> R y z \<Longrightarrow> R x z"
    "y \<in> set (repeats f m x)"
  shows "R x y"
  using assms(4)
proof (induction m arbitrary: x)
  case (Suc m)
  then consider "y = x" | z where "z \<in> set (f x)" "y \<in> set (repeats f m z)" by auto
  then show ?case
  proof cases
    case 2
    then show ?thesis using Suc.IH [of z] assms(1,3) by blast
  qed (simp add: assms(2))
qed (simp add: assms(2))

lemma set_run_Seq: "y \<in> set (run (Seq a b) x) \<longleftrightarrow> (\<exists>z \<in> set (run a x). y \<in> set (run b z))"
  by auto

text \<open>The captures a pattern can change.\<close>

primrec caps :: "rx \<Rightarrow> nat set" where
  "caps (Cls P) = {}"
| "caps Eps = {}"
| "caps (Seq a b) = caps a \<union> caps b"
| "caps (Alt a b) = caps a \<union> caps b"
| "caps (Many a) = caps a"
| "caps (Maybe a) = caps a"
| "caps (Grp n a) = insert n (caps a)"
| "caps (NotAhead a) = caps a"
| "caps AtStart = {}"
| "caps AtEnd = {}"

lemma run_caps:
  "y \<in> set (run r x) \<Longrightarrow> n \<notin> caps r \<Longrightarrow> snd (snd y) n = snd (snd x) n"
proof (induction r arbitrary: x y)
  case (Cls P)
  obtain i s g where "x = (i, s, g)" by (cases x)
  with Cls show ?case by (cases s) (auto split: if_splits)
next
  case (Seq a b)
  then obtain z where z: "z \<in> set (run a x)" "y \<in> set (run b z)" by auto
  then show ?case using Seq.IH(1) [of z x] Seq.IH(2) [of y z] Seq.prems(2) by simp
next
  case (Many a)
  then have "\<And>u v. u \<in> set (run a v) \<Longrightarrow> snd (snd u) n = snd (snd v) n" by simp
  from repeats_keeps [where R = "\<lambda>x y. snd (snd y) n = snd (snd x) n", OF this] Many.prems(1) show ?case
    by simp
next
  case (Grp k a)
  obtain i s g where x: "x = (i, s, g)" by (cases x)
  with Grp.prems obtain j t g' where y: "y = (j, t, g'(k \<mapsto> take (j - i) s))" "(j, t, g') \<in> set (run a x)"
    by auto
  then show ?case using Grp.IH [OF y(2)] Grp.prems(2) x by simp
next
  case (Alt a b)
  then have "y \<in> set (run a x) \<or> y \<in> set (run b x)" by simp
  then show ?case using Alt.IH Alt.prems(2) by (elim disjE) simp_all
next
  case (Maybe a)
  then have "y = x \<or> y \<in> set (run a x)" by auto
  then show ?case using Maybe.IH Maybe.prems(2) by (elim disjE) simp_all
qed (simp_all split: if_splits)

lemma grp_Alt: "run (Grp n (Alt a b)) x = run (Grp n a) x @ run (Grp n b) x"
  by (cases x) simp

lemma exec_from_run:
  assumes "exec_from r i u = Some g"
  shows "\<exists>x y w. y \<in> set (run r x) \<and> g = (snd (snd y))(0 \<mapsto> w)"
  using assms
proof (induction u arbitrary: i)
  case Nil
  then obtain y ys where r: "run r (i, [], \<lambda>_. None) = y # ys"
    by (cases "run r (i, [], \<lambda>_. None)") auto
  with Nil show ?case
    by (intro exI [of _ "(i, [], \<lambda>_. None)"] exI [of _ y] exI [of _ "[]"]) (cases y, simp)
next
  case (Cons c u)
  show ?case
  proof (cases "run r (i, c # u, \<lambda>_. None)")
    case Nil
    with Cons show ?thesis by simp
  next
    case (Cons y ys)
    obtain j t h where y: "y = (j, t, h)" by (cases y)
    from Cons Cons.prems show ?thesis
      by (intro exI [of _ "(i, c # u, \<lambda>_. None)"] exI [of _ y] exI [of _ "take (j - i) (c # u)"]) (simp add: y)
  qed
qed

section \<open>What a match cannot do without\<close>

text \<open>A pattern that cannot match without the character \<open>c\<close>.\<close>

fun needs :: "char \<Rightarrow> rx \<Rightarrow> bool" where
  "needs c (Cls P) = (\<forall>x. P x \<longrightarrow> x = c)"
| "needs c (Seq a b) = (needs c a \<or> needs c b)"
| "needs c (Alt a b) = (needs c a \<and> needs c b)"
| "needs c (Grp n a) = needs c a"
| "needs c r = False"

lemma run_suffix: "y \<in> set (run r x) \<Longrightarrow> set (fst (snd y)) \<subseteq> set (fst (snd x))"
proof (induction r arbitrary: x y)
  case (Cls P)
  obtain i s g where "x = (i, s, g)" by (cases x)
  with Cls show ?case by (cases s) (auto split: if_splits)
next
  case (Seq a b)
  then obtain z where "z \<in> set (run a x)" "y \<in> set (run b z)" by auto
  then show ?case using Seq.IH(1) [of z x] Seq.IH(2) [of y z] by blast
next
  case (Many a)
  from repeats_keeps [where R = "\<lambda>x y. set (fst (snd y)) \<subseteq> set (fst (snd x))", OF Many.IH] Many.prems
  show ?case by auto
next
  case (Grp k a)
  obtain i s g where x: "x = (i, s, g)" by (cases x)
  with Grp.prems obtain j t g' where y: "y = (j, t, g'(k \<mapsto> take (j - i) s))" "(j, t, g') \<in> set (run a x)"
    by auto
  then show ?case using Grp.IH [OF y(2)] x by simp
next
  case (Alt a b)
  then have "y \<in> set (run a x) \<or> y \<in> set (run b x)" by simp
  then show ?case using Alt.IH by blast
next
  case (Maybe a)
  then have "y = x \<or> y \<in> set (run a x)" by auto
  then show ?case using Maybe.IH by blast
qed (simp_all split: if_splits)

lemma run_needs: "needs c r \<Longrightarrow> c \<notin> set (fst (snd x)) \<Longrightarrow> run r x = []"
proof (induction c r arbitrary: x rule: needs.induct)
  case (1 c P)
  obtain i s g where "x = (i, s, g)" by (cases x)
  with 1 show ?case by (cases s) auto
next
  case (2 c a b)
  show ?case
  proof (cases "needs c a")
    case True
    with 2 show ?thesis by simp
  next
    case False
    then have "run b y = []" if "y \<in> set (run a x)" for y
      using "2.IH"(2) [of y] "2.prems" False run_suffix [OF that] by auto
    then show ?thesis by (simp add: concat_eq_Nil_conv)
  qed
next
  case (4 c n a)
  obtain i s g where "x = (i, s, g)" by (cases x)
  with 4 show ?case by simp
qed simp_all

lemma exec_from_needs:
  assumes "needs c r" "c \<notin> set s"
  shows "exec_from r i s = None"
  unfolding exec_from_None_iff
proof (intro allI impI run_needs [OF assms(1)])
  show "c \<notin> set (fst (snd (i + k, drop k s, \<lambda>_. None)))" for k using assms(2) in_set_dropD by fastforce
qed

lemma needs_lit: "c \<in> set p \<Longrightarrow> needs c (lit p)"
  by (induction p) auto

end
