(* ===== verification/Fancybox_Media.thy ===== *)
theory Fancybox_Media
  imports RegExp Class_Names
begin

text \<open>
  The media helper of fancyBox (\<open>public/js/jquery.fancybox-media.js\<close>): the links of eight video,
  image and map services are recognised by their patterns and rewritten to the addresses of the
  services' players. Strings are 8-bit, the parameters of a player numbers or strings.
\<close>

section \<open>Parameters and their query string\<close>

datatype pval = PNum nat | PStr string

type_synonym params = "(string \<times> pval) list"

text \<open>\<open>$.extend(true, {}, a, b)\<close> of two parameter objects: keys keep the place they had first.\<close>

definition putParam :: "string \<times> pval \<Rightarrow> params \<Rightarrow> params" where
  "putParam kv ps = (if fst kv \<in> fst ` set ps then map (\<lambda>p. if fst p = fst kv then kv else p) ps
     else ps @ [kv])"

definition extendParams :: "params \<Rightarrow> params \<Rightarrow> params" where
  "extendParams a b = fold putParam (a @ b) []"

fun decimal :: "nat \<Rightarrow> string" where
  "decimal n = (if n < 10 then [char_of (48 + n)] else decimal (n div 10) @ [char_of (48 + n mod 10)])"

declare decimal.simps [simp del]

definition hexDigit :: "nat \<Rightarrow> char" where
  "hexDigit n = (if n < 10 then char_of (48 + n) else char_of (55 + n))"

definition percent :: "nat \<Rightarrow> string" where
  "percent b = [CHR ''%'', hexDigit (b div 16), hexDigit (b mod 16)]"

text \<open>\<open>encodeURIComponent\<close>: the bytes of UTF-8, the unreserved characters as they are.\<close>

definition unreserved :: "char \<Rightarrow> bool" where
  "unreserved c \<longleftrightarrow> letter c \<or> digit c \<or> c \<in> set ''-_.!~*'' \<or> c \<in> {CHR 0x27, CHR ''('', CHR '')''}"

definition encodeURIComponent :: "string \<Rightarrow> string" where
  "encodeURIComponent s = concat (map (\<lambda>c.
     if unreserved c then [c]
     else if code c < 128 then percent (code c)
     else percent (192 + code c div 64) @ percent (128 + code c mod 64)) s)"

definition paramText :: "pval \<Rightarrow> string" where
  "paramText v = (case v of PNum n \<Rightarrow> decimal n | PStr s \<Rightarrow> s)"

fun joined :: "string \<Rightarrow> string list \<Rightarrow> string" where
  "joined sep [] = []"
| "joined sep [s] = s"
| "joined sep (s # ss) = s @ sep @ joined sep ss"

text \<open>\<open>replace(/%20/g, "+")\<close>\<close>

fun plusses :: "string \<Rightarrow> string" where
  "plusses s = (if s = [] then [] else
     if take 3 s = ''%20'' then CHR ''+'' # plusses (drop 3 s) else hd s # plusses (tl s))"

declare plusses.simps [simp del]

definition param :: "params \<Rightarrow> string" where
  "param ps = plusses (joined ''&'' (map (\<lambda>(k, v).
     encodeURIComponent k @ ''='' @ encodeURIComponent (paramText v)) ps))"

section \<open>The replacement of a placeholder\<close>

text \<open>
  The replacement text of \<open>replace\<close>: \<open>$$\<close>, \<open>$&\<close> and the text before and behind the place are
  special in it.
\<close>

fun expand :: "string \<Rightarrow> string \<Rightarrow> string \<Rightarrow> string \<Rightarrow> string" where
  "expand m l r [] = []"
| "expand m l r [c] = [c]"
| "expand m l r (c # d # s) =
     (if c = CHR ''$'' \<and> d = CHR ''$'' then CHR ''$'' # expand m l r s
      else if c = CHR ''$'' \<and> d = CHR ''&'' then m @ expand m l r s
      else if c = CHR ''$'' \<and> d = CHR 0x60 then l @ expand m l r s
      else if c = CHR ''$'' \<and> d = CHR 0x27 then r @ expand m l r s
      else c # expand m l r (d # s))"

text \<open>\<open>s.replace(m, v)\<close> of a string; the first argument is what has been passed already.\<close>

fun replaceFrom :: "string \<Rightarrow> string \<Rightarrow> string \<Rightarrow> string \<Rightarrow> string" where
  "replaceFrom l m v [] = (if m = [] then expand m l [] v else [])"
| "replaceFrom l m v (c # s) =
     (if take (length m) (c # s) = m
      then let r = drop (length m) (c # s) in expand m l r v @ r
      else c # replaceFrom (l @ [c]) m v s)"

definition replaceString :: "string \<Rightarrow> string \<Rightarrow> string \<Rightarrow> string" where
  "replaceString m v s = replaceFrom [] m v s"

text \<open>The result of a match: the texts of the groups, the whole match as number 0.\<close>

type_synonym rez = "string option list"

definition format :: "string \<Rightarrow> rez \<Rightarrow> params \<Rightarrow> string" where
  "format url rez ps =
     (let url' = fold (\<lambda>(key, v) u. replaceString (CHR ''$'' # decimal key) (case v of None \<Rightarrow> [] | Some x \<Rightarrow> x) u)
            (zip [0..<length rez] rez) url;
          q = param ps
      in if q \<noteq> [] then url' @ (if url' \<noteq> [] \<and> hd url' \<noteq> CHR ''?'' \<and> CHR ''?'' \<in> set url' then ''&'' else ''?'') @ q else url')"

section \<open>Providers\<close>

record media =
  href :: "string option"
  mtype :: "string option"
  autoHeight :: bool
  flashVars :: "string option"
  own :: "string \<Rightarrow> params option"

datatype purl = Template string | ByCall "rez \<Rightarrow> params \<Rightarrow> media \<Rightarrow> string \<times> media"

record provider =
  groups :: nat
  matcher :: rx
  pparams :: "params option"
  ptype :: string
  purl :: purl

definition notEol :: "char \<Rightarrow> bool" where
  "notEol c \<longleftrightarrow> c \<notin> {CHR 0x0A, CHR 0x0D}"

definition any :: rx where "any = Cls notEol"

definition lower :: "char \<Rightarrow> char" where
  "lower c = (if 65 \<le> code c \<and> code c \<le> 90 then char_of (code c + 32) else c)"

text \<open>Literal text under the flag \<open>i\<close>; it must be in lower case.\<close>

fun liti :: "string \<Rightarrow> rx" where
  "liti [] = Eps"
| "liti (c # s) = Seq (Cls (\<lambda>x. lower x = c)) (liti s)"

fun seqs :: "rx list \<Rightarrow> rx" where
  "seqs [] = Eps"
| "seqs [r] = r"
| "seqs (r # rs) = Seq r (seqs rs)"

definition idChar :: "char \<Rightarrow> bool" where
  "idChar c \<longleftrightarrow> wordChar c \<or> c = CHR ''-''"

text \<open>\<open>/(youtube\.com|youtu\.be)\/(watch\?v=|v\/|u\/|embed\/?)?(videoseries\?list=(.*)|[\w-]{11}|\?listType=(.*)&list=(.*)).*/i\<close>\<close>

definition youtubeHost :: rx where
  "youtubeHost = Grp 1 (Alt (liti ''youtube.com'') (liti ''youtu.be''))"

definition youtubePath :: rx where
  "youtubePath = Maybe (Grp 2 (Alt (liti ''watch?v='') (Alt (liti ''v/'') (Alt (liti ''u/'')
     (Seq (liti ''embed'') (Maybe (liti ''/'')))))))"

definition youtubeId :: rx where
  "youtubeId = Grp 3 (Alt (Seq (liti ''videoseries?list='') (Grp 4 (Many any)))
     (Alt (times 11 (Cls idChar))
       (seqs [liti ''?listtype='', Grp 5 (Many any), liti ''&list='', Grp 6 (Many any)])))"

definition youtube :: provider where
  "youtube = \<lparr>groups = 7, matcher = seqs [youtubeHost, liti ''/'', youtubePath, youtubeId, Many any],
     pparams = Some [(''autoplay'', PNum 1), (''autohide'', PNum 1), (''fs'', PNum 1), (''rel'', PNum 0),
       (''hd'', PNum 1), (''wmode'', PStr ''opaque''), (''enablejsapi'', PNum 1)],
     ptype = ''iframe'', purl = Template ''//www.youtube.com/embed/$3''\<rparr>"

text \<open>\<open>/(?:vimeo(?:pro)?.com)\/(?:[^\d]+)?(\d+)(?:.*)/\<close>\<close>

definition vimeo :: provider where
  "vimeo = \<lparr>groups = 2, matcher = seqs [lit ''vimeo'', Maybe (lit ''pro''), any, lit ''com/'',
       Maybe (some_more (Cls (\<lambda>c. \<not> digit c))), Grp 1 (some_more (Cls digit)), Many any],
     pparams = Some [(''autoplay'', PNum 1), (''hd'', PNum 1), (''show_title'', PNum 1),
       (''show_byline'', PNum 1), (''show_portrait'', PNum 0), (''fullscreen'', PNum 1)],
     ptype = ''iframe'', purl = Template ''//player.vimeo.com/video/$1''\<rparr>"

text \<open>\<open>/metacafe.com\/(?:watch|fplayer)\/([\w\-]{1,10})/\<close>\<close>

definition group :: "rez \<Rightarrow> nat \<Rightarrow> string" where
  "group rez n = (case rez ! n of None \<Rightarrow> ''undefined'' | Some s \<Rightarrow> s)"

definition metacafeUrl :: "rez \<Rightarrow> params \<Rightarrow> media \<Rightarrow> string \<times> media" where
  "metacafeUrl rez ps obj =
     (''//www.metacafe.com/fplayer/'' @ group rez 1 @ ''/.swf'',
      obj\<lparr>flashVars := Some (''playerVars='' @ param ps)\<rparr>)"

definition metacafe :: provider where
  "metacafe = \<lparr>groups = 2, matcher = seqs [lit ''metacafe'', any, lit ''com/'', Alt (lit ''watch'') (lit ''fplayer''),
       lit ''/'', Grp 1 (Seq (Cls idChar) (upto 9 (Cls idChar)))],
     pparams = Some [(''autoPlay'', PStr ''yes'')], ptype = ''swf'', purl = ByCall metacafeUrl\<rparr>"

text \<open>\<open>/dailymotion.com\/video\/(.*)\/?(.*)/\<close>\<close>

definition dailymotion :: provider where
  "dailymotion = \<lparr>groups = 3, matcher = seqs [lit ''dailymotion'', any, lit ''com/video/'', Grp 1 (Many any),
       Maybe (lit ''/''), Grp 2 (Many any)],
     pparams = Some [(''additionalInfos'', PNum 0), (''autoStart'', PNum 1)],
     ptype = ''swf'', purl = Template ''//www.dailymotion.com/swf/video/$1''\<rparr>"

text \<open>\<open>/twitvid\.com\/([a-zA-Z0-9_\-\?\=]+)/i\<close>\<close>

definition twitvid :: provider where
  "twitvid = \<lparr>groups = 2, matcher = seqs [liti ''twitvid.com/'',
       Grp 1 (some_more (Cls (\<lambda>c. idChar c \<or> c = CHR ''?'' \<or> c = CHR ''='')))],
     pparams = Some [(''autoplay'', PNum 0)],
     ptype = ''iframe'', purl = Template ''//www.twitvid.com/embed.php?guid=$1''\<rparr>"

text \<open>\<open>/twitpic\.com\/(?!(?:place|photos|events)\/)([a-zA-Z0-9\?\=\-]+)/i\<close>\<close>

definition twitpic :: provider where
  "twitpic = \<lparr>groups = 2, matcher = seqs [liti ''twitpic.com/'',
       NotAhead (Seq (Alt (liti ''place'') (Alt (liti ''photos'') (liti ''events''))) (liti ''/'')),
       Grp 1 (some_more (Cls (\<lambda>c. letter c \<or> digit c \<or> c = CHR ''?'' \<or> c = CHR ''='' \<or> c = CHR ''-'')))],
     pparams = None, ptype = ''image'', purl = Template ''//twitpic.com/show/full/$1/''\<rparr>"

text \<open>\<open>/(instagr\.am|instagram\.com)\/p\/([a-zA-Z0-9_\-]+)\/?/i\<close>\<close>

definition instagram :: provider where
  "instagram = \<lparr>groups = 3, matcher = seqs [Grp 1 (Alt (liti ''instagr.am'') (liti ''instagram.com'')),
       liti ''/p/'', Grp 2 (some_more (Cls idChar)), Maybe (liti ''/'')],
     pparams = None, ptype = ''image'', purl = Template ''//$1/p/$2/media/''\<rparr>"

text \<open>\<open>/maps\.google\.([a-z]{2,3}(\.[a-z]{2})?)\/(\?ll=|maps\?)(.*)/i\<close>\<close>

definition googleUrl :: "rez \<Rightarrow> params \<Rightarrow> media \<Rightarrow> string \<times> media" where
  "googleUrl rez ps obj =
     (''//maps.google.'' @ group rez 1 @ ''/'' @ group rez 3 @ group rez 4 @ ''&output='' @
        (if \<not> take 7 (group rez 4) = ''layer=c'' \<and> contains ''layer=c'' (group rez 4) then ''svembed'' else ''embed''),
      obj)"

definition google_maps :: provider where
  "google_maps = \<lparr>groups = 5, matcher = seqs [liti ''maps.google.'',
       Grp 1 (seqs [Cls letter, Cls letter, Maybe (Cls letter), Maybe (Grp 2 (seqs [liti ''.'', Cls letter, Cls letter]))]),
       liti ''/'', Grp 3 (Alt (liti ''?ll='') (liti ''maps?'')), Grp 4 (Many any)],
     pparams = None, ptype = ''iframe'', purl = ByCall googleUrl\<rparr>"

definition mediaDefaults :: "(string \<times> provider) list" where
  "mediaDefaults = [(''youtube'', youtube), (''vimeo'', vimeo), (''metacafe'', metacafe),
     (''dailymotion'', dailymotion), (''twitvid'', twitvid), (''twitpic'', twitpic),
     (''instagram'', instagram), (''google_maps'', google_maps)]"

section \<open>The handler\<close>

text \<open>\<open>url.match(item.matcher)\<close>\<close>

definition match :: "provider \<Rightarrow> string \<Rightarrow> rez option" where
  "match p url = map_option (\<lambda>g. map g [0..<groups p]) (exec (matcher p) url)"

text \<open>\<open>params\<close> for a provider: its own, and those of the link or else of the options.\<close>

definition params_for :: "string \<Rightarrow> provider \<Rightarrow> media \<Rightarrow> params" where
  "params_for what p obj =
     (let base = (case pparams p of None \<Rightarrow> [] | Some ps \<Rightarrow> ps) in
      extendParams base (case own obj what of Some ps \<Rightarrow> ps | None \<Rightarrow> base))"

definition rewritten :: "string \<Rightarrow> provider \<Rightarrow> rez \<Rightarrow> media \<Rightarrow> string \<times> media" where
  "rewritten what p rez obj =
     (case purl p of
        ByCall f \<Rightarrow> f rez (params_for what p obj) obj
      | Template t \<Rightarrow> (format t rez (params_for what p obj), obj))"

fun beforeLoad :: "(string \<times> provider) list \<Rightarrow> media \<Rightarrow> media" where
  "beforeLoad [] obj = obj"
| "beforeLoad ((what, p) # opts) obj =
     (case match p (case href obj of None \<Rightarrow> [] | Some u \<Rightarrow> u) of
        None \<Rightarrow> beforeLoad opts obj
      | Some rez \<Rightarrow>
          (let (url, obj') = rewritten what p rez obj in
           if ptype p = [] then obj'
           else obj'\<lparr>href := Some url, mtype := Some (ptype p), autoHeight := False\<rparr>))"

end
