(* ===== verification/Fancybox_Correct.thy ===== *)
theory Fancybox_Correct
  imports RegExp_Facts Fancybox_Media
begin

text \<open>
  Lemmas on the media helper: text without regard to case, the replacement of the placeholders,
  the match of a YouTube link and of a map, the host of an Instagram link, and the addresses all
  services are turned into.
\<close>

section \<open>Text without regard to case\<close>

lemma run_liti:
  "run (liti p) (i, s, g)
    = (if map lower (take (length p) s) = p then [(i + length p, drop (length p) s, g)] else [])"
proof (induction p arbitrary: i s)
  case (Cons c p)
  then show ?case by (cases s) auto
qed simp

declare liti.simps [simp del]

lemma first_liti:
  "map lower u = p \<Longrightarrow> first (liti p) (i, u @ s, g) (i + length u, s, g)"
  by (auto simp: first_def run_liti)

lemma liti_fails:
  assumes "n \<le> length p" "map lower (take n s) \<noteq> take n p"
  shows "run (liti p) (i, s, g) = []"
proof -
  have "map lower (take (length p) s) \<noteq> p"
    using assms by (metis min.absorb1 take_map take_take)
  then show ?thesis by (simp add: run_liti)
qed

lemma code_lower: "code (lower c) = (if 65 \<le> code c \<and> code c \<le> 90 then code c + 32 else code c)"
  by (simp add: lower_def code_def)

lemma lower_idChar:
  assumes "idChar c"
  shows "lower c \<noteq> CHR ''?''" "lower c \<noteq> CHR ''/''" "c \<noteq> CHR ''$''"
proof -
  have c: "code c \<in> {45, 95} \<or> 48 \<le> code c \<and> code c \<le> 57 \<or> 65 \<le> code c \<and> code c \<le> 90 \<or>
      97 \<le> code c \<and> code c \<le> 122"
    using assms unfolding idChar_def wordChar_def letter_def digit_def by (elim disjE) (simp_all add: code_def)
  have "code (lower c) \<noteq> 63" "code (lower c) \<noteq> 47" "code c \<noteq> 36"
    using c by (auto simp: code_lower split: if_splits)
  then show "lower c \<noteq> CHR ''?''" "lower c \<noteq> CHR ''/''" "c \<noteq> CHR ''$''"
    by (auto simp: code_def)
qed

lemma grp_liti: "z \<in> set (run (Grp n (liti p)) (i, s, g)) \<Longrightarrow> \<exists>h. snd (snd z) n = Some h \<and> map lower h = p"
  by (auto simp: run_liti)

section \<open>Replacement\<close>

lemma expand_plain: "CHR ''$'' \<notin> set v \<Longrightarrow> expand m l r v = v"
  by (induction m l r v rule: expand.induct) auto

lemma replaceFrom_prefix:
  "CHR ''$'' \<notin> set p \<Longrightarrow> replaceFrom l (CHR ''$'' # k) v (p @ s) = p @ replaceFrom (l @ p) (CHR ''$'' # k) v s"
  by (induction p arbitrary: l) auto

lemma replaceString_prefix:
  "CHR ''$'' \<notin> set p \<Longrightarrow> \<exists>s'. replaceString (CHR ''$'' # k) v (p @ s) = p @ s'"
  by (auto simp: replaceString_def replaceFrom_prefix)

lemma replaceString_absent:
  "CHR ''$'' \<notin> set p \<Longrightarrow> replaceString (CHR ''$'' # k) v p = p"
  using replaceFrom_prefix [of p "[]" k v "[]"] by (simp add: replaceString_def)

lemma replaceString_here:
  "CHR ''$'' \<notin> set p \<Longrightarrow> CHR ''$'' \<notin> set v \<Longrightarrow>
    replaceString (CHR ''$'' # k) v (p @ CHR ''$'' # k @ s) = p @ v @ s"
  by (simp add: replaceString_def replaceFrom_prefix expand_plain)

lemma format_prefix:
  assumes "CHR ''$'' \<notin> set p"
  shows "\<exists>s'. format (p @ s) rez ps = p @ s'"
proof -
  let ?put = "\<lambda>(key, v) u. replaceString (CHR ''$'' # decimal key) (case v of None \<Rightarrow> [] | Some x \<Rightarrow> x) u"
  have "\<exists>s'. fold ?put kvs (p @ s) = p @ s'" for kvs s
  proof (induction kvs arbitrary: s)
    case (Cons kv kvs)
    obtain k v where kv: "kv = (k, v)" by (cases kv)
    obtain s' where "replaceString (CHR ''$'' # decimal k) (case v of None \<Rightarrow> [] | Some x \<Rightarrow> x) (p @ s) = p @ s'"
      using replaceString_prefix [OF assms] by blast
    then have "?put kv (p @ s) = p @ s'" by (simp add: kv)
    then show ?case using Cons [of s'] by simp
  qed simp
  then obtain s' where "fold ?put (zip [0..<length rez] rez) (p @ s) = p @ s'" by blast
  then show ?thesis by (auto simp: format_def Let_def)
qed

section \<open>YouTube\<close>

definition youtubeLink :: "string \<Rightarrow> string \<Rightarrow> string \<Rightarrow> bool" where
  "youtubeLink host place k \<longleftrightarrow> map lower host \<in> {''youtube.com'', ''youtu.be''} \<and>
     (map lower place \<in> {''watch?v='', ''v/'', ''u/'', ''embed/''} \<or>
      place = [] \<and> map lower (take 5 k) \<noteq> ''embed'') \<and>
     length k = 11 \<and> list_all idChar k \<and> map lower k \<noteq> ''videoseries''"

lemma first_host:
  assumes "map lower host \<in> {''youtube.com'', ''youtu.be''}"
  shows "first youtubeHost (i, host @ s, g) (i + length host, s, g(1 \<mapsto> host))"
proof -
  have f: "run (liti ''youtube.com'') (i, host @ s, g) = []" if h: "map lower host = ''youtu.be''"
  proof (rule liti_fails [of 8])
    have "length host = 8" using arg_cong [OF h, of length] by simp
    then show "map lower (take 8 (host @ s)) \<noteq> take 8 ''youtube.com''" using h by simp
  qed simp
  consider "map lower host = ''youtube.com''" | "map lower host = ''youtu.be''" using assms by blast
  then have "first (Alt (liti ''youtube.com'') (liti ''youtu.be'')) (i, host @ s, g) (i + length host, s, g)"
  proof cases
    case 1
    then show ?thesis by (intro first_AltI1 first_liti)
  next
    case 2
    then show ?thesis by (intro first_AltI2 [OF f] first_liti)
  qed
  from first_Grp [OF this, of 1] show ?thesis by (simp add: youtubeHost_def)
qed

lemma no_path:
  assumes "length k = 11" "list_all idChar k" "map lower (take 5 k) \<noteq> ''embed''"
  shows "run (Alt (liti ''watch?v='') (Alt (liti ''v/'') (Alt (liti ''u/'')
      (Seq (liti ''embed'') (Maybe (liti ''/'')))))) (i, k @ s, g) = []"
proof -
  obtain a b c d e f l where kk: "k = a # b # c # d # e # f # l"
    using assms(1) by (auto simp: length_Suc_conv eval_nat_numeral)
  have n: "lower f \<noteq> CHR ''?''" "lower b \<noteq> CHR ''/''"
    using assms(2) lower_idChar by (simp_all add: kk)
  have "run (liti ''watch?v='') (i, k @ s, g) = []"
    by (rule liti_fails [of 6]) (simp_all add: kk n)
  moreover have "run (liti ''v/'') (i, k @ s, g) = []"
    by (rule liti_fails [of 2]) (simp_all add: kk n)
  moreover have "run (liti ''u/'') (i, k @ s, g) = []"
    by (rule liti_fails [of 2]) (simp_all add: kk n)
  moreover have "run (liti ''embed'') (i, k @ s, g) = []"
    by (rule liti_fails [of 5]) (use assms(3) in \<open>simp_all add: kk\<close>)
  ultimately show ?thesis by simp
qed

lemma some_path:
  assumes "map lower place \<in> {''watch?v='', ''v/'', ''u/'', ''embed/''}"
  shows "first (Alt (liti ''watch?v='') (Alt (liti ''v/'') (Alt (liti ''u/'')
      (Seq (liti ''embed'') (Maybe (liti ''/'')))))) (i, place @ s, g) (i + length place, s, g)"
proof -
  obtain c d r where p: "place = c # d # r" using assms by (cases place; cases "tl place") auto
  have fails: "run (liti q) (i, place @ s, g) = []"
    if "2 \<le> length q" "take 2 q \<noteq> [lower c, lower d]" for q
    by (rule liti_fails [OF that(1)]) (use that(2) in \<open>auto simp: p\<close>)
  consider "map lower place = ''watch?v=''" | "map lower place = ''v/''" | "map lower place = ''u/''"
    | "map lower place = ''embed/''" using assms by blast
  then show ?thesis
  proof cases
    case 1
    then show ?thesis by (intro first_AltI1 first_liti)
  next
    case 2
    then show ?thesis by (intro first_AltI2 first_AltI1 fails first_liti) (simp_all add: p)
  next
    case 3
    then show ?thesis
      by (intro first_AltI2 [OF fails] first_AltI1 first_liti) (simp_all add: p)
  next
    case 4
    obtain u v where uv: "place = u @ [v]" using p by (metis list.distinct(1) rev_exhaust)
    then have u: "map lower u = ''embed''" "lower v = CHR ''/''" using 4 by simp_all
    have "first (Seq (liti ''embed'') (Maybe (liti ''/''))) (i, u @ [v] @ s, g) (i + length u + length [v], s, g)"
      by (rule first_Seq [OF first_liti first_Maybe [OF first_liti]]) (simp_all add: u ahead_def)
    then have "first (Seq (liti ''embed'') (Maybe (liti ''/''))) (i, place @ s, g) (i + length place, s, g)"
      by (simp add: uv)
    then show ?thesis using 4
      by (intro first_AltI2 [OF fails]) (simp_all add: p)
  qed
qed

lemma first_path:
  assumes "youtubeLink host place k"
  shows "\<exists>h. first youtubePath (i, place @ k @ s, g) (i + length place, k @ s, h) \<and> (\<forall>n. n \<noteq> 2 \<longrightarrow> h n = g n)"
proof (cases "place = []")
  case True
  then have "run (Grp 2 (Alt (liti ''watch?v='') (Alt (liti ''v/'') (Alt (liti ''u/'')
      (Seq (liti ''embed'') (Maybe (liti ''/''))))))) (i, k @ s, g) = []"
    using no_path [of k i s g] assms by (simp add: youtubeLink_def take_map del: run.simps(3,4,6))
  from first_MaybeN [OF this] True show ?thesis
    by (intro exI [of _ g]) (simp add: youtubePath_def)
next
  case False
  then have p: "map lower place \<in> {''watch?v='', ''v/'', ''u/'', ''embed/''}"
    using assms by (auto simp: youtubeLink_def)
  from first_Maybe [OF first_Grp [OF some_path [OF p, of i "k @ s" g], of 2]] False show ?thesis
    by (intro exI [of _ "g(2 \<mapsto> place)"]) (simp add: youtubePath_def ahead_def)
qed

lemma first_id:
  assumes "youtubeLink host place k"
  shows "first youtubeId (i, k @ s, g) (i + length k, s, g(3 \<mapsto> k))"
proof -
  have k: "length k = 11" "list_all idChar k" "map lower k \<noteq> ''videoseries''"
    using assms by (auto simp: youtubeLink_def)
  have "run (liti ''videoseries?list='') (i, k @ s, g) = []"
    by (rule liti_fails [of 11]) (use k in simp_all)
  then have "run (Seq (liti ''videoseries?list='') (Grp 4 (Many any))) (i, k @ s, g) = []" by simp
  from first_Grp [OF first_AltI2 [OF this first_AltI1 [OF first_times [OF k(1,2)]]], of 3] show ?thesis
    by (simp add: youtubeId_def)
qed

text \<open>Nothing of the pattern matches where no y is.\<close>

lemma no_host:
  assumes "lower c \<noteq> CHR ''y''"
  shows "run (matcher youtube) (i, c # s, g) = []"
proof -
  have "run (liti ''youtube.com'') (i, c # s, g) = []"
    by (rule liti_fails [of 1]) (use assms in simp_all)
  moreover have "run (liti ''youtu.be'') (i, c # s, g) = []"
    by (rule liti_fails [of 1]) (use assms in simp_all)
  ultimately show ?thesis by (simp add: youtube_def youtubeHost_def)
qed

lemma first_youtube:
  assumes "youtubeLink host place k"
  shows "\<exists>y h. first (matcher youtube) (i, host @ ''/'' @ place @ k @ rest, g) (y, h) \<and> snd h 3 = Some k"
proof -
  have host: "map lower host \<in> {''youtube.com'', ''youtu.be''}" using assms by (simp add: youtubeLink_def)
  note first_host [OF host, of i "''/'' @ place @ k @ rest" g]
  moreover have "first (liti ''/'') (i + length host, ''/'' @ place @ k @ rest, g(1 \<mapsto> host))
      (i + length host + length ''/'', place @ k @ rest, g(1 \<mapsto> host))"
    by (rule first_liti) (simp add: lower_def code_def)
  moreover obtain h where "first youtubePath (i + length host + length ''/'', place @ k @ rest, g(1 \<mapsto> host))
      (i + length host + length ''/'' + length place, k @ rest, h)"
    using first_path [OF assms] by blast
  moreover note first_id [OF assms, of "i + length host + length ''/'' + length place" rest h]
  moreover note first_many [of notEol "i + length host + length ''/'' + length place + length k" rest "h(3 \<mapsto> k)"]
  ultimately have "first (matcher youtube) (i, host @ ''/'' @ place @ k @ rest, g)
      (i + length host + length ''/'' + length place + length k + length (takeWhile notEol rest),
       dropWhile notEol rest, h(3 \<mapsto> k))"
    unfolding youtube_def provider.simps seqs.simps any_def by (blast intro: first_Seq)
  then show ?thesis by force
qed

lemma match_youtube:
  assumes "youtubeLink host place k" "\<forall>c \<in> set pre. lower c \<noteq> CHR ''y''"
  shows "\<exists>a b c d e f. match youtube (pre @ host @ ''/'' @ place @ k @ rest) = Some [a, b, c, Some k, d, e, f]"
proof -
  obtain y h where f: "first (matcher youtube) (length pre, host @ ''/'' @ place @ k @ rest, \<lambda>_. None) (y, h)"
    and h: "snd h 3 = Some k"
    using first_youtube [OF assms(1)] by blast
  obtain t g where hh: "h = (t, g)" by (cases h)
  have "exec (matcher youtube) (pre @ host @ ''/'' @ place @ k @ rest)
      = exec_from (matcher youtube) (length pre) (host @ ''/'' @ place @ k @ rest)"
    using exec_from_skip [of pre "matcher youtube" 0] no_host assms(2) by (simp add: exec_def)
  then have "exec (matcher youtube) (pre @ host @ ''/'' @ place @ k @ rest)
      = Some (g(0 \<mapsto> take (y - length pre) (host @ ''/'' @ place @ k @ rest)))"
    using exec_from_first f hh by simp
  moreover have "[0..<groups youtube] = [0, 1, 2, 3, 4, 5, 6]" by (simp add: youtube_def upt_rec)
  ultimately show ?thesis using h hh by (simp add: match_def)
qed

lemma format_youtube:
  assumes "list_all idChar k"
  shows "format ''//www.youtube.com/embed/$3'' [a, b, c, Some k, d, e, f] ps
    = ''//www.youtube.com/embed/'' @ k @ (if param ps = [] then [] else CHR ''?'' # param ps)"
proof -
  let ?t = "''//www.youtube.com/embed/''"
  have k: "CHR ''$'' \<notin> set k" "CHR ''?'' \<notin> set k"
    using assms lower_idChar(1,3) by (force simp: list_all_iff lower_def code_def)+
  then have absent: "replaceString (CHR ''$'' # x) v (?t @ k) = ?t @ k" for x v
    by (intro replaceString_absent) simp
  have here: "replaceString ''$3'' k (?t @ ''$3'') = ?t @ k"
    using replaceString_here [of ?t k "''3''" "[]"] k(1) by simp
  have other: "replaceString ''$0'' v (?t @ ''$3'') = ?t @ ''$3''"
    "replaceString ''$1'' v (?t @ ''$3'') = ?t @ ''$3''" "replaceString ''$2'' v (?t @ ''$3'') = ?t @ ''$3''" for v
    by (simp_all add: replaceString_def)
  have digits: "decimal 0 = ''0''" "decimal 1 = ''1''" "decimal 2 = ''2''" "decimal 3 = ''3''"
    by code_simp+
  have "length [a, b, c, Some k, d, e, f] = 7" by simp
  moreover have "zip [0..<7] [a, b, c, Some k, d, e, f]
      = [(0, a), (1, b), (2, c), (3, Some k), (4, d), (5, e), (6, f)]"
    by (simp add: upt_rec)
  ultimately have "fold (\<lambda>(key, v) u. replaceString (CHR ''$'' # decimal key) (case v of None \<Rightarrow> [] | Some x \<Rightarrow> x) u)
      (zip [0..<length [a, b, c, Some k, d, e, f]] [a, b, c, Some k, d, e, f]) (?t @ ''$3'') = ?t @ k"
    by (simp only: fold_simps comp_apply
      prod.case digits other here absent option.case)
  then show ?thesis using k(2) by (simp add: format_def Let_def)
qed

section \<open>Instagram\<close>

definition instagramHost :: "string \<Rightarrow> bool" where
  "instagramHost h \<longleftrightarrow> map lower h \<in> {''instagr.am'', ''instagram.com''}"

lemma instagram_group:
  assumes "match instagram u = Some rez"
  shows "\<exists>a h c. rez = [a, Some h, c] \<and> instagramHost h"
proof -
  let ?host = "Grp 1 (Alt (liti ''instagr.am'') (liti ''instagram.com''))"
  let ?rest = "seqs [liti ''/p/'', Grp 2 (some_more (Cls idChar)), Maybe (liti ''/'')]"
  have lits: "caps (liti p) = {}" for p by (induction p) (simp_all add: liti.simps)
  have host: "\<exists>h. snd (snd y) 1 = Some h \<and> instagramHost h" if "y \<in> set (run (matcher instagram) x)" for x y
  proof -
    obtain i s g where x: "x = (i, s, g)" by (cases x)
    have "matcher instagram = Seq ?host ?rest" by (simp add: instagram_def)
    with that obtain z where z: "z \<in> set (run ?host x)" "y \<in> set (run ?rest z)"
      by (simp only: set_run_Seq) blast
    have "snd (snd y) 1 = snd (snd z) 1"
      using run_caps [OF z(2), of 1] by (simp add: lits some_more_def)
    moreover have "z \<in> set (run (Grp 1 (liti ''instagr.am'')) (i, s, g)) \<or>
        z \<in> set (run (Grp 1 (liti ''instagram.com'')) (i, s, g))"
      using z(1) by (simp only: x grp_Alt set_append Un_iff)
    then have "\<exists>h. snd (snd z) 1 = Some h \<and> instagramHost h"
      by (auto simp: instagramHost_def simp del: run.simps dest!: grp_liti)
    ultimately show ?thesis by simp
  qed
  obtain g where g: "exec (matcher instagram) u = Some g" "rez = map g [0..<3]"
    using assms by (auto simp: match_def instagram_def)
  then obtain x y w where y: "y \<in> set (run (matcher instagram) x)" "g = (snd (snd y))(0 \<mapsto> w)"
    using exec_from_run unfolding exec_def by blast
  then obtain h where "g 1 = Some h" "instagramHost h" using host [OF y(1)] by auto
  with g(2) show ?thesis by (simp add: upt_rec)
qed

lemma instagram_format:
  assumes "CHR ''$'' \<notin> set h"
  shows "\<exists>v. format ''//$1/p/$2/media/'' [a, Some h, c] ps = ''//'' @ h @ ''/p/'' @ v"
proof -
  have one: "replaceString ''$0'' v ''//$1/p/$2/media/'' = ''//$1/p/$2/media/''" for v
    by (simp add: replaceString_def)
  have two: "replaceString ''$1'' h ''//$1/p/$2/media/'' = ''//'' @ h @ ''/p/$2/media/''"
    using replaceString_here [of "''//''" h "''1''" "''/p/$2/media/''"] assms by simp
  obtain v where three: "replaceString ''$2'' (case c of None \<Rightarrow> [] | Some x \<Rightarrow> x) ((''//'' @ h @ ''/p/'') @ ''$2/media/'')
      = (''//'' @ h @ ''/p/'') @ v"
    using replaceString_prefix [of "''//'' @ h @ ''/p/''" "''2''" _ "''$2/media/''"] assms by force
  have digits: "decimal 0 = ''0''" "decimal 1 = ''1''" "decimal 2 = ''2''" by code_simp+
  have "length [a, Some h, c] = 3" "zip [0..<3] [a, Some h, c] = [(0, a), (1, Some h), (2, c)]"
    by (simp_all add: upt_rec)
  then have "fold (\<lambda>(key, v) u. replaceString (CHR ''$'' # decimal key) (case v of None \<Rightarrow> [] | Some x \<Rightarrow> x) u)
      (zip [0..<length [a, Some h, c]] [a, Some h, c]) ''//$1/p/$2/media/'' = ''//'' @ h @ ''/p/'' @ v"
    using three by (simp only: fold_simps comp_apply prod.case digits one two option.case append_assoc append.simps)
  then show ?thesis by (simp add: format_def Let_def)
qed

lemma instagramHost_plain: "instagramHost h \<Longrightarrow> CHR ''$'' \<notin> set h"
proof
  assume h: "instagramHost h" "CHR ''$'' \<in> set h"
  then have "lower (CHR ''$'') \<in> set (map lower h)" by simp
  then have "CHR ''$'' \<in> set (map lower h)" by (simp add: lower_def code_def)
  then show False using h(1) by (auto simp: instagramHost_def)
qed

section \<open>All services\<close>

text \<open>The addresses the helper produces.\<close>

definition players :: "string list" where
  "players = [''//www.youtube.com/embed/'', ''//player.vimeo.com/video/'', ''//www.metacafe.com/fplayer/'',
     ''//www.dailymotion.com/swf/video/'', ''//www.twitvid.com/embed.php?guid='',
     ''//twitpic.com/show/full/'', ''//maps.google.'']"

definition served :: "string \<Rightarrow> bool" where
  "served u \<longleftrightarrow> (\<exists>p \<in> set players. \<exists>v. u = p @ v) \<or> (\<exists>h v. instagramHost h \<and> u = ''//'' @ h @ ''/p/'' @ v)"

lemma servedI: "p \<in> set players \<Longrightarrow> served (p @ v)"
  by (auto simp: served_def)

lemma served_format:
  assumes "p \<in> set players"
  shows "served (format (p @ s) rez ps)"
proof -
  have "CHR ''$'' \<notin> set p" using assms by (auto simp: players_def)
  then obtain v where "format (p @ s) rez ps = p @ v" using format_prefix by blast
  then show ?thesis using servedI [OF assms] by simp
qed

lemma rewritten_served:
  assumes "(what, p) \<in> set mediaDefaults" "match p u = Some rez"
  shows "served (fst (rewritten what p rez obj)) \<and> ptype p \<in> {''iframe'', ''swf'', ''image''}"
proof -
  have f: "served (format (q @ s) r ps)" if "q \<in> set players" for q s r ps
    using that by (rule served_format)
  have "served (format ''//www.youtube.com/embed/$3'' r ps)" "served (format ''//player.vimeo.com/video/$1'' r ps)"
    "served (format ''//www.dailymotion.com/swf/video/$1'' r ps)"
    "served (format ''//www.twitvid.com/embed.php?guid=$1'' r ps)" "served (format ''//twitpic.com/show/full/$1/'' r ps)"
    for r ps
    using f [of "''//www.youtube.com/embed/''" "''$3''"] f [of "''//player.vimeo.com/video/''" "''$1''"]
      f [of "''//www.dailymotion.com/swf/video/''" "''$1''"] f [of "''//www.twitvid.com/embed.php?guid=''" "''$1''"]
      f [of "''//twitpic.com/show/full/''" "''$1/''"]
    by (simp_all add: players_def)
  moreover have "served (fst (metacafeUrl r ps ob))" "served (fst (googleUrl r ps ob))" for r ps ob
    using servedI [of "''//www.metacafe.com/fplayer/''"] servedI [of "''//maps.google.''"]
    by (simp_all add: metacafeUrl_def googleUrl_def players_def)
  moreover have "served (format ''//$1/p/$2/media/'' rez ps)" if "p = instagram" for ps
  proof -
    obtain a h c where r: "rez = [a, Some h, c]" "instagramHost h" using instagram_group assms(2) \<open>p = instagram\<close> by blast
    obtain v where "format ''//$1/p/$2/media/'' rez ps = ''//'' @ h @ ''/p/'' @ v"
      using instagram_format [OF instagramHost_plain [OF r(2)]] r(1) by blast
    then show ?thesis using r(2) by (auto simp: served_def)
  qed
  ultimately show ?thesis
    using assms(1)
    by (auto simp: mediaDefaults_def rewritten_def youtube_def vimeo_def metacafe_def dailymotion_def twitvid_def
        twitpic_def instagram_def google_maps_def)
qed

lemma beforeLoad_served:
  assumes "set opts \<subseteq> set mediaDefaults"
  shows "beforeLoad opts obj = obj \<or> (\<exists>u. href (beforeLoad opts obj) = Some u \<and> served u \<and>
    mtype (beforeLoad opts obj) \<in> Some ` {''iframe'', ''swf'', ''image''} \<and> \<not> autoHeight (beforeLoad opts obj))"
  using assms
proof (induction opts)
  case (Cons wp opts)
  obtain what p where wp: "wp = (what, p)" by (cases wp)
  let ?u = "case href obj of None \<Rightarrow> [] | Some u \<Rightarrow> u"
  show ?case
  proof (cases "match p ?u")
    case None
    with Cons show ?thesis by (simp add: wp)
  next
    case (Some rez)
    moreover have "(what, p) \<in> set mediaDefaults" using Cons.prems by (simp add: wp)
    moreover obtain url obj' where "rewritten what p rez obj = (url, obj')" by (cases "rewritten what p rez obj")
    ultimately show ?thesis
      using rewritten_served [of what p ?u rez obj] by (auto simp: wp)
  qed
qed simp

section \<open>Google Maps\<close>

lemma needs_slash: "CHR ''/'' \<in> set p \<Longrightarrow> needs (CHR ''/'') (liti p)"
proof (induction p)
  case (Cons d p)
  have "lower x = CHR ''/'' \<Longrightarrow> x = CHR ''/''" for x
  proof -
    assume "lower x = CHR ''/''"
    then have "code x = 47" using code_lower [of x] by (simp add: code_def split: if_splits)
    then have "code x = code (CHR ''/'')" by (simp add: code_def)
    then show "x = CHR ''/''" by (simp only: code_def of_char_eq_iff)
  qed
  with Cons show ?case by (auto simp: liti.simps)
qed simp

lemma other_slash:
  "needs (CHR ''/'') (matcher youtube)" "needs (CHR ''/'') (matcher vimeo)"
  "needs (CHR ''/'') (matcher metacafe)" "needs (CHR ''/'') (matcher dailymotion)"
  "needs (CHR ''/'') (matcher twitvid)" "needs (CHR ''/'') (matcher twitpic)"
  "needs (CHR ''/'') (matcher instagram)"
  using needs_slash [of "''/''"] needs_lit [of "CHR ''/''" "''com/''"] needs_lit [of "CHR ''/''" "''com/video/''"]
    needs_slash [of "''twitvid.com/''"] needs_slash [of "''twitpic.com/''"] needs_slash [of "''/p/''"]
  by (simp_all add: youtube_def vimeo_def metacafe_def dailymotion_def twitvid_def twitpic_def instagram_def
      del: lit.simps)

lemma match_needs:
  assumes "needs (CHR ''/'') (matcher p)" "CHR ''/'' \<notin> set q"
    "exec_from (matcher p) 0 (u @ q) = exec_from (matcher p) (length u) q"
  shows "match p (u @ q) = None"
  using exec_from_needs [OF assms(1,2)] assms(3) by (simp add: match_def exec_def)

text \<open>The characters at which the patterns can begin.\<close>

lemma starts:
  "lower c \<noteq> CHR ''y'' \<Longrightarrow> run (matcher youtube) (i, c # s, g) = []"
  "c \<noteq> CHR ''v'' \<Longrightarrow> run (matcher vimeo) (i, c # s, g) = []"
  "c \<noteq> CHR ''m'' \<Longrightarrow> run (matcher metacafe) (i, c # s, g) = []"
  "c \<noteq> CHR ''d'' \<Longrightarrow> run (matcher dailymotion) (i, c # s, g) = []"
  "lower c \<noteq> CHR ''t'' \<Longrightarrow> run (matcher twitvid) (i, c # s, g) = []"
  "lower c \<noteq> CHR ''t'' \<Longrightarrow> run (matcher twitpic) (i, c # s, g) = []"
  "lower c \<noteq> CHR ''i'' \<Longrightarrow> run (matcher instagram) (i, c # s, g) = []"
  "lower c \<noteq> CHR ''m'' \<Longrightarrow> run (matcher google_maps) (i, c # s, g) = []"
  by (rule no_host; assumption)
    (simp_all add: vimeo_def metacafe_def dailymotion_def twitvid_def twitpic_def instagram_def
      google_maps_def liti.simps)

lemma starts2:
  "d \<noteq> CHR ''e'' \<Longrightarrow> run (matcher metacafe) (i, c # d # s, g) = []"
  "lower d \<noteq> CHR ''w'' \<Longrightarrow> run (matcher twitvid) (i, c # d # s, g) = []"
  "lower d \<noteq> CHR ''w'' \<Longrightarrow> run (matcher twitpic) (i, c # d # s, g) = []"
  by (simp_all add: metacafe_def twitvid_def twitpic_def liti.simps)

text \<open>A link to a map: no other service takes it, the groups are the parts of the address.\<close>

definition mapsPlace :: "string \<Rightarrow> bool" where
  "mapsPlace place \<longleftrightarrow> place \<in> {''?ll='', ''maps?''}"

lemma others_pass:
  assumes "mapsPlace place" "CHR ''/'' \<notin> set q"
    "p \<in> set [youtube, vimeo, metacafe, dailymotion, twitvid, twitpic, instagram]"
  shows "match p ((''http://maps.google.com/'' @ place) @ q) = None"
proof (rule match_needs)
  show "needs (CHR ''/'') (matcher p)" using assms(3) other_slash by auto
  have l: "lower (CHR ''h'') = CHR ''h''" "lower (CHR ''t'') = CHR ''t''" "lower (CHR ''p'') = CHR ''p''"
    "lower (CHR '':'') = CHR '':''" "lower (CHR ''/'') = CHR ''/''" "lower (CHR ''m'') = CHR ''m''"
    "lower (CHR ''a'') = CHR ''a''" "lower (CHR ''s'') = CHR ''s''" "lower (CHR ''.'') = CHR ''.''"
    "lower (CHR ''g'') = CHR ''g''" "lower (CHR ''o'') = CHR ''o''" "lower (CHR ''l'') = CHR ''l''"
    "lower (CHR ''e'') = CHR ''e''" "lower (CHR ''c'') = CHR ''c''" "lower (CHR ''?'') = CHR ''?''"
    "lower (CHR ''='') = CHR ''=''"
    by (simp_all add: lower_def code_def)
  show "exec_from (matcher p) 0 ((''http://maps.google.com/'' @ place) @ q)
      = exec_from (matcher p) (length (''http://maps.google.com/'' @ place)) q"
    using assms(1,3) unfolding mapsPlace_def by (auto simp: starts starts2 l)
qed (rule assms(2))

lemma first_maps:
  assumes "mapsPlace place" "list_all notEol q"
  shows "\<exists>y g. first (matcher google_maps) (i, ''maps.google.com/'' @ place @ q, \<lambda>_. None) (y, g) \<and>
    snd g 1 = Some ''com'' \<and> snd g 3 = Some place \<and> snd g 4 = Some q"
proof -
  let ?g1 = "(\<lambda>_. None)(1 \<mapsto> ''com'')"
  let ?g3 = "?g1(3 \<mapsto> place)"
  have l: "map lower ''maps.google.'' = ''maps.google.''" "map lower ''/'' = ''/''" "map lower place = place"
    using assms(1) by (auto simp: mapsPlace_def lower_def code_def)
  have len: "length ''maps.google.'' = 12" by simp
  have "first (seqs [Cls letter, Cls letter, Maybe (Cls letter), Maybe (Grp 2 (seqs [liti ''.'', Cls letter, Cls letter]))])
      (i + 12, ''com'' @ ''/'' @ place @ q, \<lambda>_. None) (i + 12 + 3, ''/'' @ place @ q, \<lambda>_. None)"
    by (simp add: first_def ahead_def liti.simps letter_def code_def lower_def)
  from first_Grp [OF this, of 1]
  have one: "first (Grp 1 (seqs [Cls letter, Cls letter, Maybe (Cls letter), Maybe (Grp 2 (seqs [liti ''.'', Cls letter, Cls letter]))]))
      (i + 12, ''com'' @ ''/'' @ place @ q, \<lambda>_. None) (i + 15, ''/'' @ place @ q, ?g1)" by (simp add: add.commute)
  have zero: "first (liti ''maps.google.'') (i, ''maps.google.'' @ ''com'' @ ''/'' @ place @ q, \<lambda>_. None)
      (i + 12, ''com'' @ ''/'' @ place @ q, \<lambda>_. None)"
    using first_liti [OF l(1), of i "''com'' @ ''/'' @ place @ q" "\<lambda>_. None"] by (simp only: len)
  have two: "first (liti ''/'') (i + 15, ''/'' @ place @ q, ?g1) (i + 16, place @ q, ?g1)"
    using first_liti [OF l(2), of "i + 15" "place @ q" ?g1] by (simp add: add.commute)
  have "run (liti ''?ll='') (i + 16, place @ q, ?g1) = []" if "place = ''maps?''"
    by (rule liti_fails [of 1]) (use that in \<open>simp_all add: lower_def code_def\<close>)
  then have "first (Alt (liti ''?ll='') (liti ''maps?'')) (i + 16, place @ q, ?g1) (i + 16 + length place, q, ?g1)"
    using assms(1) l(3) first_liti [of place] unfolding mapsPlace_def
    by (elim insertE emptyE) (simp_all only: first_AltI1 first_AltI2)
  from first_Grp [OF this, of 3]
  have three: "first (Grp 3 (Alt (liti ''?ll='') (liti ''maps?''))) (i + 16, place @ q, ?g1)
      (i + 16 + length place, q, ?g3)" by simp
  have t: "takeWhile notEol q = q" "dropWhile notEol q = []"
    using assms(2) by (simp_all add: list_all_iff takeWhile_eq_all_conv dropWhile_eq_Nil_conv)
  have "first (Many any) (i + 16 + length place, q, ?g3) (i + 16 + length place + length q, [], ?g3)"
    using first_many [of notEol "i + 16 + length place" q ?g3] by (simp only: any_def t)
  from first_Grp [OF this, of 4]
  have four: "first (Grp 4 (Many any)) (i + 16 + length place, q, ?g3)
      (i + 16 + length place + length q, [], ?g3(4 \<mapsto> q))" by simp
  have "first (matcher google_maps) (i, ''maps.google.'' @ ''com'' @ ''/'' @ place @ q, \<lambda>_. None)
      (i + 16 + length place + length q, [], ?g3(4 \<mapsto> q))"
    unfolding google_maps_def provider.simps seqs.simps
    by (rule first_Seq [OF zero first_Seq [OF one [unfolded seqs.simps] first_Seq [OF two first_Seq [OF three four]]]])
  then show ?thesis by (intro exI [of _ "i + 16 + length place + length q"] exI [of _ "([], ?g3(4 \<mapsto> q))"]) simp
qed

lemma match_maps:
  assumes "mapsPlace place" "list_all notEol q"
  shows "\<exists>a c. match google_maps ((''http://maps.google.com/'' @ place) @ q)
    = Some [a, Some ''com'', c, Some place, Some q]"
proof -
  obtain y h where f: "first (matcher google_maps) (7, ''maps.google.com/'' @ place @ q, \<lambda>_. None) (y, h)"
    and h: "snd h 1 = Some ''com''" "snd h 3 = Some place" "snd h 4 = Some q"
    using first_maps [OF assms] by blast
  obtain t g where hh: "h = (t, g)" by (cases h)
  define m where "m = ''maps.google.com/'' @ place @ q"
  have "\<forall>c \<in> set ''http://''. lower c \<noteq> CHR ''m''" by (simp add: lower_def code_def)
  then have "exec (matcher google_maps) (''http://'' @ m) = exec_from (matcher google_maps) (0 + length ''http://'') m"
    unfolding exec_def by (intro exec_from_skip) (blast intro: starts(8))
  moreover have "0 + length ''http://'' = 7" by simp
  moreover have "exec_from (matcher google_maps) 7 m = Some (g(0 \<mapsto> take (y - 7) m))"
    using f hh by (intro exec_from_first) (simp add: m_def)
  ultimately have "exec (matcher google_maps) (''http://'' @ m) = Some (g(0 \<mapsto> take (y - 7) m))"
    by (simp only:)
  moreover have "[0..<groups google_maps] = [0, 1, 2, 3, 4]" by (simp add: google_maps_def upt_rec)
  moreover have "(''http://maps.google.com/'' @ place) @ q = ''http://'' @ m" by (simp add: m_def)
  ultimately show ?thesis using h hh by (simp only: match_def) simp
qed

lemma contains_iff: "contains p t \<longleftrightarrow> (\<exists>u v. t = u @ p @ v)"
proof (induction t)
  case (Cons c t)
  have "take (length p) (c # t) = p \<longleftrightarrow> (\<exists>v. c # t = p @ v)"
    by (metis append_eq_conv_conj)
  then have "contains p (c # t) \<longleftrightarrow> (\<exists>v. c # t = p @ v) \<or> (\<exists>u v. t = u @ p @ v)"
    using Cons by simp
  also have "\<dots> \<longleftrightarrow> (\<exists>u v. c # t = u @ p @ v)"
    by (metis (no_types) append_Cons append_Nil list.exhaust list.inject)
  finally show ?case .
qed simp

lemma later_iff:
  "(\<not> take (length p) t = p \<and> contains p t) \<longleftrightarrow>
    (\<exists>u v. u \<noteq> [] \<and> t = u @ p @ v) \<and> \<not> (\<exists>v. t = p @ v)"
proof -
  have "take (length p) t = p \<longleftrightarrow> (\<exists>v. t = p @ v)"
    by (metis append_eq_conv_conj)
  moreover have "contains p t \<longleftrightarrow> (\<exists>u v. u \<noteq> [] \<and> t = u @ p @ v) \<or> (\<exists>v. t = p @ v)"
    unfolding contains_iff by (metis append_Nil)
  ultimately show ?thesis by blast
qed

end
