(* ===== verification/Fancybox_Properties.thy ===== *)
theory Fancybox_Properties
  imports Fancybox_Correct
begin

text \<open>Where the media helper sends a link.\<close>

text \<open>
  C35: every form of YouTube link is turned into the player's address. Whatever the case of the
  host, the path (\<open>watch?v=\<close>, \<open>v/\<close>, \<open>u/\<close>, \<open>embed/\<close> or none), the text before the host (without
  the letter y) and whatever follows the eleven characters of the video, the link becomes the
  embedded player of that video with the parameters of the helper and of the link, shown in a
  frame; and to load the result again changes nothing.
\<close>

theorem youtube_link:
  assumes "href obj = Some (pre @ host @ ''/'' @ place @ k @ rest)"
    "youtubeLink host place k" "\<forall>c \<in> set pre. lower c \<noteq> CHR ''y''"
  shows "let q = param (params_for ''youtube'' youtube obj);
      obj' = beforeLoad mediaDefaults obj
    in obj' = obj\<lparr>href := Some (''//www.youtube.com/embed/'' @ k @ (if q = [] then [] else CHR ''?'' # q)),
         mtype := Some ''iframe'', autoHeight := False\<rparr> \<and>
       beforeLoad mediaDefaults obj' = obj'"
proof -
  define q where "q = param (params_for ''youtube'' youtube obj)"
  define tl where "tl = (if q = [] then [] else CHR ''?'' # q)"
  have load: "beforeLoad mediaDefaults ob
      = ob\<lparr>href := Some (''//www.youtube.com/embed/'' @ k @ tl), mtype := Some ''iframe'', autoHeight := False\<rparr>"
    if m: "youtubeLink host' place' k" "\<forall>c \<in> set pre'. lower c \<noteq> CHR ''y''"
      and h: "href ob = Some (pre' @ host' @ ''/'' @ place' @ k @ rest')" "own ob = own obj" for host' place' pre' rest' ob
  proof -
    obtain a b c d e f where "match youtube (pre' @ host' @ ''/'' @ place' @ k @ rest') = Some [a, b, c, Some k, d, e, f]"
      using match_youtube [OF m] by blast
    moreover have "list_all idChar k" using m(1) by (simp add: youtubeLink_def)
    moreover have "params_for ''youtube'' youtube ob = params_for ''youtube'' youtube obj"
      by (simp add: params_for_def h(2))
    moreover have "purl youtube = Template ''//www.youtube.com/embed/$3''" "ptype youtube = ''iframe''"
      by (simp_all add: youtube_def)
    ultimately show ?thesis
      by (simp add: mediaDefaults_def h(1) rewritten_def format_youtube tl_def q_def)
  qed
  have "youtubeLink ''youtube.com'' ''embed/'' k"
    using assms(2) by (simp add: youtubeLink_def lower_def code_def)
  moreover have "\<forall>c \<in> set ''//www.''. lower c \<noteq> CHR ''y''" by (simp add: lower_def code_def)
  ultimately have again: "beforeLoad mediaDefaults ob
      = ob\<lparr>href := Some (''//www.youtube.com/embed/'' @ k @ tl), mtype := Some ''iframe'', autoHeight := False\<rparr>"
    if "href ob = Some (''//www.youtube.com/embed/'' @ k @ tl)" "own ob = own obj" for ob
    by (rule load [where rest' = tl]) (simp_all add: that)
  show ?thesis
    using load [OF assms(2,3,1) refl] again by (simp add: Let_def q_def [symmetric] tl_def [symmetric])
qed

text \<open>The first link of the documentation in the file, with the parameter of its first example.\<close>

definition linked :: "string \<Rightarrow> media" where
  "linked u = \<lparr>href = Some u, mtype = None, autoHeight = True, flashVars = None,
     own = [''youtube'' \<mapsto> [(''autoplay'', PNum 0)]]\<rparr>"

theorem youtube_link_witness:
  "beforeLoad mediaDefaults (linked ''http://www.youtube.com/watch?v=opj24KnzrWo'')
    = (linked ''//www.youtube.com/embed/opj24KnzrWo?autoplay=0&autohide=1&fs=1&rel=0&hd=1&wmode=opaque&enablejsapi=1'')
        \<lparr>mtype := Some ''iframe'', autoHeight := False\<rparr>"
proof -
  have "href (linked ''http://www.youtube.com/watch?v=opj24KnzrWo'')
      = Some (''http://www.'' @ ''youtube.com'' @ ''/'' @ ''watch?v='' @ ''opj24KnzrWo'' @ [])"
    by (simp add: linked_def)
  moreover have "youtubeLink ''youtube.com'' ''watch?v='' ''opj24KnzrWo''"
    by code_simp
  moreover have "\<forall>c \<in> set ''http://www.''. lower c \<noteq> CHR ''y''" by (simp add: lower_def code_def)
  moreover have "param (params_for ''youtube'' youtube (linked u))
      = ''autoplay=0&autohide=1&fs=1&rel=0&hd=1&wmode=opaque&enablejsapi=1''" for u
  proof -
    have "params_for ''youtube'' youtube (linked u) = [(''autoplay'', PNum 0), (''autohide'', PNum 1),
        (''fs'', PNum 1), (''rel'', PNum 0), (''hd'', PNum 1), (''wmode'', PStr ''opaque''), (''enablejsapi'', PNum 1)]"
      by (simp add: params_for_def youtube_def linked_def extendParams_def putParam_def)
    moreover have "param \<dots> = ''autoplay=0&autohide=1&fs=1&rel=0&hd=1&wmode=opaque&enablejsapi=1''"
      by code_simp
    ultimately show ?thesis by simp
  qed
  ultimately show ?thesis
    using youtube_link [of "linked ''http://www.youtube.com/watch?v=opj24KnzrWo''" "''http://www.''" "''youtube.com''"
        "''watch?v=''" "''opj24KnzrWo''" "[]"]
    by (simp add: Let_def linked_def)
qed


text \<open>
  A map is shown as street view when the query asks for the layer, but not when it asks for
  it first: the test \<open>indexOf('layer=c') > 0\<close> misses a query that begins with \<open>layer=c\<close>. For a
  query of one line without a slash, behind either form of the address.
\<close>

theorem maps_street_view:
  assumes "href obj = Some ((''http://maps.google.com/'' @ place) @ q)"
    "mapsPlace place" "list_all notEol q" "CHR ''/'' \<notin> set q"
  shows "beforeLoad mediaDefaults obj = obj\<lparr>
      href := Some (''//maps.google.com/'' @ place @ q @ ''&output='' @
        (if (\<exists>u v. u \<noteq> [] \<and> q = u @ ''layer=c'' @ v) \<and> \<not> (\<exists>v. q = ''layer=c'' @ v) then ''svembed'' else ''embed'')),
      mtype := Some ''iframe'', autoHeight := False\<rparr>"
proof -
  have street: "(\<not> take 7 q = ''layer=c'' \<and> contains ''layer=c'' q) \<longleftrightarrow>
      (\<exists>u v. u \<noteq> [] \<and> q = u @ ''layer=c'' @ v) \<and> \<not> (\<exists>v. q = ''layer=c'' @ v)"
  proof -
    have "length ''layer=c'' = 7" by simp
    then show ?thesis using later_iff [of "''layer=c''" q] by (simp only:)
  qed
  have pass: "match youtube ((''http://maps.google.com/'' @ place) @ q) = None"
    "match vimeo ((''http://maps.google.com/'' @ place) @ q) = None"
    "match metacafe ((''http://maps.google.com/'' @ place) @ q) = None"
    "match dailymotion ((''http://maps.google.com/'' @ place) @ q) = None"
    "match twitvid ((''http://maps.google.com/'' @ place) @ q) = None"
    "match twitpic ((''http://maps.google.com/'' @ place) @ q) = None"
    "match instagram ((''http://maps.google.com/'' @ place) @ q) = None"
    using others_pass [OF assms(2,4)] by (simp_all del: append_assoc)
  obtain a c where m: "match google_maps ((''http://maps.google.com/'' @ place) @ q)
      = Some [a, Some ''com'', c, Some place, Some q]"
    using match_maps [OF assms(2,3)] by blast
  have "purl google_maps = ByCall googleUrl" "ptype google_maps = ''iframe''" by (simp_all add: google_maps_def)
  moreover have "googleUrl [a, Some ''com'', c, Some place, Some q] ps obj = (''//maps.google.com/'' @ place @ q @ ''&output='' @
        (if (\<exists>u v. u \<noteq> [] \<and> q = u @ ''layer=c'' @ v) \<and> \<not> (\<exists>v. q = ''layer=c'' @ v) then ''svembed'' else ''embed''), obj)" for ps
    unfolding googleUrl_def street [symmetric] by (simp add: group_def)
  ultimately show ?thesis
    by (simp only: mediaDefaults_def beforeLoad.simps assms(1) option.case pass m rewritten_def purl.case prod.case
        Let_def list.distinct if_False)
qed

theorem maps_street_view_witness:
  "beforeLoad mediaDefaults (linked ''http://maps.google.com/maps?layer=c&z=19'')
    = (linked ''//maps.google.com/maps?layer=c&z=19&output=embed'')\<lparr>mtype := Some ''iframe'', autoHeight := False\<rparr>"
proof -
  have "\<exists>v. ''layer=c&z=19'' = ''layer=c'' @ v" by simp
  then show ?thesis
    using maps_street_view [of "linked ''http://maps.google.com/maps?layer=c&z=19''" "''maps?''" "''layer=c&z=19''"]
    by (simp add: linked_def mapsPlace_def notEol_def)
qed

end
