(* ===== verification/FlexSlider.thy ===== *)
theory FlexSlider
  imports Complex_Main Prelude
begin

text \<open>
  The slider plugin \<open>public/js/jquery.flexslider.js\<close> (v2.1): the state of one slider, its
  geometry, its controls, and the operations that reach other sliders through \<open>sync\<close> and
  \<open>asNavFor\<close>, over a page of sliders and interval timers.

  A selector option is the number of the slider it finds. Lengths are real numbers and
  indices integers; where the source computes \<open>NaN\<close> or \<open>Infinity\<close> (a division by zero),
  the result is \<open>NotFinite\<close>. Calling a method of an undefined object is \<open>TypeError\<close>;
  operations that call each other take the depth of the stack that is left, and using it
  up is the engine's \<open>RangeError\<close>. What the browser reports (sizes, visibility, touch and
  3D support) is part of the state, in the fields \<open>b_*\<close>. The order \<open>randomize\<close> gives the slides
  is not modelled; what the callbacks do is left out, their calls are recorded.
\<close>

section \<open>Data\<close>

datatype js_error = TypeError | RangeError | NotFinite

type_synonym 'a js = "js_error + 'a"

datatype direction = Next | Prev
datatype button = PlayButton | PauseButton
datatype callback = Before | After | EndCycle | Added | Removed
datatype special = NoSpecial | SetTouch | SetTotal | JumpEnd | JumpStart
datatype action = NoAction | AddAction | RemoveAction

record vars =
  v_namespace :: string
  v_fade :: bool                \<comment> \<open>\<open>animation === "fade"\<close>\<close>
  v_vertical :: bool            \<comment> \<open>\<open>direction === "vertical"\<close>\<close>
  v_reverse :: bool
  v_animationLoop :: bool
  v_smoothHeight :: bool
  v_startAt :: int
  v_slideshow :: bool
  v_initDelay :: int
  v_pauseOnAction :: bool
  v_pauseOnHover :: bool
  v_useCSS :: bool
  v_touch :: bool
  v_video :: bool
  v_controlNav :: bool
  v_directionNav :: bool
  v_keyboard :: bool
  v_mousewheel :: bool
  v_pausePlay :: bool
  v_manualControls :: "int option"   \<comment> \<open>how many elements the selector finds\<close>
  v_sync :: "nat option"
  v_asNavFor :: "nat option"
  v_itemWidth :: real
  v_itemMargin :: real
  v_minItems :: int
  v_maxItems :: int
  v_move :: int

definition defaults :: vars where
  "defaults = \<lparr>v_namespace = ''flex-'', v_fade = True, v_vertical = False, v_reverse = False,
     v_animationLoop = True, v_smoothHeight = False, v_startAt = 0, v_slideshow = True, v_initDelay = 0,
     v_pauseOnAction = True, v_pauseOnHover = False, v_useCSS = True, v_touch = True,
     v_video = False, v_controlNav = True, v_directionNav = True, v_keyboard = True,
     v_mousewheel = False, v_pausePlay = False, v_manualControls = None, v_sync = None,
     v_asNavFor = None, v_itemWidth = 0, v_itemMargin = 0, v_minItems = 0, v_maxItems = 0,
     v_move = 0\<rparr>"

text \<open>The two sliders \<open>public/js/custom.js\<close> starts: options given over the defaults.\<close>

definition mainSlider :: vars where
  "mainSlider = defaults\<lparr>v_namespace := ''flex-'', v_fade := True, v_vertical := False,
     v_reverse := False, v_animationLoop := True, v_smoothHeight := False, v_startAt := 0,
     v_slideshow := True, v_initDelay := 0, v_pauseOnAction := True, v_pauseOnHover := False,
     v_useCSS := True, v_touch := True, v_video := False, v_controlNav := True,
     v_directionNav := True, v_keyboard := True, v_mousewheel := False, v_pausePlay := False,
     v_manualControls := None, v_sync := None, v_asNavFor := None\<rparr>"

definition postSlider :: vars where
  "postSlider = defaults\<lparr>v_controlNav := False, v_directionNav := True, v_keyboard := True,
     v_mousewheel := False, v_pausePlay := False, v_manualControls := None, v_sync := None,
     v_asNavFor := None\<rparr>"

text \<open>
  The variables of \<open>methods.touch\<close>; \<open>dx\<close> is undefined until the first move and \<open>null\<close> after
  the touch. \<open>t_listening\<close>: the move and end handlers are attached.
\<close>

datatype dx = DxUndefined | DxNull | Dx real

record touchSession =
  t_startX :: real
  t_startY :: real
  t_offset :: real
  t_cwidth :: real
  t_dx :: dx
  t_startT :: real
  t_scrolling :: bool
  t_listening :: bool

record slider =
  opts :: vars
  b_width :: real
  b_slideHeight :: real
  b_heights :: "int \<Rightarrow> real"     \<comment> \<open>the heights of \<open>slider.slides\<close>\<close>
  b_padding :: real             \<comment> \<open>\<open>slide.outerWidth() - slide.width()\<close>\<close>
  b_visible :: bool             \<comment> \<open>\<open>slider.is(":visible")\<close>\<close>
  b_touch :: bool
  b_css3d :: bool
  count :: int
  slidesLength :: int           \<comment> \<open>length of \<open>slider.slides\<close>\<close>
  animating :: bool
  currentSlide :: int
  animatingTo :: int
  atEnd :: bool
  direction :: "direction option"
  playing :: bool
  manualPause :: bool
  manualPlay :: bool
  animatedSlides :: "nat option"     \<comment> \<open>the interval's handle\<close>
  transitions :: bool
  w :: real
  h :: real
  boxPadding :: real
  itemW :: real
  computedW :: real
  limit :: real
  visible :: int
  move :: int
  pagingCount :: int
  last :: int
  cloneCount :: int
  cloneOffset :: int
  position :: real              \<comment> \<open>the offset in \<open>slider.args\<close>: where the container goes\<close>
  shown :: "int set"            \<comment> \<open>fade: the slides faded in\<close>
  frameHeight :: real           \<comment> \<open>height set on the viewport, or on the slider with fade\<close>
  isNav :: bool                 \<comment> \<open>\<open>slider.asNav\<close>\<close>
  currentItem :: int
  activeSlide :: "int option"
  controlNavLength :: int
  controlActive :: "int option"
  prevDisabled :: bool
  nextDisabled :: bool
  pausePlay :: button
  wrapupBound :: "real option"  \<comment> \<open>\<open>wrapup\<close> is to be called, with this dimension\<close>
  setupDue :: "int list"        \<comment> \<open>timeouts of \<open>setup\<close>, with their \<open>sliderOffset\<close>\<close>
  playDue :: bool               \<comment> \<open>the timeout of \<open>initDelay\<close>\<close>
  touchState :: touchSession
  callbacks :: "callback list"

record page =
  sliders :: "nat \<rightharpoonup> slider"
  timers :: "(nat \<times> nat) list"  \<comment> \<open>live intervals: handle and slider\<close>
  nextTimer :: nat

definition carousel :: "slider \<Rightarrow> bool" where
  "carousel s \<longleftrightarrow> 0 < v_itemWidth (opts s)"

definition asNav :: "slider \<Rightarrow> bool" where
  "asNav s \<longleftrightarrow> v_asNavFor (opts s) \<noteq> None"

text \<open>\<open>$(...).eq(k)\<close> of a collection of length \<open>n\<close>: a negative index counts from the end.\<close>

definition eqIndex :: "int \<Rightarrow> int \<Rightarrow> int option" where
  "eqIndex n k = (if 0 \<le> k \<and> k < n then Some k
     else if - n \<le> k \<and> k < 0 then Some (n + k) else None)"

definition getSlider :: "page \<Rightarrow> nat \<Rightarrow> slider js" where
  "getSlider p i = (case sliders p i of None \<Rightarrow> Inl TypeError | Some s \<Rightarrow> Inr s)"

definition putSlider :: "nat \<Rightarrow> slider \<Rightarrow> page \<Rightarrow> page" where
  "putSlider i s p = p\<lparr>sliders := (sliders p)(i \<mapsto> s)\<rparr>"

section \<open>Geometry\<close>

definition doMath :: "slider \<Rightarrow> slider js" where
  "doMath s0 =
     (let o' = opts s0; margin = v_itemMargin o';
          s = s0\<lparr>w := b_width s0, h := b_slideHeight s0, boxPadding := b_padding s0\<rparr>
      in res_bind
        (if carousel s then
           let itemT = v_itemWidth o' + margin;
               minW = (if v_minItems o' \<noteq> 0 then real_of_int (v_minItems o') * itemT else w s);
               maxW = (if v_maxItems o' \<noteq> 0 then real_of_int (v_maxItems o') * itemT else w s);
               iw = (if minW > w s then (w s - margin * real_of_int (v_minItems o')) / real_of_int (v_minItems o')
                     else if maxW < w s then (w s - margin * real_of_int (v_maxItems o')) / real_of_int (v_maxItems o')
                     else if v_itemWidth o' > w s then w s else v_itemWidth o')
           in if iw + margin = 0 then Inl NotFinite
           else
             let vis = \<lfloor>w s / (iw + margin)\<rfloor>;
                 mv = (if 0 < v_move o' \<and> v_move o' < vis then v_move o' else vis)
             in if mv = 0 then Inl NotFinite
             else
               let pc = \<lceil>real_of_int (count s - vis) / real_of_int mv + 1\<rceil>
               in Inr (s\<lparr>itemW := iw, visible := vis, move := mv, pagingCount := pc,
                    last := pc - 1,
                    limit := (if pc = 1 then 0
                      else if v_itemWidth o' > w s then (iw + margin * 2) * real_of_int (count s) - w s - margin
                      else (iw + margin) * real_of_int (count s) - w s - margin)\<rparr>)
         else Inr (s\<lparr>itemW := w s, pagingCount := count s, last := count s - 1\<rparr>))
        (\<lambda>s. Inr (s\<lparr>computedW := itemW s - boxPadding s\<rparr>)))"

text \<open>
  \<open>setProps\<close>: the offset is \<open>-1\<close> times \<open>posCalc\<close>. Without an argument \<open>pos\<close> is undefined,
  which the source treats like \<open>0\<close>. With a duration and no CSS transitions it is the
  caller's \<open>animate(slider.args, ...)\<close> that moves the container there.
\<close>

definition posCalc :: "real \<Rightarrow> special \<Rightarrow> slider \<Rightarrow> real" where
  "posCalc pos special s =
     (let o' = opts s; step = (itemW s + v_itemMargin o') * real_of_int (move s * animatingTo s);
          posCheck = (if pos \<noteq> 0 then pos else step)
      in if carousel s then
           if special = SetTouch then pos
           else if v_reverse o' \<and> animatingTo s = last s then 0
           else if v_reverse o' then limit s - step
           else if animatingTo s = last s then limit s else posCheck
         else (case special of
             SetTotal \<Rightarrow> if v_reverse o'
               then real_of_int (count s - 1 - currentSlide s + cloneOffset s) * pos
               else real_of_int (currentSlide s + cloneOffset s) * pos
           | SetTouch \<Rightarrow> pos
           | JumpEnd \<Rightarrow> if v_reverse o' then pos else real_of_int (count s) * pos
           | JumpStart \<Rightarrow> if v_reverse o' then real_of_int (count s) * pos else pos
           | NoSpecial \<Rightarrow> pos))"

definition setProps :: "real \<Rightarrow> special \<Rightarrow> slider \<Rightarrow> slider" where
  "setProps pos special s = s\<lparr>position := - posCalc pos special s\<rparr>"

section \<open>Controls\<close>

definition controlNav_active :: "slider \<Rightarrow> slider" where
  "controlNav_active s = s\<lparr>controlActive := eqIndex (controlNavLength s) (animatingTo s)\<rparr>"

definition controlNav_setup :: "slider \<Rightarrow> slider" where
  "controlNav_setup s = controlNav_active
     (s\<lparr>controlNavLength := (case v_manualControls (opts s) of
          None \<Rightarrow> if 1 < pagingCount s then pagingCount s else 0
        | Some n \<Rightarrow> n)\<rparr>)"

definition directionNav_update :: "slider \<Rightarrow> slider" where
  "directionNav_update s =
     (if pagingCount s = 1 then s\<lparr>prevDisabled := True, nextDisabled := True\<rparr>
      else if \<not> v_animationLoop (opts s) then
        if animatingTo s = 0 then s\<lparr>prevDisabled := True, nextDisabled := False\<rparr>
        else if animatingTo s = last s then s\<lparr>prevDisabled := False, nextDisabled := True\<rparr>
        else s\<lparr>prevDisabled := False, nextDisabled := False\<rparr>
      else s\<lparr>prevDisabled := False, nextDisabled := False\<rparr>)"

definition pausePlay_update :: "string \<Rightarrow> slider \<Rightarrow> slider" where
  "pausePlay_update state s =
     s\<lparr>pausePlay := (if state = ''play'' then PlayButton else PauseButton)\<rparr>"

definition pausePlay_setup :: "slider \<Rightarrow> slider" where
  "pausePlay_setup s = pausePlay_update
     (if v_slideshow (opts s) then v_namespace (opts s) @ ''pause''
      else v_namespace (opts s) @ ''play'') s"

section \<open>Targets\<close>

definition canAdvance :: "slider \<Rightarrow> int \<Rightarrow> bool \<Rightarrow> bool" where
  "canAdvance s target fromNav =
     (let lst = (if asNav s then pagingCount s - 1 else last s) in
      if fromNav then True
      else if asNav s \<and> currentItem s = count s - 1 \<and> target = 0 \<and> direction s = Some Prev then True
      else if asNav s \<and> currentItem s = 0 \<and> target = pagingCount s - 1 \<and> direction s \<noteq> Some Next
        then False
      else if target = currentSlide s \<and> \<not> asNav s then False
      else if v_animationLoop (opts s) then True
      else if atEnd s \<and> currentSlide s = 0 \<and> target = lst \<and> direction s \<noteq> Some Next then False
      else if atEnd s \<and> currentSlide s = lst \<and> target = 0 \<and> direction s = Some Next then False
      else True)"

text \<open>\<open>getTarget\<close>: it also writes \<open>slider.direction\<close>.\<close>

definition target_of :: "direction \<Rightarrow> slider \<Rightarrow> int" where
  "target_of dir s =
     (if dir = Next then if currentSlide s = last s then 0 else currentSlide s + 1
      else if currentSlide s = 0 then last s else currentSlide s - 1)"

definition getTarget :: "direction \<Rightarrow> slider \<Rightarrow> int \<times> slider" where
  "getTarget dir s = (target_of dir s, s\<lparr>direction := Some dir\<rparr>)"

section \<open>The slideshow\<close>

definition clearInterval :: "nat option \<Rightarrow> page \<Rightarrow> page" where
  "clearInterval t p = (case t of None \<Rightarrow> p
     | Some t \<Rightarrow> p\<lparr>timers := filter (\<lambda>(t', _). t' \<noteq> t) (timers p)\<rparr>)"

definition setInterval :: "nat \<Rightarrow> page \<Rightarrow> nat \<times> page" where
  "setInterval i p = (nextTimer p,
     p\<lparr>timers := timers p @ [(nextTimer p, i)], nextTimer := nextTimer p + 1\<rparr>)"

text \<open>What \<open>pause\<close> and \<open>play\<close> do to the page before they turn to the synchronised slider.\<close>

definition pauseSelf :: "nat \<Rightarrow> slider \<Rightarrow> page \<Rightarrow> page" where
  "pauseSelf i s p =
     (let s1 = s\<lparr>playing := False\<rparr>;
          s2 = (if v_pausePlay (opts s1) then pausePlay_update ''play'' s1 else s1)
      in putSlider i s2 (clearInterval (animatedSlides s) p))"

definition playSelf :: "nat \<Rightarrow> slider \<Rightarrow> page \<Rightarrow> page" where
  "playSelf i s p =
     (let (t, p1) = setInterval i p;
          s1 = s\<lparr>animatedSlides := Some t, playing := True\<rparr>;
          s2 = (if v_pausePlay (opts s1) then pausePlay_update ''pause'' s1 else s1)
      in putSlider i s2 p1)"

primrec pause :: "nat \<Rightarrow> nat \<Rightarrow> page \<Rightarrow> page js" where
  "pause 0 i p = Inl RangeError"
| "pause (Suc n) i p =
     res_bind (getSlider p i) (\<lambda>s.
     case v_sync (opts s) of
       None \<Rightarrow> Inr (pauseSelf i s p)
     | Some j \<Rightarrow> pause n j (pauseSelf i s p))"

primrec play :: "nat \<Rightarrow> nat \<Rightarrow> page \<Rightarrow> page js" where
  "play 0 i p = Inl RangeError"
| "play (Suc n) i p =
     res_bind (getSlider p i) (\<lambda>s.
     case v_sync (opts s) of
       None \<Rightarrow> Inr (playSelf i s p)
     | Some j \<Rightarrow>
         let p1 = playSelf i s p in
         res_bind (getSlider p1 j) (\<lambda>peer.
         if \<not> playing peer \<and> \<not> isNav peer then play n j p1 else Inr p1))"

section \<open>The animation\<close>

definition slideString :: "slider \<Rightarrow> int \<Rightarrow> real \<Rightarrow> real" where
  "slideString s target dimension =
     (let o' = opts s in
      if carousel s then
        let margin = (if v_itemWidth o' > w s then v_itemMargin o' * 2 else v_itemMargin o');
            calcNext = (itemW s + margin) * real_of_int (move s * animatingTo s)
        in if calcNext > limit s \<and> visible s \<noteq> 1 then limit s else calcNext
      else if currentSlide s = 0 \<and> target = count s - 1 \<and> v_animationLoop o'
          \<and> direction s \<noteq> Some Next then
        if v_reverse o' then real_of_int (count s + cloneOffset s) * dimension else 0
      else if currentSlide s = last s \<and> target = 0 \<and> v_animationLoop o'
          \<and> direction s \<noteq> Some Prev then
        if v_reverse o' then 0 else real_of_int (count s + 1) * dimension
      else if v_reverse o' then real_of_int (count s - 1 - target + cloneOffset s) * dimension
      else real_of_int (target + cloneOffset s) * dimension)"

text \<open>The two ends of \<open>flexAnimate\<close>: moving the container, and fading.\<close>

definition dimension_of :: "slider \<Rightarrow> real" where
  "dimension_of s = (if v_vertical (opts s) then b_slideHeight s else computedW s)"

definition slideTo :: "int \<Rightarrow> slider \<Rightarrow> slider" where
  "slideTo target s0 =
     (let dimension = dimension_of s0;
          s = setProps (slideString s0 target dimension) NoSpecial s0;
          s = (if transitions s \<and> (\<not> v_animationLoop (opts s) \<or> \<not> atEnd s)
               then s\<lparr>animating := False, currentSlide := animatingTo s\<rparr> else s)
      in s\<lparr>wrapupBound := Some dimension\<rparr>)"

definition fadeTo :: "int \<Rightarrow> slider \<Rightarrow> slider" where
  "fadeTo target s =
     (let s1 = s\<lparr>shown := insert target (shown s - {currentSlide s})\<rparr> in
      if \<not> b_touch s then s1\<lparr>wrapupBound := Some 0\<rparr>
      else s1\<lparr>animating := False, currentSlide := animatingTo s1\<rparr>)"

text \<open>\<open>wrapup(dimension)\<close>, and the completion of the transition that calls it.\<close>

definition wrapup :: "real \<Rightarrow> slider \<Rightarrow> slider" where
  "wrapup dimension s =
     (let s1 = (if \<not> v_fade (opts s) \<and> \<not> carousel s then
                  if currentSlide s = 0 \<and> animatingTo s = last s \<and> v_animationLoop (opts s)
                  then setProps dimension JumpEnd s
                  else if currentSlide s = last s \<and> animatingTo s = 0 \<and> v_animationLoop (opts s)
                  then setProps dimension JumpStart s
                  else s
                else s)
      in s1\<lparr>animating := False, currentSlide := animatingTo s1, callbacks := callbacks s1 @ [After]\<rparr>)"

definition transitionEnd :: "slider \<Rightarrow> slider" where
  "transitionEnd s = (case wrapupBound s of
       None \<Rightarrow> s
     | Some d \<Rightarrow> if transitions s then wrapup d s else wrapup d (s\<lparr>wrapupBound := None\<rparr>))"

text \<open>
  \<open>flexAnimate\<close>. \<open>pauseF\<close> is \<open>slider.pause\<close> and \<open>again\<close> the call of \<open>flexAnimate\<close> on another
  slider, both with the stack that is left. \<open>animate\<close> is the part after the guards.
\<close>

type_synonym animate_fn = "nat \<Rightarrow> int \<Rightarrow> bool \<Rightarrow> bool \<Rightarrow> bool \<Rightarrow> bool \<Rightarrow> page \<Rightarrow> page js"

definition markTarget :: "int \<Rightarrow> slider \<Rightarrow> slider" where
  "markTarget target s0 =
     (let s = (if v_controlNav (opts s0) then controlNav_active s0 else s0);
          s = (if \<not> carousel s then s\<lparr>activeSlide := eqIndex (slidesLength s) target\<rparr> else s);
          s = s\<lparr>atEnd := (target = 0 \<or> target = last s)\<rparr>;
          s = (if v_directionNav (opts s) then directionNav_update s else s)
      in if target = last s then s\<lparr>callbacks := callbacks s @ [EndCycle]\<rparr> else s)"

text \<open>
  \<open>methods.smoothHeight\<close>: the frame takes the height of the slide (the end of the animation
  when it is animated), and the call of it under the option.
\<close>

definition smoothHeight :: "slider \<Rightarrow> slider" where
  "smoothHeight s =
     (if \<not> v_vertical (opts s) \<or> v_fade (opts s)
      then case eqIndex (slidesLength s) (animatingTo s) of
          None \<Rightarrow> s
        | Some k \<Rightarrow> s\<lparr>frameHeight := b_heights s k\<rparr>
      else s)"

definition whenSmooth :: "slider \<Rightarrow> slider" where
  "whenSmooth s = (if v_smoothHeight (opts s) then smoothHeight s else s)"

text \<open>The parts of \<open>animate\<close>: \<open>methods.sync("animate")\<close>, and what follows it.\<close>

definition syncAnimate :: "animate_fn \<Rightarrow> nat \<Rightarrow> bool \<Rightarrow> page \<Rightarrow> page js" where
  "syncAnimate again i fromNav p =
     res_bind (getSlider p i) (\<lambda>s.
     case v_sync (opts s) of
       None \<Rightarrow> Inr p
     | Some j \<Rightarrow> if fromNav then Inr p
         else again j (animatingTo s) (v_pauseOnAction (opts s)) False True False p)"

definition moveTo :: "int \<Rightarrow> slider \<Rightarrow> slider" where
  "moveTo target s = whenSmooth (if v_fade (opts s) then fadeTo target s else slideTo target s)"

definition finishAnimate :: "(nat \<Rightarrow> page \<Rightarrow> page js) \<Rightarrow> nat \<Rightarrow> int \<Rightarrow> page \<Rightarrow> page js" where
  "finishAnimate pauseF i target p =
     res_bind (getSlider p i) (\<lambda>s0.
     let s = markTarget target s0; p1 = putSlider i s p in
     res_bind (if target = last s \<and> \<not> v_animationLoop (opts s) then pauseF i p1 else Inr p1) (\<lambda>p2.
     res_bind (getSlider p2 i) (\<lambda>s2. Inr (putSlider i (moveTo target s2) p2))))"

definition animate ::
    "(nat \<Rightarrow> page \<Rightarrow> page js) \<Rightarrow> animate_fn \<Rightarrow> nat \<Rightarrow> int \<Rightarrow> bool \<Rightarrow> bool \<Rightarrow> page \<Rightarrow> page js" where
  "animate pauseF again i target pauseIt fromNav p =
     res_bind (getSlider p i) (\<lambda>s.
     let p1 = putSlider i (s\<lparr>animating := True, animatingTo := target,
                callbacks := callbacks s @ [Before]\<rparr>) p in
     res_bind (if pauseIt then pauseF i p1 else Inr p1) (\<lambda>p2.
     res_bind (syncAnimate again i fromNav p2) (\<lambda>p3.
     finishAnimate pauseF i target p3)))"

definition setItem :: "int \<Rightarrow> slider \<Rightarrow> slider" where
  "setItem target s = s\<lparr>currentItem := target, activeSlide := eqIndex (slidesLength s) target\<rparr>"

definition turn :: "int \<Rightarrow> slider \<Rightarrow> direction" where
  "turn target s = (if currentItem s < target then Next else Prev)"

primrec flexAnimate :: "nat \<Rightarrow> animate_fn" where
  "flexAnimate 0 i target pauseIt override withSync fromNav p = Inl RangeError"
| "flexAnimate (Suc n) i target pauseIt override withSync fromNav p =
     res_bind (getSlider p i) (\<lambda>s0.
     let s = (if asNav s0 \<and> pagingCount s0 = 1
              then s0\<lparr>direction := Some (turn target s0)\<rparr> else s0);
         p1 = putSlider i s p
     in if \<not> animating s \<and> (canAdvance s target fromNav \<or> override) \<and> b_visible s then
       (case v_asNavFor (opts s) of
          None \<Rightarrow> animate (pause n) (flexAnimate n) i target pauseIt fromNav p1
        | Some m \<Rightarrow>
          if \<not> withSync then animate (pause n) (flexAnimate n) i target pauseIt fromNav p1
          else
            let p2 = putSlider i (s\<lparr>atEnd := (target = 0 \<or> target = count s - 1)\<rparr>) p1 in
            res_bind (flexAnimate n m target True False True fromNav p2) (\<lambda>p3.
            res_bind (getSlider p3 i) (\<lambda>s3.
            let d = turn target s3; p4 = putSlider i (s3\<lparr>direction := Some d\<rparr>) p3 in
            res_bind (getSlider p4 m) (\<lambda>master.
            let p5 = putSlider m (master\<lparr>direction := Some d\<rparr>) p4 in
            res_bind (getSlider p5 i) (\<lambda>s5.
            let p6 = putSlider i (setItem target s5) p5 in
            if target = 0 then Inr p6
            else if visible s5 = 0 then Inl NotFinite
            else if \<lceil>real_of_int (target + 1) / real_of_int (visible s5)\<rceil> - 1 \<noteq> currentSlide s5
            then animate (pause n) (flexAnimate n) i
                   \<lfloor>real_of_int target / real_of_int (visible s5)\<rfloor> pauseIt fromNav p6
            else Inr p6)))))
     else Inr p1)"

definition animateSlides :: "nat \<Rightarrow> nat \<Rightarrow> page \<Rightarrow> page js" where
  "animateSlides n i p =
     res_bind (getSlider p i) (\<lambda>s.
     if \<not> animating s then
       (case getTarget Next s of (target, s') \<Rightarrow>
          flexAnimate n i target False False False False (putSlider i s' p))
     else Inr p)"

end
