(* ===== verification/FlexSlider_Page.thy ===== *)
theory FlexSlider_Page
  imports FlexSlider
begin

text \<open>
  Building and changing sliders of \<open>public/js/jquery.flexslider.js\<close>: \<open>setup\<close>, \<open>init\<close>,
  \<open>update\<close>, \<open>addSlide\<close>, \<open>removeSlide\<close> and \<open>resize\<close>; the touch session; and the events of a
  page, each with its handler.
\<close>

section \<open>Setup\<close>

definition setupSlider :: "bool \<Rightarrow> slider \<Rightarrow> slider" where
  "setupSlider init s0 =
     (let o' = opts s0;
          s = (if \<not> v_fade o' then
                 let s = (if init then s0\<lparr>cloneCount := 0, cloneOffset := 0\<rparr> else s0);
                     s = (if v_animationLoop o' \<and> \<not> carousel s
                          then s\<lparr>cloneCount := 2, cloneOffset := 1\<rparr> else s);
                     sliderOffset = (if v_reverse o'
                       then count s - 1 - currentSlide s + cloneOffset s
                       else currentSlide s + cloneOffset s);
                     s = (if v_vertical o' \<and> \<not> carousel s then s
                          else setProps (real_of_int sliderOffset * computedW s) NoSpecial s)
                 in s\<lparr>setupDue := setupDue s @ [sliderOffset]\<rparr>
               else whenSmooth (if init then
                 if \<not> b_touch s0 then s0\<lparr>shown := insert (currentSlide s0) (shown s0)\<rparr>
                 else s0\<lparr>shown := {currentSlide s0}\<rparr>
               else s0))
      in if \<not> carousel s then s\<lparr>activeSlide := eqIndex (slidesLength s) (currentSlide s)\<rparr> else s)"

text \<open>The timeout of \<open>setup\<close>.\<close>

definition setupTimeout :: "slider \<Rightarrow> slider js" where
  "setupTimeout s =
     (case setupDue s of
        [] \<Rightarrow> Inr s
      | sliderOffset # due \<Rightarrow>
          res_bind (doMath (s\<lparr>setupDue := due\<rparr>)) (\<lambda>s1.
          if v_vertical (opts s1) \<and> \<not> carousel s1
          then Inr (setProps (real_of_int sliderOffset * h s1) NoSpecial (s1\<lparr>frameHeight := h s1\<rparr>))
          else Inr (whenSmooth s1)))"

text \<open>\<open>methods.asNav.setup\<close>: without a carousel \<open>slider.move\<close> is undefined, here 0.\<close>

definition asNav_setup :: "slider \<Rightarrow> slider js" where
  "asNav_setup s =
     (if move s = 0 then Inl NotFinite
      else Inr (s\<lparr>isNav := True,
        animatingTo := \<lfloor>real_of_int (currentSlide s) / real_of_int (move s)\<rfloor>,
        currentItem := currentSlide s,
        activeSlide := eqIndex (slidesLength s) (currentSlide s)\<rparr>))"

definition newSlider :: "vars \<Rightarrow> real \<Rightarrow> (int \<Rightarrow> real) \<Rightarrow> real \<Rightarrow> bool \<Rightarrow> bool \<Rightarrow> bool \<Rightarrow> int \<Rightarrow> slider" where
  "newSlider o' width heights padding vis touchDevice css3d n =
     \<lparr>opts = o', b_width = width, b_slideHeight = heights 0, b_heights = heights,
      b_padding = padding, b_visible = vis,
      b_touch = touchDevice, b_css3d = css3d, count = n, slidesLength = n, animating = False,
      currentSlide = v_startAt o', animatingTo = v_startAt o', atEnd = (v_startAt o' = 0),
      direction = None, playing = False, manualPause = False, manualPlay = False,
      animatedSlides = None,
      transitions = (\<not> v_video o' \<and> \<not> v_fade o' \<and> v_useCSS o' \<and> css3d),
      w = 0, h = 0, boxPadding = 0, itemW = 0, computedW = 0, limit = 0, visible = 0, move = 0,
      pagingCount = 0, last = 0, cloneCount = 0, cloneOffset = 0, position = 0, shown = {},
      frameHeight = 0, isNav = False, currentItem = 0, activeSlide = None, controlNavLength = 0,
      controlActive = None, prevDisabled = False, nextDisabled = False, pausePlay = PauseButton,
      wrapupBound = None, setupDue = [], playDue = False,
      touchState = \<lparr>t_startX = 0, t_startY = 0, t_offset = 0, t_cwidth = 0, t_dx = DxUndefined,
        t_startT = 0, t_scrolling = False, t_listening = False\<rparr>, callbacks = []\<rparr>"

text \<open>
  \<open>methods.init\<close> on the fresh slider \<open>newSlider ...\<close>: everything up to the slideshow is the
  slider's own business (\<open>initSelf\<close>), then the slideshow starts, now or after \<open>initDelay\<close>.
\<close>

definition initSelf :: "slider \<Rightarrow> slider js" where
  "initSelf s0 =
     res_bind (doMath s0) (\<lambda>s1.
     res_bind (if asNav s1 then asNav_setup s1 else Inr s1) (\<lambda>s2.
     let s3 = setupSlider True s2;
         s4 = (if v_controlNav (opts s3) then controlNav_setup s3 else s3);
         s5 = (if v_directionNav (opts s4) then directionNav_update s4 else s4)
     in Inr (if v_pausePlay (opts s5) then pausePlay_setup s5 else s5)))"

definition init :: "nat \<Rightarrow> nat \<Rightarrow> slider \<Rightarrow> page \<Rightarrow> page js" where
  "init n i s0 p =
     res_bind (initSelf s0) (\<lambda>s.
     if v_slideshow (opts s) then
       if 0 < v_initDelay (opts s) then Inr (putSlider i (s\<lparr>playDue := True\<rparr>) p)
       else play n i (putSlider i s p)
     else Inr (putSlider i s p))"

text \<open>\<open>$.fn.flexslider(options)\<close> on one element: a single slide gets no slider.\<close>

definition plugin :: "nat \<Rightarrow> nat \<Rightarrow> slider \<Rightarrow> page \<Rightarrow> page js" where
  "plugin n i s0 p =
     (if slidesLength s0 = 1 then Inr p
      else if sliders p i = None then init n i s0 p else Inr p)"

section \<open>Adding and removing slides\<close>

definition controlNav_step :: "action \<Rightarrow> int option \<Rightarrow> slider \<Rightarrow> slider" where
  "controlNav_step act pos s =
     (if 1 < pagingCount s \<and> act = AddAction
      then s\<lparr>controlNavLength := controlNavLength s + 1\<rparr>
      else if pagingCount s = 1 then s\<lparr>controlNavLength := 0\<rparr>
      else if Option.bind pos (eqIndex (controlNavLength s)) \<noteq> None
      then s\<lparr>controlNavLength := controlNavLength s - 1\<rparr> else s)"

text \<open>
  \<open>slider.update(pos, action)\<close>; a \<open>pos\<close> that is undefined compares false. It calls
  \<open>controlNav.update\<close>, which calls it again while the number of controls is wrong.
\<close>

definition updateCurrent :: "int option \<Rightarrow> slider \<Rightarrow> slider" where
  "updateCurrent pos s =
     (if carousel s then s
      else let s1 = (case pos of
                None \<Rightarrow> s
              | Some k \<Rightarrow>
                  if k < currentSlide s then s\<lparr>currentSlide := currentSlide s + 1\<rparr>
                  else if k \<le> currentSlide s \<and> k \<noteq> 0
                  then s\<lparr>currentSlide := currentSlide s - 1\<rparr> else s)
           in s1\<lparr>animatingTo := currentSlide s1\<rparr>)"

definition controlNav_update ::
    "(int option \<Rightarrow> action \<Rightarrow> slider \<Rightarrow> slider js) \<Rightarrow> action \<Rightarrow> int option \<Rightarrow> slider \<Rightarrow> slider js" where
  "controlNav_update updateF act pos s =
     (let s1 = controlNav_step act pos s in
      if 1 < pagingCount s1 \<and> pagingCount s1 \<noteq> controlNavLength s1 then updateF pos act s1
      else Inr (controlNav_active s1))"

primrec update :: "nat \<Rightarrow> int option \<Rightarrow> action \<Rightarrow> slider \<Rightarrow> slider js" where
  "update 0 pos act s = Inl RangeError"
| "update (Suc n) pos act s0 =
     res_bind (doMath s0) (\<lambda>s1.
     let s = updateCurrent pos s1 in
     res_bind
       (if v_controlNav (opts s) \<and> v_manualControls (opts s) = None then
          if (act = AddAction \<and> \<not> carousel s) \<or> pagingCount s > controlNavLength s
          then controlNav_update (update n) AddAction None s
          else if (act = RemoveAction \<and> \<not> carousel s) \<or> pagingCount s < controlNavLength s then
            let s2 = (if carousel s \<and> currentSlide s > last s
                      then s\<lparr>currentSlide := currentSlide s - 1, animatingTo := animatingTo s - 1\<rparr>
                      else s)
            in controlNav_update (update n) RemoveAction (Some (last s2)) s2
          else Inr s
        else Inr s)
       (\<lambda>s. Inr (if v_directionNav (opts s) then directionNav_update s else s)))"

definition addSlide :: "nat \<Rightarrow> int option \<Rightarrow> slider \<Rightarrow> slider js" where
  "addSlide n pos s0 =
     (let s = s0\<lparr>count := count s0 + 1, last := count s0\<rparr> in
      res_bind (update n pos AddAction s) (\<lambda>s1.
      let s2 = setupSlider False (s1\<lparr>slidesLength := count s1\<rparr>) in
      Inr (s2\<lparr>callbacks := callbacks s2 @ [Added]\<rparr>)))"

definition removeSlide :: "nat \<Rightarrow> int \<Rightarrow> slider \<Rightarrow> slider js" where
  "removeSlide n pos s0 =
     (let s = s0\<lparr>count := count s0 - 1, last := count s0 - 2\<rparr> in
      res_bind (doMath s) (\<lambda>s1.
      res_bind (update n (Some pos) RemoveAction s1) (\<lambda>s2.
      let s3 = setupSlider False (s2\<lparr>slidesLength := count s2\<rparr>) in
      Inr (s3\<lparr>callbacks := callbacks s3 @ [Removed]\<rparr>))))"

section \<open>Resizing\<close>

definition resize :: "nat \<Rightarrow> slider \<Rightarrow> slider js" where
  "resize n s0 =
     (if \<not> animating s0 \<and> b_visible s0 then
        res_bind (if \<not> carousel s0 then doMath s0 else Inr s0) (\<lambda>s.
        if v_fade (opts s) then Inr (smoothHeight s)
        else if carousel s then
          res_bind (update n (Some (pagingCount s)) NoAction s) (\<lambda>s1. Inr (setProps 0 NoSpecial s1))
        else if v_vertical (opts s) then Inr (setProps (h s) SetTotal (s\<lparr>frameHeight := h s\<rparr>))
        else Inr (setProps (computedW s) SetTotal (whenSmooth s)))
      else Inr s0)"

section \<open>Touch\<close>

definition touchOffset :: "slider \<Rightarrow> real \<Rightarrow> real" where
  "touchOffset s cwidth =
     (let o' = opts s; step = (itemW s + v_itemMargin o') * real_of_int (move s) in
      if carousel s \<and> v_reverse o' \<and> animatingTo s = last s then 0
      else if carousel s \<and> v_reverse o' then limit s - step * real_of_int (animatingTo s)
      else if carousel s \<and> currentSlide s = last s then limit s
      else if carousel s then step * real_of_int (currentSlide s)
      else if v_reverse o' then real_of_int (last s - currentSlide s + cloneOffset s) * cwidth
      else real_of_int (currentSlide s + cloneOffset s) * cwidth)"

definition touchStart :: "nat \<Rightarrow> nat \<Rightarrow> nat \<Rightarrow> real \<Rightarrow> real \<Rightarrow> real \<Rightarrow> page \<Rightarrow> page js" where
  "touchStart n i touches pageX pageY now p =
     res_bind (getSlider p i) (\<lambda>s0.
     if animating s0 then Inr p
     else if touches = 1 then
       res_bind (pause n i p) (\<lambda>p1.
       res_bind (getSlider p1 i) (\<lambda>s.
       let vertical = v_vertical (opts s); cwidth = (if vertical then h s else w s) in
       Inr (putSlider i (s\<lparr>touchState := (touchState s)\<lparr>t_cwidth := cwidth, t_startT := now,
          t_offset := touchOffset s cwidth,
          t_startX := (if vertical then pageY else pageX),
          t_startY := (if vertical then pageX else pageY), t_listening := True\<rparr>\<rparr>) p1)))
     else Inr p)"

text \<open>\<open>Math.abs(dx)/cwidth + 2\<close> is \<open>Infinity\<close> for \<open>cwidth = 0\<close>, and \<open>dx/Infinity\<close> is 0.\<close>

definition damped :: "real \<Rightarrow> real \<Rightarrow> real" where
  "damped d cwidth = (if cwidth = 0 then 0 else d / (\<bar>d\<bar> / cwidth + 2))"

definition touchMove :: "real \<Rightarrow> real \<Rightarrow> real \<Rightarrow> slider \<Rightarrow> slider" where
  "touchMove pageX pageY now s =
     (let t = touchState s; vertical = v_vertical (opts s);
          d = t_startX t - (if vertical then pageY else pageX);
          scrolling = (\<bar>d\<bar> < \<bar>(if vertical then pageX else pageY) - t_startY t\<bar>);
          d2 = (if (\<not> scrolling \<or> now - t_startT t > 500) \<and> \<not> v_fade (opts s) \<and> transitions s
                    \<and> \<not> v_animationLoop (opts s)
                    \<and> (currentSlide s = 0 \<and> d < 0 \<or> currentSlide s = last s \<and> d > 0)
                then damped d (t_cwidth t) else d);
          s1 = s\<lparr>touchState := t\<lparr>t_scrolling := scrolling, t_dx := Dx d2\<rparr>\<rparr>
      in if (\<not> scrolling \<or> now - t_startT t > 500) \<and> \<not> v_fade (opts s) \<and> transitions s
         then setProps (t_offset t + d2) SetTouch s1 else s1)"

definition touchEnd :: "nat \<Rightarrow> nat \<Rightarrow> real \<Rightarrow> page \<Rightarrow> page js" where
  "touchEnd n i now p =
     res_bind (getSlider p i) (\<lambda>s.
     let t = touchState s in
     res_bind
       (if animatingTo s = currentSlide s \<and> \<not> t_scrolling t \<and> t_dx t \<noteq> DxNull then
          let updateDx = (case t_dx t of Dx d \<Rightarrow> Some (if v_reverse (opts s) then - d else d)
                | _ \<Rightarrow> None);
              far = (\<lambda>x. case updateDx of None \<Rightarrow> False | Some d \<Rightarrow> \<bar>d\<bar> > x);
              dir = (case updateDx of None \<Rightarrow> Prev | Some d \<Rightarrow> if d > 0 then Next else Prev);
              (target, s1) = getTarget dir s; p1 = putSlider i s1 p
          in if canAdvance s1 target False
                \<and> (now - t_startT t < 550 \<and> far 50 \<or> far (t_cwidth t / 2))
             then flexAnimate n i target (v_pauseOnAction (opts s)) False False False p1
             else if \<not> v_fade (opts s)
             then flexAnimate n i (currentSlide s1) (v_pauseOnAction (opts s)) True False False p1
             else Inr p1
        else Inr p) (\<lambda>p2.
     res_bind (getSlider p2 i) (\<lambda>s2.
     Inr (putSlider i (s2\<lparr>touchState := (touchState s2)\<lparr>t_dx := DxNull, t_listening := False\<rparr>\<rparr>) p2))))"

section \<open>Events\<close>

datatype slider_command = PlayCmd | PauseCmd | NextCmd | PrevCmd | GoTo int

datatype event =
    ClickDirection nat direction
  | ClickControl nat int
  | ClickThumb nat int
  | KeyUp nat int
  | MouseWheel nat int
  | HoverIn nat
  | HoverOut nat
  | ClickPausePlay nat
  | IntervalTick nat
  | TransitionEnd nat
  | InitDelay nat
  | SetupTimeout nat
  | WindowResize nat
  | TouchStart nat nat real real real
  | TouchMove nat real real real
  | TouchEnd nat real
  | Command nat slider_command

definition advance :: "nat \<Rightarrow> nat \<Rightarrow> direction \<Rightarrow> bool \<Rightarrow> page \<Rightarrow> page js" where
  "advance n i dir pauseIt p =
     res_bind (getSlider p i) (\<lambda>s.
     case getTarget dir s of (target, s1) \<Rightarrow>
       flexAnimate n i target pauseIt False False False (putSlider i s1 p))"

definition clickControl :: "nat \<Rightarrow> nat \<Rightarrow> int \<Rightarrow> page \<Rightarrow> page js" where
  "clickControl n i target p =
     res_bind (getSlider p i) (\<lambda>s.
     if controlActive s \<noteq> Some target then
       flexAnimate n i target (v_pauseOnAction (opts s)) False False False
         (putSlider i (s\<lparr>direction := Some (if target > currentSlide s then Next else Prev)\<rparr>) p)
     else Inr p)"

definition clickThumb :: "nat \<Rightarrow> nat \<Rightarrow> int \<Rightarrow> page \<Rightarrow> page js" where
  "clickThumb n i target p =
     res_bind (getSlider p i) (\<lambda>s.
     case v_asNavFor (opts s) of
       None \<Rightarrow> Inr p
     | Some m \<Rightarrow> res_bind (getSlider p m) (\<lambda>master.
         if \<not> animating master then
           flexAnimate n i target (v_pauseOnAction (opts s)) False True True
             (putSlider i (s\<lparr>direction := Some (turn target s)\<rparr>) p)
         else Inr p))"

definition clickPausePlay :: "nat \<Rightarrow> nat \<Rightarrow> page \<Rightarrow> page js" where
  "clickPausePlay n i p =
     res_bind (getSlider p i) (\<lambda>s.
     if pausePlay s = PauseButton
     then pause n i (putSlider i (s\<lparr>manualPause := True, manualPlay := False\<rparr>) p)
     else play n i (putSlider i (s\<lparr>manualPause := False, manualPlay := True\<rparr>) p))"

definition command :: "nat \<Rightarrow> nat \<Rightarrow> slider_command \<Rightarrow> page \<Rightarrow> page js" where
  "command n i c p =
     (case c of
        PlayCmd \<Rightarrow> play n i p
      | PauseCmd \<Rightarrow> pause n i p
      | NextCmd \<Rightarrow> advance n i Next True p
      | PrevCmd \<Rightarrow> advance n i Prev True p
      | GoTo k \<Rightarrow> flexAnimate n i k True False False False p)"

definition onSlider :: "nat \<Rightarrow> (slider \<Rightarrow> slider js) \<Rightarrow> page \<Rightarrow> page js" where
  "onSlider i f p = res_bind (getSlider p i) (\<lambda>s. res_bind (f s) (\<lambda>s'. Inr (putSlider i s' p)))"

fun handle :: "nat \<Rightarrow> event \<Rightarrow> page \<Rightarrow> page js" where
  "handle n (ClickDirection i dir) p = res_bind (getSlider p i) (\<lambda>s.
     if v_directionNav (opts s) then advance n i dir (v_pauseOnAction (opts s)) p else Inr p)"
| "handle n (ClickControl i k) p = res_bind (getSlider p i) (\<lambda>s.
     if v_controlNav (opts s) then clickControl n i k p else Inr p)"
| "handle n (ClickThumb i k) p = clickThumb n i k p"
| "handle n (KeyUp i keycode) p = res_bind (getSlider p i) (\<lambda>s.
     if v_keyboard (opts s) \<and> \<not> animating s \<and> (keycode = 39 \<or> keycode = 37)
     then advance n i (if keycode = 39 then Next else Prev) (v_pauseOnAction (opts s)) p
     else Inr p)"
| "handle n (MouseWheel i delta) p = res_bind (getSlider p i) (\<lambda>s.
     if v_mousewheel (opts s)
     then advance n i (if delta < 0 then Next else Prev) (v_pauseOnAction (opts s)) p
     else Inr p)"
| "handle n (HoverIn i) p = res_bind (getSlider p i) (\<lambda>s.
     if v_slideshow (opts s) \<and> v_pauseOnHover (opts s) \<and> \<not> manualPlay s \<and> \<not> manualPause s
     then pause n i p else Inr p)"
| "handle n (HoverOut i) p = res_bind (getSlider p i) (\<lambda>s.
     if v_slideshow (opts s) \<and> v_pauseOnHover (opts s) \<and> \<not> manualPause s \<and> \<not> manualPlay s
     then play n i p else Inr p)"
| "handle n (ClickPausePlay i) p = res_bind (getSlider p i) (\<lambda>s.
     if v_pausePlay (opts s) then clickPausePlay n i p else Inr p)"
| "handle n (IntervalTick t) p =
     (case map_of (timers p) t of None \<Rightarrow> Inr p | Some i \<Rightarrow> animateSlides n i p)"
| "handle n (TransitionEnd i) p = onSlider i (\<lambda>s. Inr (transitionEnd s)) p"
| "handle n (InitDelay i) p = res_bind (getSlider p i) (\<lambda>s.
     if playDue s then play n i (putSlider i (s\<lparr>playDue := False\<rparr>) p) else Inr p)"
| "handle n (SetupTimeout i) p = onSlider i setupTimeout p"
| "handle n (WindowResize i) p = onSlider i (\<lambda>s.
     if \<not> v_fade (opts s) \<or> v_smoothHeight (opts s) then resize n s else Inr s) p"
| "handle n (TouchStart i touches x y now) p = res_bind (getSlider p i) (\<lambda>s.
     if b_touch s \<and> v_touch (opts s) then touchStart n i touches x y now p else Inr p)"
| "handle n (TouchMove i x y now) p = onSlider i (\<lambda>s.
     Inr (if t_listening (touchState s) then touchMove x y now s else s)) p"
| "handle n (TouchEnd i now) p = res_bind (getSlider p i) (\<lambda>s.
     if t_listening (touchState s) then touchEnd n i now p else Inr p)"
| "handle n (Command i c) p = command n i c p"

fun handle_all :: "nat \<Rightarrow> event list \<Rightarrow> page \<Rightarrow> page js" where
  "handle_all n [] p = Inr p"
| "handle_all n (e # es) p = res_bind (handle n e p) (handle_all n es)"

end
