(* ===== verification/FlexSlider_Correct.thy ===== *)
theory FlexSlider_Correct
  imports FlexSlider_Page
begin

text \<open>
  What the slider keeps: an invariant of plain sliders (no carousel, no thumbnail
  navigation) over every event of a page on which synchronisation has no cycle, with the
  stack the handlers need.
\<close>

section \<open>Frames\<close>

lemma getSlider_Some [simp]: "sliders p i = Some s \<Longrightarrow> getSlider p i = Inr s"
  by (simp add: getSlider_def)

lemma sliders_putSlider [simp]: "sliders (putSlider i s p) = (sliders p)(i \<mapsto> s)"
  "timers (putSlider i s p) = timers p" "nextTimer (putSlider i s p) = nextTimer p"
  by (simp_all add: putSlider_def)

lemma putSlider_putSlider [simp]: "putSlider i s (putSlider i t p) = putSlider i s p"
  by (simp add: putSlider_def)

lemma sliders_clearInterval [simp]: "sliders (clearInterval t p) = sliders p"
  by (simp add: clearInterval_def split: option.split)

text \<open>The fields that the controls, the moves and the slideshow leave alone.\<close>

definition frame :: "slider \<Rightarrow> vars \<times> int \<times> int \<times> int \<times> bool" where
  "frame s = (opts s, count s, last s, pagingCount s, b_visible s)"

lemma frame_iff:
  "frame s' = frame s \<longleftrightarrow> opts s' = opts s \<and> count s' = count s \<and> last s' = last s \<and>
     pagingCount s' = pagingCount s \<and> b_visible s' = b_visible s"
  by (simp add: frame_def)

definition motion :: "slider \<Rightarrow> bool \<times> int \<times> int" where
  "motion s = (animating s, currentSlide s, animatingTo s)"

lemma motion_iff:
  "motion s' = motion s \<longleftrightarrow> animating s' = animating s \<and> currentSlide s' = currentSlide s \<and>
     animatingTo s' = animatingTo s"
  by (simp add: motion_def)

lemma smoothHeight_fields [simp]:
  "frame (smoothHeight s) = frame s" "motion (smoothHeight s) = motion s"
  by (simp_all add: smoothHeight_def frame_def motion_def split: option.split)

lemma whenSmooth_fields [simp]:
  "frame (whenSmooth s) = frame s" "motion (whenSmooth s) = motion s" "opts (whenSmooth s) = opts s"
  "animating (whenSmooth s) = animating s" "currentSlide (whenSmooth s) = currentSlide s"
  "animatingTo (whenSmooth s) = animatingTo s" "position (whenSmooth s) = position s"
  "wrapupBound (whenSmooth s) = wrapupBound s" "transitions (whenSmooth s) = transitions s"
  "count (whenSmooth s) = count s" "last (whenSmooth s) = last s" "playing (whenSmooth s) = playing s"
  "animatedSlides (whenSmooth s) = animatedSlides s" "pagingCount (whenSmooth s) = pagingCount s"
  "b_visible (whenSmooth s) = b_visible s" "carousel (whenSmooth s) = carousel s"
  by (simp_all add: whenSmooth_def smoothHeight_def frame_def motion_def carousel_def split: option.split)

lemma frameHeight_fields [simp]:
  "frame (s\<lparr>frameHeight := x\<rparr>) = frame s" "motion (s\<lparr>frameHeight := x\<rparr>) = motion s"
  by (simp_all add: frame_def motion_def)

lemma frame_ops [simp, slider_frame]:
  "frame (controlNav_active s) = frame s" "frame (directionNav_update s) = frame s"
  "frame (pausePlay_update st s) = frame s" "frame (setProps x sp s) = frame s"
  "frame (markTarget k s) = frame s" "frame (slideTo k s) = frame s" "frame (fadeTo k s) = frame s"
  "frame (wrapup d s) = frame s" "frame (transitionEnd s) = frame s"
  by (simp_all add: frame_def controlNav_active_def directionNav_update_def pausePlay_update_def
      setProps_def markTarget_def slideTo_def fadeTo_def wrapup_def transitionEnd_def Let_def
      split: option.split)

lemma motion_ops [simp, slider_frame]:
  "motion (controlNav_active s) = motion s" "motion (directionNav_update s) = motion s"
  "motion (pausePlay_update st s) = motion s" "motion (setProps x sp s) = motion s"
  "motion (markTarget k s) = motion s"
  by (simp_all add: motion_def controlNav_active_def directionNav_update_def pausePlay_update_def
      setProps_def markTarget_def Let_def)

section \<open>The invariant\<close>

definition slider_ok :: "slider \<Rightarrow> bool" where
  "slider_ok s \<longleftrightarrow> \<not> asNav s \<and> \<not> carousel s \<and> 1 \<le> count s \<and> last s = count s - 1 \<and>
     pagingCount s = count s \<and> 0 \<le> currentSlide s \<and> currentSlide s < count s \<and>
     0 \<le> animatingTo s \<and> animatingTo s < count s \<and>
     (\<not> animating s \<longrightarrow> animatingTo s = currentSlide s)"

lemma slider_ok_cong: "frame s' = frame s \<Longrightarrow> motion s' = motion s \<Longrightarrow> slider_ok s' = slider_ok s"
  by (simp add: slider_ok_def frame_iff motion_iff asNav_def carousel_def)

text \<open>
  A page: every slider satisfies it, a slider is synchronised only with one that exists,
  has as many slides, and is lower in the rank \<open>r\<close>, and every timer belongs to a slider.
\<close>

definition page_ok :: "(nat \<Rightarrow> nat) \<Rightarrow> page \<Rightarrow> bool" where
  "page_ok r p \<longleftrightarrow> (\<forall>i s. sliders p i = Some s \<longrightarrow> slider_ok s \<and>
     (\<forall>j. v_sync (opts s) = Some j \<longrightarrow>
        r j < r i \<and> (\<exists>t. sliders p j = Some t \<and> count t = count s))) \<and>
     snd ` set (timers p) \<subseteq> dom (sliders p)"

definition shape :: "page \<Rightarrow> nat \<Rightarrow> (vars \<times> int) option" where
  "shape p i = map_option (\<lambda>s. (opts s, count s)) (sliders p i)"

lemma shape_Some: "sliders p i = Some s \<Longrightarrow> shape p i = Some (opts s, count s)"
  by (simp add: shape_def)

lemma shape_SomeD:
  assumes "shape p' = shape p" "sliders p i = Some s"
  obtains s' where "sliders p' i = Some s'" "opts s' = opts s" "count s' = count s"
proof -
  have "shape p' i = Some (opts s, count s)" using assms shape_Some by simp
  then show ?thesis using that by (auto simp: shape_def)
qed

definition keeps :: "(nat \<Rightarrow> nat) \<Rightarrow> page \<Rightarrow> page \<Rightarrow> bool" where
  "keeps r p p' \<longleftrightarrow> page_ok r p' \<and> shape p' = shape p"

lemma keeps_refl: "page_ok r p \<Longrightarrow> keeps r p p"
  by (simp add: keeps_def)

lemma keeps_trans: "keeps r p q \<Longrightarrow> keeps r q q' \<Longrightarrow> keeps r p q'"
  by (simp add: keeps_def)

lemma keeps_ok: "keeps r p q \<Longrightarrow> page_ok r q"
  by (simp add: keeps_def)

lemma keeps_get:
  assumes "keeps r p q" "sliders p i = Some s"
  obtains s' where "sliders q i = Some s'" "slider_ok s'" "opts s' = opts s" "count s' = count s"
proof -
  obtain s' where "sliders q i = Some s'" "opts s' = opts s" "count s' = count s"
    using shape_SomeD [of q p i s] assms by (auto simp: keeps_def)
  then show ?thesis using that assms(1) by (auto simp: keeps_def page_ok_def)
qed

lemma keeps_put:
  assumes "page_ok r p" "sliders p i = Some s" "slider_ok s'" "opts s' = opts s" "count s' = count s"
    "sliders q = (sliders p)(i \<mapsto> s')" "snd ` set (timers q) \<subseteq> insert i (snd ` set (timers p))"
  shows "keeps r p q"
proof -
  have "shape q = shape p" using assms by (auto simp: shape_def fun_eq_iff)
  moreover have "snd ` set (timers q) \<subseteq> dom (sliders q)"
    using assms(1,2,5-) unfolding page_ok_def dom_def by force
  moreover have "page_ok r q" unfolding page_ok_def
  proof (intro conjI allI impI)
    fix k t
    assume k: "sliders q k = Some t"
    then obtain t0 where t0: "sliders p k = Some t0" "opts t = opts t0" "count t = count t0"
      using assms by (cases "k = i") auto
    moreover have "slider_ok t" using k assms by (cases "k = i") (auto simp: page_ok_def)
    moreover have "r j < r k \<and> (\<exists>u. sliders q j = Some u \<and> count u = count t)"
      if sync: "v_sync (opts t) = Some j" for j
    proof -
      obtain u where "r j < r k" "sliders p j = Some u" "count u = count t"
        using assms(1) t0 sync by (fastforce simp: page_ok_def)
      then show ?thesis using assms by (cases "j = i") auto
    qed
    ultimately show "slider_ok t" "\<And>j. v_sync (opts t) = Some j \<Longrightarrow> r j < r k"
        "\<And>j. v_sync (opts t) = Some j \<Longrightarrow> \<exists>u. sliders q j = Some u \<and> count u = count t"
      by blast+
  qed fact
  ultimately show ?thesis by (simp add: keeps_def)
qed

lemma keeps_put_frame:
  assumes "page_ok r p" "sliders p i = Some s" "frame s' = frame s" "motion s' = motion s"
    "sliders q = (sliders p)(i \<mapsto> s')" "snd ` set (timers q) \<subseteq> insert i (snd ` set (timers p))"
  shows "keeps r p q"
  using keeps_put [OF assms(1,2) _ _ _ assms(5,6)] slider_ok_cong [OF assms(3,4)] assms(1-3)
  by (auto simp: page_ok_def frame_iff)

lemma page_okD:
  assumes "page_ok r p" "sliders p i = Some s"
  shows "slider_ok s"
    and "v_sync (opts s) = Some j \<Longrightarrow> r j < r i"
    and "v_sync (opts s) = Some j \<Longrightarrow> \<exists>t. sliders p j = Some t \<and> count t = count s"
  using assms by (auto simp: page_ok_def)

section \<open>Pausing and playing\<close>

lemma pauseSelf_keeps:
  assumes "page_ok r p" "sliders p i = Some s"
  shows "keeps r p (pauseSelf i s p)"
  by (rule keeps_put_frame [OF assms, where s' = "if v_pausePlay (opts s)
      then pausePlay_update ''play'' (s\<lparr>playing := False\<rparr>) else s\<lparr>playing := False\<rparr>"])
    (auto simp: pauseSelf_def Let_def frame_def motion_def pausePlay_update_def
      clearInterval_def split: option.splits)

lemma playSelf_keeps:
  assumes "page_ok r p" "sliders p i = Some s"
  shows "keeps r p (playSelf i s p)"
  by (rule keeps_put_frame [OF assms, where s' = "if v_pausePlay (opts s)
      then pausePlay_update ''pause'' (s\<lparr>animatedSlides := Some (nextTimer p), playing := True\<rparr>)
      else s\<lparr>animatedSlides := Some (nextTimer p), playing := True\<rparr>"])
    (auto simp: playSelf_def setInterval_def Let_def frame_def motion_def pausePlay_update_def
      putSlider_def)

text \<open>What the handlers promise: they return, and keep the page.\<close>

definition ok_result :: "(nat \<Rightarrow> nat) \<Rightarrow> page \<Rightarrow> page js \<Rightarrow> bool" where
  "ok_result r p m \<longleftrightarrow> (\<exists>q. m = Inr q \<and> keeps r p q)"

lemma ok_resultI: "keeps r p q \<Longrightarrow> ok_result r p (Inr q)"
  by (simp add: ok_result_def)

lemma ok_bind:
  assumes "ok_result r p m" "\<And>q. keeps r p q \<Longrightarrow> ok_result r q (f q)"
  shows "ok_result r p (res_bind m f)"
  using assms keeps_trans by (fastforce simp: ok_result_def)

lemma ok_weaken: "keeps r p q \<Longrightarrow> ok_result r q m \<Longrightarrow> ok_result r p m"
  using keeps_trans by (fastforce simp: ok_result_def)

lemma pause_ok:
  assumes "page_ok r p" "sliders p i = Some s" "r i < n"
  shows "ok_result r p (pause n i p)"
  using assms
proof (induction n arbitrary: i p s)
  case (Suc n)
  note self = pauseSelf_keeps [OF Suc.prems(1,2)]
  show ?case
  proof (cases "v_sync (opts s)")
    case None
    with self Suc.prems show ?thesis by (simp add: ok_resultI)
  next
    case (Some j)
    obtain t where t: "sliders p j = Some t" "r j < r i" using page_okD Suc.prems Some by blast
    obtain t' where "sliders (pauseSelf i s p) j = Some t'" using keeps_get [OF self t(1)] .
    with Suc.IH [OF keeps_ok [OF self] this] t(2) Suc.prems(3)
    have "ok_result r (pauseSelf i s p) (pause n j (pauseSelf i s p))" by simp
    with ok_weaken [OF self] Some Suc.prems(2) show ?thesis by simp
  qed
qed simp

lemma play_ok:
  assumes "page_ok r p" "sliders p i = Some s" "r i < n"
  shows "ok_result r p (play n i p)"
  using assms
proof (induction n arbitrary: i p s)
  case (Suc n)
  note self = playSelf_keeps [OF Suc.prems(1,2)]
  show ?case
  proof (cases "v_sync (opts s)")
    case None
    with self Suc.prems show ?thesis by (simp add: ok_resultI)
  next
    case (Some j)
    obtain t where t: "sliders p j = Some t" "r j < r i" using page_okD Suc.prems Some by blast
    obtain t' where t': "sliders (playSelf i s p) j = Some t'" using keeps_get [OF self t(1)] .
    with Suc.IH [OF keeps_ok [OF self] t'] t(2) Suc.prems(3)
    have "ok_result r (playSelf i s p) (play n j (playSelf i s p))" by simp
    with ok_weaken [OF self] ok_resultI [OF self] Some Suc.prems(2) t' show ?thesis
      by (simp add: Let_def)
  qed
qed simp

section \<open>Animating\<close>

lemma motion_slideTo:
  "animatingTo (slideTo k s) = animatingTo s"
  "currentSlide (slideTo k s) = (if transitions s \<and> (\<not> v_animationLoop (opts s) \<or> \<not> atEnd s)
     then animatingTo s else currentSlide s)"
  "animating (slideTo k s) = (animating s \<and> \<not> (transitions s \<and>
     (\<not> v_animationLoop (opts s) \<or> \<not> atEnd s)))"
  by (auto simp: slideTo_def setProps_def Let_def)

lemma motion_fadeTo:
  "animatingTo (fadeTo k s) = animatingTo s"
  "currentSlide (fadeTo k s) = (if b_touch s then animatingTo s else currentSlide s)"
  "animating (fadeTo k s) = (animating s \<and> \<not> b_touch s)"
  by (auto simp: fadeTo_def Let_def)

lemma slider_ok_settle:
  assumes "slider_ok s" "frame s' = frame s" "animatingTo s' = animatingTo s"
    "currentSlide s' = currentSlide s \<and> animating s' = animating s
      \<or> currentSlide s' = animatingTo s \<and> \<not> animating s'"
  shows "slider_ok s'"
  using assms unfolding slider_ok_def asNav_def carousel_def frame_iff by auto

lemma frame_moveTo [simp, slider_frame]: "frame (moveTo k s) = frame s"
  by (simp add: moveTo_def)

lemma move_ok: "slider_ok s \<Longrightarrow> slider_ok (moveTo k s)"
  by (rule slider_ok_settle [of s]) (auto simp: moveTo_def motion_slideTo motion_fadeTo)

text \<open>The two calls that may leave the slider: both keep the page.\<close>

definition ok_calls :: "(nat \<Rightarrow> nat) \<Rightarrow> nat \<Rightarrow> (nat \<Rightarrow> page \<Rightarrow> page js) \<Rightarrow> animate_fn \<Rightarrow> bool" where
  "ok_calls r i pauseF again \<longleftrightarrow>
     (\<forall>p s. page_ok r p \<longrightarrow> sliders p i = Some s \<longrightarrow> ok_result r p (pauseF i p)) \<and>
     (\<forall>p j s k b. page_ok r p \<longrightarrow> r j < r i \<longrightarrow> sliders p j = Some s \<longrightarrow> 0 \<le> k \<longrightarrow> k < count s \<longrightarrow>
        ok_result r p (again j k b False True False p))"

lemma ok_refl: "page_ok r p \<Longrightarrow> ok_result r p (Inr p)"
  by (simp add: ok_resultI keeps_refl)

lemma ok_get:
  assumes "sliders p i = Some s" "ok_result r p (f s)"
  shows "ok_result r p (res_bind (getSlider p i) f)"
  using assms by simp

lemma syncAnimate_ok:
  assumes calls: "ok_calls r i pauseF again" and p: "page_ok r p" "sliders p i = Some s"
  shows "ok_result r p (syncAnimate again i False p)"
  unfolding syncAnimate_def
proof (rule ok_get [OF p(2)], cases "v_sync (opts s)")
  case None
  then show "ok_result r p (case v_sync (opts s) of None \<Rightarrow> Inr p | Some j \<Rightarrow> if False then Inr p
      else again j (animatingTo s) (v_pauseOnAction (opts s)) False True False p)"
    by (simp add: ok_refl p)
next
  case (Some j)
  obtain t where t: "sliders p j = Some t" "count t = count s"
    using page_okD(3) [OF p Some] by blast
  have "0 \<le> animatingTo s" "animatingTo s < count t"
    using page_okD(1) [OF p] t(2) by (simp_all add: slider_ok_def)
  then show "ok_result r p (case v_sync (opts s) of None \<Rightarrow> Inr p | Some j \<Rightarrow> if False then Inr p
      else again j (animatingTo s) (v_pauseOnAction (opts s)) False True False p)"
    using Some calls p(1) page_okD(2) [OF p Some] t(1) by (auto simp: ok_calls_def)
qed

lemma ok_if: "ok_result r p m \<Longrightarrow> ok_result r p m' \<Longrightarrow> ok_result r p (if b then m else m')"
  by simp

lemma finishAnimate_ok:
  assumes calls: "ok_calls r i pauseF again" and p: "page_ok r p" "sliders p i = Some s"
  shows "ok_result r p (finishAnimate pauseF i k p)"
proof -
  let ?s = "markTarget k s" let ?p = "putSlider i (markTarget k s) p"
  have k1: "keeps r p ?p"
    by (rule keeps_put_frame [OF p, where s' = ?s]) auto
  have s1: "sliders ?p i = Some ?s" by simp
  have "ok_result r ?p (pauseF i ?p)"
    using calls keeps_ok [OF k1] s1 unfolding ok_calls_def by blast
  then have 1: "ok_result r ?p
      (if k = last ?s \<and> \<not> v_animationLoop (opts ?s) then pauseF i ?p else Inr ?p)"
    by (rule ok_if) (rule ok_refl [OF keeps_ok [OF k1]])
  have 2: "ok_result r q (res_bind (getSlider q i) (\<lambda>s2. Inr (putSlider i (moveTo k s2) q)))"
    if q: "keeps r ?p q" for q
  proof -
    obtain t where t: "sliders q i = Some t" "slider_ok t" using keeps_get [OF q s1] .
    have "keeps r q (putSlider i (moveTo k t) q)"
      by (rule keeps_put [OF keeps_ok [OF q] t(1) move_ok [OF t(2), of k]])
        (auto simp: frame_moveTo [unfolded frame_iff])
    then show ?thesis using t(1) by (simp add: ok_resultI)
  qed
  have "ok_result r ?p (res_bind
      (if k = last ?s \<and> \<not> v_animationLoop (opts ?s) then pauseF i ?p else Inr ?p)
      (\<lambda>q. res_bind (getSlider q i) (\<lambda>s2. Inr (putSlider i (moveTo k s2) q))))"
    using 1 2 by (rule ok_bind)
  from ok_weaken [OF k1 this] p(2) show ?thesis by (simp add: finishAnimate_def Let_def)
qed

lemma announce_keeps:
  assumes p: "page_ok r p" "sliders p i = Some s" and k: "0 \<le> k" "k < count s"
  shows "keeps r p (putSlider i (s\<lparr>animating := True, animatingTo := k, callbacks := cs\<rparr>) p)"
proof (rule keeps_put [OF p])
  show "slider_ok (s\<lparr>animating := True, animatingTo := k, callbacks := cs\<rparr>)"
    using page_okD(1) [OF p] k by (auto simp: slider_ok_def asNav_def carousel_def)
qed auto

lemma animate_ok:
  assumes calls: "ok_calls r i pauseF again"
    and p: "page_ok r p" "sliders p i = Some s" and k: "0 \<le> k" "k < count s"
  shows "ok_result r p (animate pauseF again i k pauseIt False p)"
proof -
  define q where "q = putSlider i (s\<lparr>animating := True, animatingTo := k,
      callbacks := callbacks s @ [Before]\<rparr>) p"
  have q: "keeps r p q" unfolding q_def by (rule announce_keeps [OF p k])
  obtain t where t: "sliders q i = Some t" using keeps_get [OF q p(2)] .
  have "ok_result r q (pauseF i q)"
    using calls keeps_ok [OF q] t unfolding ok_calls_def by blast
  then have 1: "ok_result r q (if pauseIt then pauseF i q else Inr q)"
    by (rule ok_if) (rule ok_refl [OF keeps_ok [OF q]])
  have 2: "ok_result r u (res_bind (syncAnimate again i False u) (finishAnimate pauseF i k))"
    if u: "keeps r q u" for u
  proof (rule ok_bind)
    obtain u' where u': "sliders u i = Some u'" using keeps_get [OF u t] .
    show "ok_result r u (syncAnimate again i False u)"
      by (rule syncAnimate_ok [OF calls keeps_ok [OF u] u'])
    show "ok_result r v (finishAnimate pauseF i k v)" if v: "keeps r u v" for v
    proof -
      obtain v' where "sliders v i = Some v'" using keeps_get [OF v u'] .
      then show ?thesis by (rule finishAnimate_ok [OF calls keeps_ok [OF v]])
    qed
  qed
  have "ok_result r q (res_bind (if pauseIt then pauseF i q else Inr q)
      (\<lambda>u. res_bind (syncAnimate again i False u) (finishAnimate pauseF i k)))"
    using 1 2 by (rule ok_bind)
  moreover have "animate pauseF again i k pauseIt False p = res_bind
      (if pauseIt then pauseF i q else Inr q)
      (\<lambda>u. res_bind (syncAnimate again i False u) (finishAnimate pauseF i k))"
    using p(2) by (simp add: animate_def q_def Let_def)
  ultimately show ?thesis using ok_weaken [OF q] by simp
qed

lemma flexAnimate_ok:
  assumes "page_ok r p" "sliders p i = Some s" "r i + 1 < n" "0 \<le> k" "k < count s"
  shows "ok_result r p (flexAnimate n i k pauseIt override withSync False p)"
  using assms
proof (induction n arbitrary: i p s k pauseIt override withSync)
  case (Suc n)
  have calls: "ok_calls r i (pause n) (flexAnimate n)"
    unfolding ok_calls_def
  proof (intro conjI allI impI)
    fix p' s' assume "page_ok r p'" "sliders p' i = Some s'"
    then show "ok_result r p' (pause n i p')" using pause_ok Suc.prems(3) by simp
  next
    fix p' j s' k' b
    assume "page_ok r p'" "r j < r i" "sliders p' j = Some s'" "0 \<le> k'" "k' < count s'"
    then show "ok_result r p' (flexAnimate n j k' b False True False p')"
      using Suc.IH Suc.prems(3) by simp
  qed
  have ok: "slider_ok s" using page_okD(1) Suc.prems(1,2) .
  then have nav: "v_asNavFor (opts s) = None" "\<not> asNav s" by (simp_all add: slider_ok_def asNav_def)
  have k1: "keeps r p (putSlider i s p)"
    by (rule keeps_put_frame [OF Suc.prems(1,2), where s' = s]) auto
  have "ok_result r (putSlider i s p)
      (animate (pause n) (flexAnimate n) i k pauseIt False (putSlider i s p))"
    by (rule animate_ok [OF calls keeps_ok [OF k1]]) (use Suc.prems in simp_all)
  with ok_weaken [OF k1 this] ok_resultI [OF k1] nav Suc.prems(2) show ?case
    by (simp add: Let_def)
qed simp

lemma target_in_range:
  assumes "slider_ok s"
  shows "0 \<le> target_of dir s \<and> target_of dir s < count s"
  using assms by (auto simp: target_of_def slider_ok_def)

lemma direction_keeps:
  assumes "page_ok r p" "sliders p i = Some s"
  shows "keeps r p (putSlider i (s\<lparr>direction := d\<rparr>) p)"
  by (rule keeps_put_frame [OF assms, where s' = "s\<lparr>direction := d\<rparr>"])
    (auto simp: frame_def motion_def)

lemma advance_ok:
  assumes p: "page_ok r p" "sliders p i = Some s" and n: "r i + 1 < n"
  shows "ok_result r p (advance n i dir pauseIt p)"
proof -
  let ?q = "putSlider i (s\<lparr>direction := Some dir\<rparr>) p"
  have "ok_result r ?q (flexAnimate n i (target_of dir s) pauseIt False False False ?q)"
    using flexAnimate_ok [OF keeps_ok [OF direction_keeps [OF p]] _ n] p
      target_in_range [OF page_okD(1) [OF p]] by simp
  from ok_weaken [OF direction_keeps [OF p] this] show ?thesis
    using p(2) by (simp add: advance_def getTarget_def)
qed

lemma animateSlides_ok:
  assumes "page_ok r p" "sliders p i = Some s" "r i + 1 < n"
  shows "ok_result r p (animateSlides n i p)"
proof -
  have "animateSlides n i p = (if animating s then Inr p else advance n i Next False p)"
    using assms(2) by (simp add: animateSlides_def advance_def getTarget_def)
  then show ?thesis using advance_ok [OF assms] ok_refl [OF assms(1)] by simp
qed

end
