(* ===== verification/FlexSlider_Events.thy ===== *)
theory FlexSlider_Events
  imports FlexSlider_Correct
begin

text \<open>
  Every event of a page of plain sliders is handled: the handlers return when the stack is
  deeper than the longest chain of synchronised sliders, and keep the invariant.
\<close>

section \<open>Local operations\<close>

definition measured :: "slider \<Rightarrow> slider" where
  "measured s = s\<lparr>w := b_width s, h := b_slideHeight s, boxPadding := b_padding s,
     itemW := b_width s, pagingCount := count s, last := count s - 1,
     computedW := b_width s - b_padding s\<rparr>"

lemma doMath_plain: "\<not> carousel s \<Longrightarrow> doMath s = Inr (measured s)"
  by (simp add: doMath_def measured_def carousel_def Let_def)

lemma measured_ok: "slider_ok s \<Longrightarrow> frame (measured s) = frame s \<and> motion (measured s) = motion s"
  by (simp add: frame_def motion_def measured_def slider_ok_def)

lemma carousel_measured [simp]: "carousel (measured s) = carousel s" "opts (measured s) = opts s"
  by (simp_all add: measured_def carousel_def)

definition local_ok :: "(slider \<Rightarrow> slider js) \<Rightarrow> bool" where
  "local_ok f \<longleftrightarrow> (\<forall>s. slider_ok s \<longrightarrow> (\<exists>s'. f s = Inr s' \<and> slider_ok s' \<and>
     opts s' = opts s \<and> count s' = count s))"

lemma local_okI:
  assumes "\<And>s. slider_ok s \<Longrightarrow> \<exists>s'. f s = Inr s' \<and> frame s' = frame s \<and> motion s' = motion s"
  shows "local_ok f"
  unfolding local_ok_def using assms slider_ok_cong by (metis frame_iff)

lemma onSlider_ok:
  assumes "page_ok r p" "sliders p i = Some s" "local_ok f"
  shows "ok_result r p (onSlider i f p)"
proof -
  obtain s' where s': "f s = Inr s'" "slider_ok s'" "opts s' = opts s" "count s' = count s"
    using assms page_okD(1) by (fastforce simp: local_ok_def)
  have "keeps r p (putSlider i s' p)"
    by (rule keeps_put [OF assms(1,2) s'(2-4)]) auto
  then show ?thesis using s'(1) assms(2) by (simp add: onSlider_def ok_resultI)
qed

lemma motion_wrapup:
  "animatingTo (wrapup d s) = animatingTo s" "currentSlide (wrapup d s) = animatingTo s"
  "animating (wrapup d s) = False"
  by (simp_all add: wrapup_def setProps_def Let_def)

lemma frame_bound [simp]: "frame (s\<lparr>wrapupBound := x\<rparr>) = frame s"
  by (simp add: frame_def)

lemma transitionEnd_local: "local_ok (\<lambda>s. Inr (transitionEnd s))"
  unfolding local_ok_def
proof (intro allI impI exI conjI, rule refl)
  fix s assume s: "slider_ok s"
  show "slider_ok (transitionEnd s)"
    by (rule slider_ok_settle [OF s])
      (auto simp: transitionEnd_def motion_wrapup frame_ops split: option.split)
qed (simp_all add: frame_ops(9) [unfolded frame_iff])

lemma plain: "slider_ok s \<Longrightarrow> \<not> carousel s"
  by (simp add: slider_ok_def)

lemma frame_due [simp]: "frame (s\<lparr>setupDue := x\<rparr>) = frame s" "motion (s\<lparr>setupDue := x\<rparr>) = motion s"
  "carousel (s\<lparr>setupDue := x\<rparr>) = carousel s"
  by (simp_all add: frame_def motion_def carousel_def)

lemma setupTimeout_local: "local_ok setupTimeout"
proof (rule local_okI)
  fix s assume s: "slider_ok s"
  have "slider_ok (s\<lparr>setupDue := due\<rparr>)" for due using slider_ok_cong [of _ s] s by simp
  then show "\<exists>s'. setupTimeout s = Inr s' \<and> frame s' = frame s \<and> motion s' = motion s"
    using plain [OF s] measured_ok
    by (cases "setupDue s") (auto simp: setupTimeout_def doMath_plain)
qed

lemma resize_local:
  "local_ok (\<lambda>s. if \<not> v_fade (opts s) \<or> v_smoothHeight (opts s) then resize n s else Inr s)"
proof (rule local_okI)
  fix s assume s: "slider_ok s"
  show "\<exists>s'. (if \<not> v_fade (opts s) \<or> v_smoothHeight (opts s) then resize n s else Inr s) = Inr s' \<and>
      frame s' = frame s \<and> motion s' = motion s"
    using plain [OF s] measured_ok [OF s] by (auto simp: resize_def doMath_plain)
qed

lemma frame_touch [simp]:
  "frame (s\<lparr>touchState := x\<rparr>) = frame s" "motion (s\<lparr>touchState := x\<rparr>) = motion s"
  by (simp_all add: frame_def motion_def)

lemma touchMove_local:
  "local_ok (\<lambda>s. Inr (if t_listening (touchState s) then touchMove x y now s else s))"
  by (rule local_okI) (simp add: touchMove_def Let_def)

section \<open>The handlers\<close>

lemma touchStart_ok:
  assumes p: "page_ok r p" "sliders p i = Some s" and n: "r i < n"
  shows "ok_result r p (touchStart n i touches x y now p)"
proof -
  have "ok_result r p (res_bind (pause n i p) (\<lambda>p1. res_bind (getSlider p1 i) (\<lambda>s.
       let vertical = v_vertical (opts s); cwidth = (if vertical then h s else w s) in
       Inr (putSlider i (s\<lparr>touchState := (touchState s)\<lparr>t_cwidth := cwidth, t_startT := now,
          t_offset := touchOffset s cwidth,
          t_startX := (if vertical then y else x),
          t_startY := (if vertical then x else y), t_listening := True\<rparr>\<rparr>) p1))))"
  proof (rule ok_bind [OF pause_ok [OF p n]])
    fix q assume q: "keeps r p q"
    obtain t where t: "sliders q i = Some t" using keeps_get [OF q p(2)] .
    have "keeps r q (putSlider i (t\<lparr>touchState := z\<rparr>) q)" for z
      by (rule keeps_put_frame [OF keeps_ok [OF q] t, of "t\<lparr>touchState := z\<rparr>"]) auto
    then show "ok_result r q (res_bind (getSlider q i) (\<lambda>s.
       let vertical = v_vertical (opts s); cwidth = (if vertical then h s else w s) in
       Inr (putSlider i (s\<lparr>touchState := (touchState s)\<lparr>t_cwidth := cwidth, t_startT := now,
          t_offset := touchOffset s cwidth,
          t_startX := (if vertical then y else x),
          t_startY := (if vertical then x else y), t_listening := True\<rparr>\<rparr>) q)))"
      using t by (simp add: Let_def ok_resultI)
  qed
  then show ?thesis using p ok_refl [OF p(1)] by (simp add: touchStart_def)
qed

lemma touchEnd_ok:
  assumes p: "page_ok r p" "sliders p i = Some s" and n: "r i + 1 < n"
  shows "ok_result r p (touchEnd n i now p)"
proof -
  have fin: "ok_result r q (res_bind (getSlider q i) (\<lambda>s2.
     Inr (putSlider i (s2\<lparr>touchState := (touchState s2)\<lparr>t_dx := DxNull, t_listening := False\<rparr>\<rparr>) q)))"
    if q: "keeps r p q" for q
  proof -
    obtain t where t: "sliders q i = Some t" using keeps_get [OF q p(2)] .
    have "keeps r q (putSlider i (t\<lparr>touchState := z\<rparr>) q)" for z
      by (rule keeps_put_frame [OF keeps_ok [OF q] t, of "t\<lparr>touchState := z\<rparr>"]) auto
    then show ?thesis using t by (simp add: ok_resultI)
  qed
  have go: "ok_result r p
      (flexAnimate n i k b o' False False (putSlider i (s\<lparr>direction := Some dir\<rparr>) p))"
    if "0 \<le> k" "k < count s" for dir k b o'
    using ok_weaken [OF direction_keeps [OF p]
        flexAnimate_ok [OF keeps_ok [OF direction_keeps [OF p]] _ n that(1)]] that(2) by simp
  have cur: "0 \<le> currentSlide s" "currentSlide s < count s"
    using page_okD(1) [OF p] by (simp_all add: slider_ok_def)
  note tgt = target_in_range [OF page_okD(1) [OF p]]
  show ?thesis unfolding touchEnd_def getTarget_def Let_def prod.case
    by (rule ok_get [OF p(2)], rule ok_bind [OF _ fin],
        intro ok_if go ok_refl [OF p(1)] ok_resultI [OF direction_keeps [OF p]])
      (use tgt cur in simp_all)
qed

lemma clickControl_ok:
  assumes p: "page_ok r p" "sliders p i = Some s" and n: "r i + 1 < n" and k: "0 \<le> k" "k < count s"
  shows "ok_result r p (clickControl n i k p)"
proof -
  have "ok_result r p (flexAnimate n i k b False False False
      (putSlider i (s\<lparr>direction := d\<rparr>) p))" for b d
    using ok_weaken [OF direction_keeps [OF p] flexAnimate_ok [OF keeps_ok [OF direction_keeps [OF p]]
        _ n k(1)]] k(2) by simp
  then show ?thesis using p ok_refl [OF p(1)] by (simp add: clickControl_def)
qed

lemma clickPausePlay_ok:
  assumes p: "page_ok r p" "sliders p i = Some s" and n: "r i < n"
  shows "ok_result r p (clickPausePlay n i p)"
proof -
  have m: "keeps r p (putSlider i (s\<lparr>manualPause := a, manualPlay := b\<rparr>) p)" for a b
    by (rule keeps_put_frame [OF p, of "s\<lparr>manualPause := a, manualPlay := b\<rparr>"])
      (auto simp: frame_def motion_def)
  have "ok_result r p (pause n i (putSlider i (s\<lparr>manualPause := a, manualPlay := b\<rparr>) p))"
    "ok_result r p (play n i (putSlider i (s\<lparr>manualPause := a, manualPlay := b\<rparr>) p))" for a b
    using ok_weaken [OF m pause_ok [OF keeps_ok [OF m] _ n]]
      ok_weaken [OF m play_ok [OF keeps_ok [OF m] _ n]] by simp_all
  then show ?thesis using p by (simp add: clickPausePlay_def)
qed

text \<open>
  The events of the invariant: each names a slider of the page, and a control or a \<open>GoTo\<close>
  one of its slides. Thumbnail clicks belong to thumbnail navigation, which is not plain.
\<close>

fun legal_event :: "(nat \<Rightarrow> (vars \<times> int) option) \<Rightarrow> event \<Rightarrow> bool" where
  "legal_event sh (ClickDirection i _) = (sh i \<noteq> None)"
| "legal_event sh (ClickControl i k) = (\<exists>o' c. sh i = Some (o', c) \<and> 0 \<le> k \<and> k < c)"
| "legal_event sh (ClickThumb i _) = False"
| "legal_event sh (KeyUp i _) = (sh i \<noteq> None)"
| "legal_event sh (MouseWheel i _) = (sh i \<noteq> None)"
| "legal_event sh (HoverIn i) = (sh i \<noteq> None)"
| "legal_event sh (HoverOut i) = (sh i \<noteq> None)"
| "legal_event sh (ClickPausePlay i) = (sh i \<noteq> None)"
| "legal_event sh (IntervalTick _) = True"
| "legal_event sh (TransitionEnd i) = (sh i \<noteq> None)"
| "legal_event sh (InitDelay i) = (sh i \<noteq> None)"
| "legal_event sh (SetupTimeout i) = (sh i \<noteq> None)"
| "legal_event sh (WindowResize i) = (sh i \<noteq> None)"
| "legal_event sh (TouchStart i _ _ _ _) = (sh i \<noteq> None)"
| "legal_event sh (TouchMove i _ _ _) = (sh i \<noteq> None)"
| "legal_event sh (TouchEnd i _) = (sh i \<noteq> None)"
| "legal_event sh (Command i (GoTo k)) = (\<exists>o' c. sh i = Some (o', c) \<and> 0 \<le> k \<and> k < c)"
| "legal_event sh (Command i _) = (sh i \<noteq> None)"

lemma shape_ex: "shape p i \<noteq> None \<longleftrightarrow> (\<exists>s. sliders p i = Some s)"
  "shape p i = Some (o', c) \<longleftrightarrow> (\<exists>s. sliders p i = Some s \<and> opts s = o' \<and> count s = c)"
  by (auto simp: shape_def)

lemma pause_play_ok:
  assumes "page_ok r p" "sliders p i = Some s" "r i + 1 < n"
  shows "ok_result r p (pause n i p)" "ok_result r p (play n i p)"
  using pause_ok play_ok assms by simp_all

lemma command_ok:
  assumes p: "page_ok r p" and n: "\<forall>i. r i + 1 < n" and l: "legal_event (shape p) (Command i c)"
  shows "ok_result r p (command n i c p)"
proof (cases "\<exists>k. c = GoTo k")
  case True
  then obtain k where k: "c = GoTo k" by blast
  with l obtain s where "sliders p i = Some s" "0 \<le> k" "k < count s" by (auto simp: shape_ex)
  with k show ?thesis using flexAnimate_ok [OF p] n by (simp add: command_def)
next
  case False
  with l obtain s where s: "sliders p i = Some s" by (cases c) (auto simp: shape_ex)
  have "r i + 1 < n" using n by simp
  with s show ?thesis using False pause_play_ok [OF p s] advance_ok [OF p s]
    by (cases c) (simp_all add: command_def)
qed

lemma handle_tick_ok:
  assumes p: "page_ok r p" and n: "\<forall>i. r i + 1 < n"
  shows "ok_result r p (handle n (IntervalTick t) p)"
proof (cases "map_of (timers p) t")
  case (Some i)
  then have "i \<in> dom (sliders p)" using p map_of_SomeD [OF Some] by (force simp: page_ok_def)
  then show ?thesis using Some animateSlides_ok [OF p] n by auto
qed (simp add: ok_refl p)

lemma handle_delay_ok:
  assumes p: "page_ok r p" and n: "\<forall>i. r i + 1 < n" and s: "sliders p i = Some s"
  shows "ok_result r p (handle n (InitDelay i) p)"
proof -
  let ?q = "putSlider i (s\<lparr>playDue := False\<rparr>) p"
  have q: "keeps r p ?q"
    by (rule keeps_put_frame [OF p s, of "s\<lparr>playDue := False\<rparr>"]) (auto simp: frame_def motion_def)
  have "sliders ?q i = Some (s\<lparr>playDue := False\<rparr>)" "r i + 1 < n" using n by simp_all
  from ok_weaken [OF q pause_play_ok(2) [OF keeps_ok [OF q] this]]
  show ?thesis using s ok_refl [OF p] by simp
qed

text \<open>The events that change one slider only, those of the keyboard and the mouse, and touches.\<close>

lemma handle_local_ok:
  assumes "page_ok r p" "sliders p i = Some s"
  shows "ok_result r p (handle n (TransitionEnd i) p)" "ok_result r p (handle n (SetupTimeout i) p)"
    "ok_result r p (handle n (WindowResize i) p)" "ok_result r p (handle n (TouchMove i x y now) p)"
  using onSlider_ok [OF assms transitionEnd_local] onSlider_ok [OF assms setupTimeout_local]
    onSlider_ok [OF assms resize_local] onSlider_ok [OF assms touchMove_local] by simp_all

lemma handle_input_ok:
  assumes p: "page_ok r p" and n: "\<forall>i. r i + 1 < n" and s: "sliders p i = Some s"
  shows "ok_result r p (handle n (ClickDirection i d) p)" "ok_result r p (handle n (KeyUp i key) p)"
    "ok_result r p (handle n (MouseWheel i delta) p)"
    "ok_result r p (handle n (HoverIn i) p)" "ok_result r p (handle n (HoverOut i) p)"
    "ok_result r p (handle n (ClickPausePlay i) p)"
  using n s ok_refl [OF p] advance_ok [OF p s] pause_play_ok [OF p s] clickPausePlay_ok [OF p s]
  by (simp_all add: Suc_lessD)

lemma handle_touch_ok:
  assumes p: "page_ok r p" and n: "\<forall>i. r i + 1 < n" and s: "sliders p i = Some s"
  shows "ok_result r p (handle n (TouchStart i k x y now) p)" "ok_result r p (handle n (TouchEnd i now) p)"
  using n s ok_refl [OF p] touchStart_ok [OF p s] touchEnd_ok [OF p s] by (simp_all add: Suc_lessD)

lemma handle_ok:
  assumes p: "page_ok r p" and n: "\<forall>i. r i + 1 < n" and l: "legal_event (shape p) e"
  shows "ok_result r p (handle n e p)"
proof (cases e)
  case (ClickControl i k)
  with l obtain s where "sliders p i = Some s" "0 \<le> k" "k < count s" by (auto simp: shape_ex)
  then show ?thesis using ClickControl clickControl_ok [OF p] n ok_refl [OF p] by simp
next
  case (Command i c)
  then show ?thesis using command_ok [OF p n] l by simp
qed (use l handle_tick_ok [OF p n] handle_delay_ok [OF p n] handle_local_ok [OF p]
    handle_input_ok [OF p n] handle_touch_ok [OF p n] in \<open>auto simp: shape_ex simp del: handle.simps\<close>)

lemma handle_all_ok:
  assumes "page_ok r p" "\<forall>i. r i + 1 < n" "\<forall>e \<in> set es. legal_event (shape p) e"
  shows "ok_result r p (handle_all n es p)"
  using assms
proof (induction es arbitrary: p)
  case (Cons e es)
  have "ok_result r p (handle n e p)" using handle_ok Cons.prems by simp
  then have "ok_result r p (res_bind (handle n e p) (handle_all n es))"
    by (rule ok_bind) (use Cons in \<open>simp add: keeps_def\<close>)
  then show ?case by simp
qed (simp add: ok_refl)

end
