(* ===== verification/FlexSlider_Alone.thy ===== *)
theory FlexSlider_Alone
  imports FlexSlider_Events
begin

text \<open>
  A slider that is not synchronised: \<open>flexAnimate\<close> as one equation, where the container
  lands, and the rounds of the slideshow.
\<close>

section \<open>One animation\<close>

definition quiet :: "slider \<Rightarrow> slider" where
  "quiet s = (if v_pausePlay (opts s) then pausePlay_update ''play'' (s\<lparr>playing := False\<rparr>)
     else s\<lparr>playing := False\<rparr>)"

lemma pauseSelf_eq: "pauseSelf i s p = putSlider i (quiet s) (clearInterval (animatedSlides s) p)"
  by (simp add: pauseSelf_def quiet_def)

definition geo where
  "geo s = (cloneOffset s, transitions s, computedW s, b_slideHeight s, direction s, b_touch s,
     animatedSlides s)"

lemma quiet_simps [simp]:
  "frame (quiet s) = frame s" "motion (quiet s) = motion s" "geo (quiet s) = geo s"
  "atEnd (quiet s) = atEnd s" "playing (quiet s) = False" "opts (quiet s) = opts s"
  "animatedSlides (quiet s) = animatedSlides s" "last (quiet s) = last s"
  by (simp_all add: quiet_def frame_def motion_def geo_def pausePlay_update_def)

lemma markTarget_simps [simp]:
  "geo (markTarget k s) = geo s" "playing (markTarget k s) = playing s"
  "atEnd (markTarget k s) = (k = 0 \<or> k = last s)" "opts (markTarget k s) = opts s"
  "animatedSlides (markTarget k s) = animatedSlides s" "last (markTarget k s) = last s"
  by (simp_all add: markTarget_def geo_def controlNav_active_def directionNav_update_def Let_def)

definition announced :: "int \<Rightarrow> slider \<Rightarrow> slider" where
  "announced k s = s\<lparr>animating := True, animatingTo := k, callbacks := callbacks s @ [Before]\<rparr>"

lemma announced_simps [simp]:
  "frame (announced k s) = frame s" "motion (announced k s) = (True, currentSlide s, k)"
  "geo (announced k s) = geo s" "playing (announced k s) = playing s"
  "opts (announced k s) = opts s" "animatedSlides (announced k s) = animatedSlides s"
  "last (announced k s) = last s"
  by (simp_all add: announced_def frame_def motion_def geo_def)

definition stops :: "int \<Rightarrow> slider \<Rightarrow> bool" where
  "stops k s \<longleftrightarrow> k = last s \<and> \<not> v_animationLoop (opts s)"

definition prepared :: "int \<Rightarrow> bool \<Rightarrow> slider \<Rightarrow> slider" where
  "prepared k pauseIt s =
     (let s1 = (if pauseIt then quiet (announced k s) else announced k s); s2 = markTarget k s1
      in if stops k s then quiet s2 else s2)"

lemma prepared_simps [simp]:
  "frame (prepared k b s) = frame s" "motion (prepared k b s) = (True, currentSlide s, k)"
  "geo (prepared k b s) = geo s" "opts (prepared k b s) = opts s"
  "atEnd (prepared k b s) = (k = 0 \<or> k = last s)"
  "playing (prepared k b s) = (playing s \<and> \<not> b \<and> \<not> stops k s)"
  by (simp_all add: prepared_def Let_def)

definition alone :: "nat \<Rightarrow> page \<Rightarrow> slider \<Rightarrow> bool" where
  "alone i p s \<longleftrightarrow> sliders p i = Some s \<and> slider_ok s \<and> v_sync (opts s) = None \<and> b_visible s
     \<and> \<not> animating s"

lemma pause_alone:
  "sliders p i = Some s \<Longrightarrow> v_sync (opts s) = None \<Longrightarrow> pause (Suc n) i p = Inr (pauseSelf i s p)"
  by simp

lemma timers_clearInterval:
  "timers (clearInterval t p) = filter (\<lambda>(t', _). Some t' \<noteq> t) (timers p)"
  by (cases t) (auto simp: clearInterval_def intro!: filter_cong [symmetric])

lemma animate_alone:
  assumes "sliders p i = Some s" "v_sync (opts s) = None"
  shows "\<exists>q. animate (pause (Suc n)) again i k b False p = Inr q \<and>
    sliders q = (sliders p)(i \<mapsto> moveTo k (prepared k b s)) \<and>
    timers q = (if b \<or> stops k s then filter (\<lambda>(t', _). Some t' \<noteq> animatedSlides s) (timers p)
      else timers p)"
proof -
  define s1 where "s1 = (if b then quiet (announced k s) else announced k s)"
  define p0 where "p0 = putSlider i (announced k s) p"
  define p1 where "p1 = (if b then pauseSelf i (announced k s) p0 else p0)"
  have s1: "sliders p1 = (sliders p)(i \<mapsto> s1)" "v_sync (opts s1) = None"
    "timers p1 = (if b then filter (\<lambda>(t', _). Some t' \<noteq> animatedSlides s) (timers p) else timers p)"
    "animatedSlides s1 = animatedSlides s" "opts s1 = opts s" "last s1 = last s"
    using assms(2) by (simp_all add: p1_def p0_def s1_def pauseSelf_eq timers_clearInterval)
  have "(if b then pause (Suc n) i p0 else Inr p0) = Inr p1"
    using assms(2) by (simp add: p1_def p0_def)
  moreover have "syncAnimate again i False p1 = Inr p1"
    using s1(1,2) by (simp add: syncAnimate_def)
  moreover have "animate (pause (Suc n)) again i k b False p
      = res_bind (if b then pause (Suc n) i p0 else Inr p0)
        (\<lambda>p2. res_bind (syncAnimate again i False p2) (finishAnimate (pause (Suc n)) i k))"
    by (simp only: animate_def getSlider_Some [OF assms(1)] res_bind_simps Let_def p0_def
        announced_def)
  ultimately have "animate (pause (Suc n)) again i k b False p = finishAnimate (pause (Suc n)) i k p1"
    by (simp only: res_bind_simps)
  define p2 where "p2 = putSlider i (markTarget k s1) p1"
  define q where "q = (if stops k s then pauseSelf i (markTarget k s1) p2 else p2)"
  have p2: "sliders p2 i = Some (markTarget k s1)" by (simp add: p2_def)
  have "(if k = last (markTarget k s1) \<and> \<not> v_animationLoop (opts (markTarget k s1))
      then pause (Suc n) i p2 else Inr p2) = Inr q"
    using s1(2,5,6) p2 by (simp add: q_def stops_def)
  moreover have "finishAnimate (pause (Suc n)) i k p1 = res_bind
      (if k = last (markTarget k s1) \<and> \<not> v_animationLoop (opts (markTarget k s1))
      then pause (Suc n) i p2 else Inr p2)
      (\<lambda>p3. res_bind (getSlider p3 i) (\<lambda>s2. Inr (putSlider i (moveTo k s2) p3)))"
    using s1(1) by (simp only: finishAnimate_def getSlider_Some fun_upd_same res_bind_simps
        Let_def p2_def)
  ultimately have "finishAnimate (pause (Suc n)) i k p1 = res_bind (getSlider q i)
      (\<lambda>s2. Inr (putSlider i (moveTo k s2) q))"
    by (simp only: res_bind_simps)
  moreover have "animate (pause (Suc n)) again i k b False p = finishAnimate (pause (Suc n)) i k p1"
    by fact
  moreover have "sliders q = (sliders p)(i \<mapsto> prepared k b s)"
    using s1(1) by (simp add: q_def p2_def pauseSelf_eq prepared_def Let_def flip: s1_def)
  moreover have "timers q = (if b \<or> stops k s
      then filter (\<lambda>(t', _). Some t' \<noteq> animatedSlides s) (timers p) else timers p)"
    using s1 by (auto simp: q_def p2_def pauseSelf_eq timers_clearInterval intro!: filter_cong)
  ultimately show ?thesis by simp
qed

lemma flexAnimate_alone:
  assumes "alone i p s" "canAdvance s k False"
  shows "\<exists>q. flexAnimate (Suc (Suc n)) i k b False False False p = Inr q \<and>
    sliders q = (sliders p)(i \<mapsto> moveTo k (prepared k b s)) \<and>
    timers q = (if b \<or> stops k s then filter (\<lambda>(t', _). Some t' \<noteq> animatedSlides s) (timers p)
      else timers p)"
proof -
  have s: "sliders p i = Some s" "v_sync (opts s) = None" "v_asNavFor (opts s) = None"
    "\<not> asNav s" "\<not> animating s" "b_visible s"
    using assms(1) by (auto simp: alone_def slider_ok_def asNav_def)
  have e: "flexAnimate (Suc (Suc n)) i k b False False False p
      = animate (pause (Suc n)) (flexAnimate (Suc n)) i k b False (putSlider i s p)"
    using s assms(2) by (simp add: Let_def del: pause.simps)
  have "sliders (putSlider i s p) i = Some s" by simp
  from animate_alone [OF this s(2), of n "flexAnimate (Suc n)" k b] show ?thesis
    unfolding e by (simp only: sliders_putSlider fun_upd_upd)
qed

lemma flexAnimate_blocked:
  assumes "alone i p s" "\<not> canAdvance s k False"
  shows "flexAnimate (Suc (Suc n)) i k b False False False p = Inr (putSlider i s p)"
  using assms by (simp add: alone_def slider_ok_def Let_def)

section \<open>Where the container lands\<close>

definition homeOffset :: "slider \<Rightarrow> int \<Rightarrow> real" where
  "homeOffset s k = (if v_reverse (opts s) then real_of_int (count s - 1 - k + cloneOffset s)
     else real_of_int (k + cloneOffset s)) * dimension_of s"

definition geo_ok :: "slider \<Rightarrow> bool" where
  "geo_ok s \<longleftrightarrow> cloneOffset s = (if \<not> v_fade (opts s) \<and> v_animationLoop (opts s) then 1 else 0)"

lemma slideTo_fields [simp]:
  "wrapupBound (slideTo k s) = Some (dimension_of s)"
  "cloneOffset (slideTo k s) = cloneOffset s" "transitions (slideTo k s) = transitions s"
  "opts (slideTo k s) = opts s" "count (slideTo k s) = count s" "last (slideTo k s) = last s"
  by (simp_all add: slideTo_def setProps_def Let_def)

lemma posCalc_plain:
  "\<not> carousel s \<Longrightarrow> posCalc x NoSpecial s = x"
  "\<not> carousel s \<Longrightarrow> posCalc x JumpEnd s = (if v_reverse (opts s) then x else real_of_int (count s) * x)"
  "\<not> carousel s \<Longrightarrow> posCalc x JumpStart s = (if v_reverse (opts s) then real_of_int (count s) * x else x)"
  by (simp_all add: posCalc_def Let_def)

lemma position_slideTo:
  "\<not> carousel s \<Longrightarrow> position (slideTo k s) = - slideString s k (dimension_of s)"
  by (simp add: slideTo_def setProps_def Let_def posCalc_plain)

lemma carousel_slideTo [simp]: "carousel (slideTo k s) = carousel s"
  by (simp add: carousel_def)

lemma position_wrapup:
  assumes "\<not> v_fade (opts s)" "\<not> carousel s"
  shows "position (wrapup d s) =
    (if currentSlide s = 0 \<and> animatingTo s = last s \<and> v_animationLoop (opts s)
     then - posCalc d JumpEnd s
     else if currentSlide s = last s \<and> animatingTo s = 0 \<and> v_animationLoop (opts s)
     then - posCalc d JumpStart s else position s)"
  using assms by (simp add: wrapup_def setProps_def Let_def)

lemma transitionEnd_slideTo:
  "position (transitionEnd (slideTo k s)) = position (wrapup (dimension_of s) (slideTo k s))"
  "animating (transitionEnd (slideTo k s)) = False"
  "currentSlide (transitionEnd (slideTo k s)) = animatingTo s"
proof -
  have "wrapup d (t\<lparr>wrapupBound := x\<rparr>) = (wrapup d t)\<lparr>wrapupBound := x\<rparr>" for d t x
    by (simp add: wrapup_def setProps_def posCalc_def carousel_def Let_def)
  then show "position (transitionEnd (slideTo k s)) = position (wrapup (dimension_of s) (slideTo k s))"
    "animating (transitionEnd (slideTo k s)) = False"
    "currentSlide (transitionEnd (slideTo k s)) = animatingTo s"
    by (simp_all add: transitionEnd_def motion_wrapup motion_slideTo)
qed

lemma lands_home:
  assumes ok: "slider_ok s" and fade: "\<not> v_fade (opts s)" and geo: "geo_ok s"
    and k: "animatingTo s = k" "atEnd s = (k = 0 \<or> k = last s)"
  shows "position (transitionEnd (slideTo k s)) = - homeOffset s k"
proof -
  have c: "\<not> carousel s" and l: "last s = count s - 1" and r: "0 \<le> k" "k < count s"
    using ok k by (simp_all add: slider_ok_def)
  note wr = position_wrapup [of "slideTo k s" "dimension_of s"]
  show ?thesis
  proof (cases "v_animationLoop (opts s) \<and> atEnd s")
    case False
    then have mid: "v_animationLoop (opts s) \<Longrightarrow> k \<noteq> 0 \<and> k \<noteq> last s" using k(2) by blast
    then have "slideString s k (dimension_of s) = homeOffset s k"
      using c l by (auto simp: slideString_def homeOffset_def Let_def)
    moreover have "\<not> (currentSlide (slideTo k s) = 0 \<and> animatingTo (slideTo k s) = last (slideTo k s)
        \<and> v_animationLoop (opts (slideTo k s)))"
      "\<not> (currentSlide (slideTo k s) = last (slideTo k s) \<and> animatingTo (slideTo k s) = 0
        \<and> v_animationLoop (opts (slideTo k s)))"
      using mid k(1) by (simp_all add: motion_slideTo(1)) blast+
    with wr fade c have "position (wrapup (dimension_of s) (slideTo k s)) = position (slideTo k s)"
      by (simp only: slideTo_fields carousel_slideTo if_False simp_thms)
    ultimately show ?thesis using position_slideTo [OF c, of k] by (simp add: transitionEnd_slideTo(1))
  next
    case True
    then have cur: "currentSlide (slideTo k s) = currentSlide s" by (simp add: motion_slideTo)
    have one: "cloneOffset s = 1" using geo fade True by (simp add: geo_ok_def)
    have "k = 0 \<or> k = last s" using True k(2) by simp
    then show ?thesis
      using wr fade c k(1) l one True
      by (auto simp: transitionEnd_slideTo position_slideTo motion_slideTo cur posCalc_plain
          slideString_def homeOffset_def Let_def)
  qed
qed

section \<open>The height of the frame\<close>

text \<open>Nothing else depends on the height, so it can be set before or after.\<close>

lemma transitionEnd_height:
  "transitionEnd (s\<lparr>frameHeight := x\<rparr>) = (transitionEnd s)\<lparr>frameHeight := x\<rparr>"
proof -
  have "posCalc d special (u\<lparr>frameHeight := x\<rparr>) = posCalc d special u" for d special u
    by (cases special) (simp_all add: posCalc_def carousel_def Let_def)
  then have "setProps d special (u\<lparr>frameHeight := x\<rparr>) = (setProps d special u)\<lparr>frameHeight := x\<rparr>"
    for d special u
    by (simp add: setProps_def)
  then have w: "wrapup d (u\<lparr>frameHeight := x\<rparr>) = (wrapup d u)\<lparr>frameHeight := x\<rparr>" for d u
    by (simp add: wrapup_def carousel_def Let_def)
  have "wrapup d (u\<lparr>frameHeight := x, wrapupBound := None\<rparr>) = (wrapup d (u\<lparr>wrapupBound := None\<rparr>))\<lparr>frameHeight := x\<rparr>"
    for d u
  proof -
    have "u\<lparr>frameHeight := x, wrapupBound := None\<rparr> = u\<lparr>wrapupBound := None, frameHeight := x\<rparr>"
      by (rule slider.equality) simp_all
    then show ?thesis by (simp only: w)
  qed
  with w show ?thesis by (simp add: transitionEnd_def split: option.split)
qed

lemma whenSmooth_height: "\<exists>x. whenSmooth s = s\<lparr>frameHeight := x\<rparr>"
proof -
  have "\<exists>x. s = s\<lparr>frameHeight := x\<rparr>" by (rule exI [of _ "frameHeight s"]) simp
  then show ?thesis by (auto simp: whenSmooth_def smoothHeight_def split: option.split)
qed

lemma transitionEnd_whenSmooth [simp]:
  "animating (transitionEnd (whenSmooth s)) = animating (transitionEnd s)"
  "currentSlide (transitionEnd (whenSmooth s)) = currentSlide (transitionEnd s)"
  "position (transitionEnd (whenSmooth s)) = position (transitionEnd s)"
  using whenSmooth_height [of s] by (auto simp: transitionEnd_height)

lemma frameHeight_transitionEnd [simp]: "frameHeight (transitionEnd s) = frameHeight s"
  by (simp add: transitionEnd_def wrapup_def setProps_def Let_def split: option.split)

lemma sizes_ops [simp]:
  "slidesLength (quiet s) = slidesLength s" "b_heights (quiet s) = b_heights s"
  "slidesLength (announced k s) = slidesLength s" "b_heights (announced k s) = b_heights s"
  "slidesLength (directionNav_update s) = slidesLength s" "b_heights (directionNav_update s) = b_heights s"
  by (simp_all add: quiet_def announced_def pausePlay_update_def directionNav_update_def Let_def)

lemma markTarget_sizes [simp]:
  "slidesLength (markTarget k s) = slidesLength s" "b_heights (markTarget k s) = b_heights s"
  by (simp_all add: markTarget_def controlNav_active_def Let_def)

lemma prepared_sizes: "slidesLength (prepared k b s) = slidesLength s" "b_heights (prepared k b s) = b_heights s"
  by (simp_all add: prepared_def Let_def)

text \<open>Where the frame takes the slide's height: with \<open>smoothHeight\<close>, unless slides move vertically.\<close>

definition fitted :: "slider \<Rightarrow> bool" where
  "fitted s \<longleftrightarrow> v_smoothHeight (opts s) \<and> (v_vertical (opts s) \<longrightarrow> v_fade (opts s)) \<and> slidesLength s = count s"

lemma frameHeight_moveTo:
  assumes "fitted s" "animatingTo s = k" "0 \<le> k" "k < count s"
  shows "frameHeight (moveTo k s) = b_heights s k"
  using assms
  by (auto simp: fitted_def moveTo_def fadeTo_def slideTo_def setProps_def whenSmooth_def smoothHeight_def
      eqIndex_def Let_def)

section \<open>Rounds of the slideshow\<close>

lemma transitionEnd_moves:
  assumes "slider_ok s" "animatingTo s = k"
  shows "animating (transitionEnd (moveTo k s)) = False"
    "currentSlide (transitionEnd (moveTo k s)) = k"
proof -
  have f: "animating (transitionEnd (fadeTo k s)) = (b_touch s \<and> wrapupBound (fadeTo k s) = None \<and> False)"
    "currentSlide (transitionEnd (fadeTo k s)) = animatingTo s"
    by (auto simp: transitionEnd_def motion_wrapup motion_fadeTo fadeTo_def Let_def
        split: option.split)
  show "animating (transitionEnd (moveTo k s)) = False"
    "currentSlide (transitionEnd (moveTo k s)) = k"
    using f assms(2) by (simp_all add: moveTo_def transitionEnd_slideTo)
qed

lemma canAdvance_next:
  assumes "slider_ok s" "\<not> (\<not> v_animationLoop (opts s) \<and> currentSlide s = last s)" "1 < count s"
    "direction s = Some Next"
  shows "canAdvance s (target_of Next s) False"
  using assms by (auto simp: canAdvance_def target_of_def slider_ok_def Let_def)

lemma canAdvance_single:
  assumes "slider_ok s" "count s = 1"
  shows "\<not> canAdvance s (target_of Next s) False"
  using assms by (simp add: canAdvance_def target_of_def slider_ok_def Let_def)

lemma canAdvance_at_end:
  assumes "slider_ok s" "\<not> v_animationLoop (opts s)" "currentSlide s = last s" "atEnd s"
    "direction s = Some Next"
  shows "\<not> canAdvance s (target_of Next s) False"
  using assms by (auto simp: canAdvance_def target_of_def slider_ok_def Let_def)

lemma target_next:
  assumes "slider_ok s"
  shows "target_of Next s = (currentSlide s + 1) mod count s"
proof (cases "currentSlide s = count s - 1")
  case False
  then have "currentSlide s + 1 < count s" using assms by (simp add: slider_ok_def)
  then show ?thesis using assms False by (simp add: target_of_def slider_ok_def)
qed (use assms in \<open>simp add: target_of_def slider_ok_def\<close>)

lemma target_prev:
  assumes "slider_ok s"
  shows "target_of Prev s = (currentSlide s - 1) mod count s"
proof (cases "currentSlide s = 0")
  case True
  then show ?thesis using assms by (simp add: target_of_def slider_ok_def zmod_minus1)
next
  case False
  then show ?thesis using assms by (simp add: target_of_def slider_ok_def)
qed

lemma kept_fields [simp]:
  "animatedSlides (moveTo k s) = animatedSlides s" "playing (moveTo k s) = playing s"
  "animatedSlides (transitionEnd s) = animatedSlides s" "playing (transitionEnd s) = playing s"
  "opts (transitionEnd s) = opts s" "b_visible (transitionEnd s) = b_visible s"
  by (simp_all add: moveTo_def slideTo_def fadeTo_def setProps_def transitionEnd_def wrapup_def
      Let_def split: option.split)

lemma prepared_ok:
  assumes "slider_ok s" "0 \<le> k" "k < count s"
  shows "slider_ok (prepared k b s)"
proof -
  note f = prepared_simps(1) [of k b s, unfolded frame_iff]
  note m = prepared_simps(2) [of k b s, unfolded motion_def]
  show ?thesis using assms f m by (simp add: slider_ok_def asNav_def carousel_def)
qed

lemma transitionEnd_ok: "slider_ok s \<Longrightarrow> slider_ok (transitionEnd s)"
  using transitionEnd_local by (auto simp: local_ok_def)

lemma animatedSlides_prepared [simp]: "animatedSlides (prepared k b s) = animatedSlides s"
  using prepared_simps(3) [of k b s] by (simp only: geo_def prod.inject)

definition settled :: "int \<Rightarrow> bool \<Rightarrow> slider \<Rightarrow> slider" where
  "settled k b s = transitionEnd (moveTo k (prepared k b s))"

lemma frameHeight_settled:
  assumes "fitted s" "0 \<le> k" "k < count s"
  shows "frameHeight (settled k b s) = b_heights s k"
proof -
  let ?s = "prepared k b s"
  have "animatingTo ?s = k" using prepared_simps(2) [of k b s] by (simp only: motion_def prod.inject)
  moreover have "count ?s = count s" using prepared_simps(1) [of k b s, unfolded frame_iff] by blast
  ultimately show ?thesis
    using frameHeight_moveTo [of ?s k] assms prepared_sizes [of k b s] by (simp add: settled_def fitted_def)
qed

lemma settled_alone:
  assumes s: "alone i p s" and k: "0 \<le> k" "k < count s" and q: "sliders q i = Some (settled k b s)"
  shows "alone i q (settled k b s)" "frame (settled k b s) = frame s"
    "currentSlide (settled k b s) = k" "animatedSlides (settled k b s) = animatedSlides s"
    "playing (settled k b s) = (playing s \<and> \<not> b \<and> \<not> stops k s)"
proof -
  have ok: "slider_ok s" using s by (simp add: alone_def)
  note pok = prepared_ok [OF ok k]
  have a: "animatingTo (prepared k b s) = k"
    using prepared_simps(2) [of k b s] by (simp only: motion_def prod.inject)
  show f: "frame (settled k b s) = frame s" by (simp add: settled_def)
  then have "v_sync (opts (settled k b s)) = None" "b_visible (settled k b s)"
    using s by (simp_all add: alone_def frame_iff)
  then show "alone i q (settled k b s)"
    using q transitionEnd_moves(1) [OF pok a] transitionEnd_ok [OF move_ok [OF pok]]
    by (simp add: alone_def settled_def)
  show "currentSlide (settled k b s) = k"
    using transitionEnd_moves(2) [OF pok a] by (simp add: settled_def)
qed (simp_all add: settled_def)

lemma animate_settles:
  assumes s: "alone i p s" and k: "0 \<le> k" "k < count s" "canAdvance s k False"
  shows "\<exists>q. res_bind (flexAnimate (Suc (Suc n)) i k b False False False p)
        (handle (Suc (Suc n)) (TransitionEnd i)) = Inr q \<and>
    sliders q = (sliders p)(i \<mapsto> settled k b s) \<and>
    timers q = (if b \<or> stops k s then filter (\<lambda>(t', _). Some t' \<noteq> animatedSlides s) (timers p)
      else timers p)"
proof -
  obtain q where q: "flexAnimate (Suc (Suc n)) i k b False False False p = Inr q"
    "sliders q = (sliders p)(i \<mapsto> moveTo k (prepared k b s))"
    "timers q = (if b \<or> stops k s then filter (\<lambda>(t', _). Some t' \<noteq> animatedSlides s) (timers p)
      else timers p)"
    using flexAnimate_alone [OF s k(3)] by blast
  have "handle (Suc (Suc n)) (TransitionEnd i) q = Inr (putSlider i (settled k b s) q)"
    using q(2) by (simp add: onSlider_def settled_def)
  with q show ?thesis by (simp del: flexAnimate.simps handle.simps)
qed

lemma alone_direction:
  assumes "alone i p s"
  shows "alone i (putSlider i (s\<lparr>direction := d\<rparr>) p) (s\<lparr>direction := d\<rparr>)"
  using assms slider_ok_cong [of "s\<lparr>direction := d\<rparr>" s]
  by (simp add: alone_def frame_def motion_def)

text \<open>One interval tick and the end of its transition.\<close>

lemma slideshow_round:
  assumes s: "alone i p s" and t: "map_of (timers p) t = Some i"
    and go: "1 < count s" "v_animationLoop (opts s) \<or> currentSlide s \<noteq> last s"
  shows "\<exists>q s'. handle_all (Suc (Suc n)) [IntervalTick t, TransitionEnd i] p = Inr q \<and>
    alone i q s' \<and> frame s' = frame s \<and> currentSlide s' = target_of Next s \<and>
    animatedSlides s' = animatedSlides s \<and>
    playing s' = (playing s \<and> \<not> stops (target_of Next s) s) \<and>
    timers q = (if stops (target_of Next s) s
      then filter (\<lambda>(t', _). Some t' \<noteq> animatedSlides s) (timers p) else timers p)"
proof -
  let ?s = "s\<lparr>direction := Some Next\<rparr>" let ?k = "target_of Next s"
  let ?p = "putSlider i ?s p"
  have a: "alone i ?p ?s" by (rule alone_direction [OF s])
  have ok: "slider_ok s" "\<not> animating s" "sliders p i = Some s" using s by (simp_all add: alone_def)
  have k: "0 \<le> ?k" "?k < count ?s" using target_in_range [OF ok(1), of Next] by simp_all
  have st: "stops ?k ?s = stops ?k s" by (simp add: stops_def)
  have "canAdvance ?s (target_of Next ?s) False"
    using a go by (intro canAdvance_next) (auto simp: alone_def)
  moreover have "target_of Next ?s = ?k" by (simp add: target_of_def)
  ultimately have adv: "canAdvance ?s ?k False" by simp
  obtain q where q: "res_bind (flexAnimate (Suc (Suc n)) i ?k False False False False ?p)
        (handle (Suc (Suc n)) (TransitionEnd i)) = Inr q"
    "sliders q = (sliders ?p)(i \<mapsto> settled ?k False ?s)"
    "timers q = (if False \<or> stops ?k ?s
      then filter (\<lambda>(t', _). Some t' \<noteq> animatedSlides ?s) (timers ?p) else timers ?p)"
    using animate_settles [OF a k adv, of n False] by (elim exE conjE) (rule that)
  have "handle (Suc (Suc n)) (IntervalTick t) p
      = flexAnimate (Suc (Suc n)) i ?k False False False False ?p"
    using t ok by (simp add: animateSlides_def getTarget_def del: flexAnimate.simps)
  then have "handle_all (Suc (Suc n)) [IntervalTick t, TransitionEnd i] p = Inr q"
    using q(1) by (auto simp del: handle.simps flexAnimate.simps)
  moreover have "sliders q i = Some (settled ?k False ?s)" using q(2) by simp
  note settled_alone [OF a k this]
  ultimately show ?thesis using q(3) st by (intro exI [of _ q] exI [of _ "settled ?k False ?s"])
    (simp add: frame_def)
qed

end
