(* ===== verification/Slideshow.thy ===== *)
theory Slideshow
  imports Prelude
begin

text \<open>
  What an automatic slideshow promises, as an interface: \<open>round\<close> is a tick of its interval and
  the end of the animation, \<open>index\<close> the slide at rest, \<open>size\<close> the number of slides. Both versions
  of the slider plugin provide it.
\<close>

primrec run_rounds :: "('s \<Rightarrow> 's option) \<Rightarrow> nat \<Rightarrow> 's \<Rightarrow> 's option" where
  "run_rounds round 0 s = Some s"
| "run_rounds round (Suc m) s = Option.bind (round s) (run_rounds round m)"

locale slideshow =
  fixes ok :: "'s \<Rightarrow> bool"
    and round :: "'s \<Rightarrow> 's option"
    and index :: "'s \<Rightarrow> int"
    and size :: "'s \<Rightarrow> int"
  assumes index_range: "ok s \<Longrightarrow> 0 \<le> index s \<and> index s < size s"
    and round_next: "ok s \<Longrightarrow> \<exists>s'. round s = Some s' \<and> ok s' \<and> size s' = size s \<and>
      index s' = (if index s = size s - 1 then 0 else index s + 1)"
begin

lemma round_mod:
  assumes "ok s"
  shows "(if index s = size s - 1 then 0 else index s + 1) = (index s + 1) mod size s"
  using index_range [OF assms] by auto

lemma rounds_index:
  assumes "ok s"
  shows "\<exists>s'. run_rounds round m s = Some s' \<and> ok s' \<and> size s' = size s \<and>
    index s' = (index s + int m) mod size s"
  using assms
proof (induction m arbitrary: s)
  case 0
  then show ?case using index_range [OF 0] by simp
next
  case (Suc m)
  obtain s1 where s1: "round s = Some s1" "ok s1" "size s1 = size s"
    "index s1 = (index s + 1) mod size s"
    using round_next [OF Suc.prems] unfolding round_mod [OF Suc.prems] by blast
  obtain s2 where "run_rounds round m s1 = Some s2" "ok s2" "size s2 = size s1"
    "index s2 = (index s1 + int m) mod size s1"
    using Suc.IH [OF s1(2)] by blast
  moreover have "((index s + 1) mod size s + int m) mod size s = (index s + int (Suc m)) mod size s"
    by (simp add: mod_simps ac_simps)
  ultimately show ?case using s1 by simp
qed

end

text \<open>Two slideshows side by side.\<close>

locale slideshow_pair = one: slideshow ok1 round1 index1 size1 + two: slideshow ok2 round2 index2 size2
  for ok1 :: "'s \<Rightarrow> bool" and round1 index1 size1
    and ok2 :: "'t \<Rightarrow> bool" and round2 index2 size2
begin

lemma rounds_agree:
  assumes "ok1 s" "ok2 t" "index1 s = index2 t" "size1 s = size2 t"
  shows "\<exists>s' t'. run_rounds round1 m s = Some s' \<and> run_rounds round2 m t = Some t' \<and>
    index1 s' = index2 t'"
  using one.rounds_index [OF assms(1), of m] two.rounds_index [OF assms(2), of m] assms(3,4) by auto

end

end
