(* ===== verification/FlexSlider_Properties.thy ===== *)
theory FlexSlider_Properties
  imports FlexSlider_Alone Slideshow
begin

text \<open>
  The properties of the slider: its invariant over every event, where an animation lands, what the
  slideshow shows, and the cases in which the plugin leaves its contract.
\<close>

section \<open>Rounds\<close>

definition rounds :: "nat \<Rightarrow> nat \<Rightarrow> nat \<Rightarrow> event list" where
  "rounds t i m = concat (replicate m [IntervalTick t, TransitionEnd i])"

lemma handle_all_append:
  "handle_all n (xs @ ys) p = res_bind (handle_all n xs p) (handle_all n ys)"
proof (induction xs arbitrary: p)
  case (Cons x xs)
  then show ?case by (cases "handle n x p") auto
qed simp

lemma rounds_Suc:
  "handle_all n (rounds t i (Suc m)) p
    = res_bind (handle_all n [IntervalTick t, TransitionEnd i] p) (handle_all n (rounds t i m))"
proof -
  have "rounds t i (Suc m) = [IntervalTick t, TransitionEnd i] @ rounds t i m"
    by (simp add: rounds_def)
  then show ?thesis by (simp only: handle_all_append)
qed

lemma round_goes:
  assumes "alone i p s" "map_of (timers p) t = Some i" "1 < count s"
    "v_animationLoop (opts s) \<or> currentSlide s \<noteq> last s" "\<not> stops (target_of Next s) s"
  shows "\<exists>q s'. handle_all (Suc (Suc n)) [IntervalTick t, TransitionEnd i] p = Inr q \<and>
    alone i q s' \<and> frame s' = frame s \<and> currentSlide s' = target_of Next s \<and>
    animatedSlides s' = animatedSlides s \<and> timers q = timers p"
  using slideshow_round [OF assms(1-4), of n] unfolding if_not_P [OF assms(5)]
  by (elim exE conjE) (intro exI conjI)

lemma round_stops:
  assumes "alone i p s" "map_of (timers p) t = Some i" "1 < count s"
    "v_animationLoop (opts s) \<or> currentSlide s \<noteq> last s" "stops (target_of Next s) s"
  shows "\<exists>q s'. handle_all (Suc (Suc n)) [IntervalTick t, TransitionEnd i] p = Inr q \<and>
    alone i q s' \<and> frame s' = frame s \<and> currentSlide s' = target_of Next s \<and> \<not> playing s' \<and>
    timers q = filter (\<lambda>(t', _). Some t' \<noteq> animatedSlides s) (timers p)"
  using slideshow_round [OF assms(1-4), of n] unfolding if_P [OF assms(5)]
  by (elim exE conjE) (intro exI conjI, assumption+, simp add: assms(5))

lemma single_round:
  assumes s: "alone i p s" and t: "map_of (timers p) t = Some i" and c: "count s = 1"
  shows "\<exists>q s'. handle_all (Suc (Suc n)) [IntervalTick t, TransitionEnd i] p = Inr q \<and>
    alone i q s' \<and> frame s' = frame s \<and> currentSlide s' = currentSlide s \<and> timers q = timers p"
proof -
  let ?s = "s\<lparr>direction := Some Next\<rparr>" let ?p = "putSlider i ?s p"
  have a: "alone i ?p ?s" by (rule alone_direction [OF s])
  then have ok: "slider_ok ?s" "\<not> animating ?s" by (simp_all add: alone_def)
  have eq: "target_of Next ?s = target_of Next s" by (simp add: target_of_def)
  have blocked: "\<not> canAdvance ?s (target_of Next s) False"
    using canAdvance_single [OF ok(1)] c unfolding eq by simp
  have "handle (Suc (Suc n)) (IntervalTick t) p = Inr ?p"
    using t s flexAnimate_blocked [OF a blocked]
    by (simp add: animateSlides_def getTarget_def alone_def del: flexAnimate.simps)
  moreover have "handle (Suc (Suc n)) (TransitionEnd i) ?p = Inr (putSlider i (transitionEnd ?s) ?p)"
    by (simp add: onSlider_def)
  ultimately have 1: "handle_all (Suc (Suc n)) [IntervalTick t, TransitionEnd i] p
      = Inr (putSlider i (transitionEnd ?s) ?p)" by (simp del: handle.simps)
  have f: "frame (transitionEnd ?s) = frame s" by (simp add: frame_def [of s]) (simp add: frame_def)
  have m: "animating (transitionEnd ?s) = False" "currentSlide (transitionEnd ?s) = currentSlide s"
    using ok(2) ok(1) by (auto simp: transitionEnd_def motion_wrapup slider_ok_def split: option.split)
  have "alone i (putSlider i (transitionEnd ?s) ?p) (transitionEnd ?s)"
    using a transitionEnd_ok [OF ok(1)] m(1) by (simp add: alone_def)
  with 1 f m(2) show ?thesis
    by (intro exI [of _ "putSlider i (transitionEnd ?s) ?p"] exI [of _ "transitionEnd ?s"])
      (simp del: handle_all.simps)
qed

lemma frame_fields: "frame s' = frame s \<Longrightarrow> opts s' = opts s" "frame s' = frame s \<Longrightarrow> count s' = count s"
  "frame s' = frame s \<Longrightarrow> last s' = last s"
  by (simp_all add: frame_iff)

text \<open>A looping slider with its interval provides the slideshow interface.\<close>

definition looping :: "nat \<Rightarrow> nat \<Rightarrow> page \<Rightarrow> bool" where
  "looping i t p \<longleftrightarrow> (case sliders p i of None \<Rightarrow> False
     | Some s \<Rightarrow> alone i p s \<and> v_animationLoop (opts s)) \<and> map_of (timers p) t = Some i"

definition roundOf :: "nat \<Rightarrow> nat \<Rightarrow> nat \<Rightarrow> page \<Rightarrow> page option" where
  "roundOf n i t p = (case handle_all (Suc (Suc n)) [IntervalTick t, TransitionEnd i] p of
     Inl e \<Rightarrow> None | Inr q \<Rightarrow> Some q)"

definition slideAt :: "nat \<Rightarrow> page \<Rightarrow> int" where
  "slideAt i p = (case sliders p i of None \<Rightarrow> 0 | Some s \<Rightarrow> currentSlide s)"

definition slideCount :: "nat \<Rightarrow> page \<Rightarrow> int" where
  "slideCount i p = (case sliders p i of None \<Rightarrow> 0 | Some s \<Rightarrow> count s)"

lemma loopingE:
  assumes "looping i t p"
  obtains s where "alone i p s" "sliders p i = Some s" "v_animationLoop (opts s)"
    "map_of (timers p) t = Some i"
  using assms by (auto simp: looping_def split: option.splits)

lemma looping_round:
  assumes s: "alone i p s" "v_animationLoop (opts s)" "map_of (timers p) t = Some i"
  shows "\<exists>q s'. handle_all (Suc (Suc n)) [IntervalTick t, TransitionEnd i] p = Inr q \<and> alone i q s' \<and>
    frame s' = frame s \<and> timers q = timers p \<and>
    currentSlide s' = (if currentSlide s = count s - 1 then 0 else currentSlide s + 1)"
proof -
  have ok: "slider_ok s" using s(1) by (simp add: alone_def)
  show ?thesis
  proof (cases "count s = 1")
    case True
    then have "currentSlide s = (if currentSlide s = count s - 1 then 0 else currentSlide s + 1)"
      using ok by (simp add: slider_ok_def)
    with single_round [OF s(1,3) True, of n] show ?thesis by metis
  next
    case False
    then have "1 < count s" "\<not> stops (target_of Next s) s" "last s = count s - 1"
      using ok s(2) by (simp_all add: slider_ok_def stops_def)
    moreover from this(3) have "target_of Next s = (if currentSlide s = count s - 1 then 0 else currentSlide s + 1)"
      by (simp add: target_of_def)
    ultimately show ?thesis using round_goes [OF s(1,3), of n] s(2) by metis
  qed
qed

interpretation v21: slideshow "looping i t" "roundOf n i t" "slideAt i" "slideCount i" for n i t
proof
  fix p
  assume "looping i t p"
  then obtain s where s: "alone i p s" "sliders p i = Some s" "v_animationLoop (opts s)"
    "map_of (timers p) t = Some i" by (rule loopingE)
  then show "0 \<le> slideAt i p \<and> slideAt i p < slideCount i p"
    by (simp add: slideAt_def slideCount_def alone_def slider_ok_def)
  obtain q s' where q: "handle_all (Suc (Suc n)) [IntervalTick t, TransitionEnd i] p = Inr q" "alone i q s'"
    "frame s' = frame s" "timers q = timers p"
    "currentSlide s' = (if currentSlide s = count s - 1 then 0 else currentSlide s + 1)"
    using looping_round [OF s(1,3,4), of n] by blast
  have "sliders q i = Some s'" using q(2) by (simp add: alone_def)
  then have "looping i t q \<and> slideCount i q = slideCount i p \<and>
      slideAt i q = (if slideAt i p = slideCount i p - 1 then 0 else slideAt i p + 1)"
    using q(2,4,5) s frame_fields(1,2) [OF q(3)] by (simp add: looping_def slideAt_def slideCount_def)
  then show "\<exists>q. roundOf n i t p = Some q \<and> looping i t q \<and> slideCount i q = slideCount i p \<and>
      slideAt i q = (if slideAt i p = slideCount i p - 1 then 0 else slideAt i p + 1)"
    using q(1) by (intro exI [of _ q]) (simp add: roundOf_def)
qed

lemma rounds_run:
  "run_rounds (roundOf n i t) m p = Some q \<Longrightarrow> handle_all (Suc (Suc n)) (rounds t i m) p = Inr q"
proof (induction m arbitrary: p)
  case 0
  then show ?case by (simp add: rounds_def)
next
  case (Suc m)
  then obtain q1 where q1: "roundOf n i t p = Some q1" "run_rounds (roundOf n i t) m q1 = Some q"
    by (auto simp: bind_eq_Some_conv)
  have "handle_all (Suc (Suc n)) [IntervalTick t, TransitionEnd i] p = Inr q1"
    using q1(1) by (simp add: roundOf_def split: sum.splits del: handle_all.simps)
  then show ?case unfolding rounds_Suc by (simp add: Suc.IH [OF q1(2)])
qed

lemma stopping_rounds:
  assumes "alone i p s" "map_of (timers p) t = Some i" "\<not> v_animationLoop (opts s)"
    "animatedSlides s = Some t" "currentSlide s + int (Suc m) = last s"
  shows "\<exists>q s'. handle_all (Suc (Suc n)) (rounds t i (Suc m)) p = Inr q \<and> alone i q s' \<and>
    currentSlide s' = last s' \<and> \<not> playing s' \<and> map_of (timers q) t = None"
  using assms
proof (induction m arbitrary: p s)
  case (0 p s)
  have ok: "slider_ok s" using 0(1) by (simp add: alone_def)
  have "1 < count s" "currentSlide s \<noteq> last s" "target_of Next s = last s" "stops (last s) s"
    using 0 ok by (simp_all add: slider_ok_def target_of_def stops_def)
  then obtain q s' where q:
    "handle_all (Suc (Suc n)) [IntervalTick t, TransitionEnd i] p = Inr q" "alone i q s'"
    "frame s' = frame s" "currentSlide s' = last s" "\<not> playing s'"
    "timers q = filter (\<lambda>(t', _). Some t' \<noteq> animatedSlides s) (timers p)"
    using round_stops [OF 0(1,2), of n] by (simp only:) blast
  then have "map_of (timers q) t = None" using 0(4) by (auto simp: map_of_eq_None_iff)
  moreover have "handle_all (Suc (Suc n)) (rounds t i (Suc 0)) p = Inr q"
    unfolding rounds_Suc q(1) by (simp add: rounds_def)
  ultimately show ?case using q frame_fields(3) [OF q(3)]
    by (intro exI [of _ q] exI [of _ s']) simp
next
  case (Suc m p s)
  have ok: "slider_ok s" using Suc.prems(1) by (simp add: alone_def)
  have "1 < count s" "currentSlide s \<noteq> last s" "target_of Next s = currentSlide s + 1"
    "\<not> stops (currentSlide s + 1) s"
    using Suc.prems ok by (simp_all add: slider_ok_def target_of_def stops_def)
  then obtain q s' where q:
    "handle_all (Suc (Suc n)) [IntervalTick t, TransitionEnd i] p = Inr q" "alone i q s'"
    "frame s' = frame s" "currentSlide s' = currentSlide s + 1" "timers q = timers p"
    "animatedSlides s' = animatedSlides s"
    using round_goes [OF Suc.prems(1,2), of n] by (simp only: simp_thms) blast
  note f = frame_fields [OF q(3)]
  have "map_of (timers q) t = Some i" "\<not> v_animationLoop (opts s')" "animatedSlides s' = Some t"
    "currentSlide s' + int (Suc m) = last s'" using q f Suc.prems by simp_all
  from Suc.IH [OF q(2) this] show ?case unfolding rounds_Suc [of _ t i "Suc m"] q(1) res_bind_simps .
qed

section \<open>Starting a slider\<close>

lemma setupSlider_frame:
  "frame (setupSlider b s) = frame s" "motion (setupSlider b s) = motion s"
proof -
  have u: "frame (s\<lparr>cloneCount := x, cloneOffset := y\<rparr>) = frame s" "frame (s\<lparr>setupDue := d\<rparr>) = frame s"
    "frame (s\<lparr>shown := S\<rparr>) = frame s" "frame (s\<lparr>activeSlide := a\<rparr>) = frame s"
    "frame (setProps z p s) = frame s" for s x y d S a z p
    by (simp_all add: frame_def setProps_def)
  have v: "motion (s\<lparr>cloneCount := x, cloneOffset := y\<rparr>) = motion s" "motion (s\<lparr>setupDue := d\<rparr>) = motion s"
    "motion (s\<lparr>shown := S\<rparr>) = motion s" "motion (s\<lparr>activeSlide := a\<rparr>) = motion s"
    "motion (setProps z p s) = motion s" for s x y d S a z p
    by (simp_all add: motion_def setProps_def)
  show "frame (setupSlider b s) = frame s"
    unfolding setupSlider_def Let_def by (simp only: u whenSmooth_fields(1) if_distrib [of frame] if_cancel)
  show "motion (setupSlider b s) = motion s"
    unfolding setupSlider_def Let_def by (simp only: v whenSmooth_fields(2) if_distrib [of motion] if_cancel)
qed

lemma controlNav_setup_frame:
  "frame (controlNav_setup s) = frame s" "motion (controlNav_setup s) = motion s"
  by (simp_all add: controlNav_setup_def controlNav_active_def frame_def motion_def)

lemma pausePlay_setup_frame:
  "frame (pausePlay_setup s) = frame s" "motion (pausePlay_setup s) = motion s"
  by (simp_all add: pausePlay_setup_def pausePlay_update_def frame_def motion_def)

lemma asNav_measured [simp]: "asNav (measured s) = asNav s"
  by (simp add: asNav_def)

lemma initSelf_plain:
  assumes "\<not> carousel s" "\<not> asNav s"
  shows "\<exists>s'. initSelf s = Inr s' \<and> frame s' = frame (measured s) \<and> motion s' = motion (measured s)"
  using assms
  by (simp add: initSelf_def doMath_plain Let_def setupSlider_frame controlNav_setup_frame
      pausePlay_setup_frame)

lemma new_slider_ok:
  assumes "v_itemWidth o' \<le> 0" "v_asNavFor o' = None" "0 \<le> v_startAt o'" "v_startAt o' < c"
    "frame s = frame (measured (newSlider o' wd ht pd vis tch c3 c))"
    "motion s = motion (measured (newSlider o' wd ht pd vis tch c3 c))"
  shows "slider_ok s"
  using assms by (simp add: slider_ok_def frame_def motion_def measured_def newSlider_def
      asNav_def carousel_def)

lemma page_ok_add:
  assumes p: "page_ok r p" "sliders p i = None" and s: "slider_ok s" "v_sync (opts s) = None"
    and q: "sliders q = (sliders p)(i \<mapsto> s)" "snd ` set (timers q) \<subseteq> insert i (snd ` set (timers p))"
  shows "page_ok r q"
  unfolding page_ok_def
proof (intro conjI allI impI)
  fix k t j
  assume k: "sliders q k = Some t" and sync: "v_sync (opts t) = Some j"
  with q s have "k \<noteq> i" "sliders p k = Some t" by (auto split: if_splits)
  then obtain u where "r j < r k" "sliders p j = Some u" "count u = count t"
    using p(1) sync by (fastforce simp: page_ok_def)
  then show "r j < r k" "\<exists>u. sliders q j = Some u \<and> count u = count t"
    using p(2) q(1) by auto
next
  fix k t
  assume "sliders q k = Some t"
  then show "slider_ok t" using p(1) q(1) s(1) by (auto simp: page_ok_def split: if_splits)
next
  have "snd ` set (timers p) \<subseteq> dom (sliders p)" using p(1) by (simp add: page_ok_def)
  then show "snd ` set (timers q) \<subseteq> dom (sliders q)" using q by (simp add: subset_iff) blast
qed

section \<open>Concrete pages\<close>

definition demoSlider :: "vars \<Rightarrow> slider" where
  "demoSlider o' = measured (newSlider o' 960 (\<lambda>_. 400) 0 True False False 3)
     \<lparr>animatedSlides := Some 0, playing := True,
      cloneOffset := (if \<not> v_fade o' \<and> v_animationLoop o' then 1 else 0)\<rparr>"

definition demoPage :: "vars \<Rightarrow> page" where
  "demoPage o' = \<lparr>sliders = [0 \<mapsto> demoSlider o'], timers = [(0, 0)], nextTimer = 1\<rparr>"

definition slideOpts :: vars where "slideOpts = defaults\<lparr>v_fade := False\<rparr>"

lemma defaults_fields [simp]:
  "v_fade defaults = True" "v_animationLoop defaults = True" "v_startAt defaults = 0"
  "v_sync defaults = None" "v_asNavFor defaults = None" "v_itemWidth defaults = 0"
  "v_controlNav defaults = True" "v_pausePlay defaults = False" "v_slideshow defaults = True"
  "v_namespace defaults = ''flex-''" "v_reverse defaults = False" "v_minItems defaults = 0"
  "v_maxItems defaults = 0" "v_itemMargin defaults = 0" "v_move defaults = 0"
  by (simp_all add: defaults_def)

lemma demo_slider [simp]:
  "opts (demoSlider o') = o'" "count (demoSlider o') = 3" "last (demoSlider o') = 2"
  "currentSlide (demoSlider o') = v_startAt o'" "animatingTo (demoSlider o') = v_startAt o'"
  "animating (demoSlider o') = False" "b_visible (demoSlider o') = True"
  "animatedSlides (demoSlider o') = Some 0" "direction (demoSlider o') = None"
  "cloneOffset (demoSlider o') = (if \<not> v_fade o' \<and> v_animationLoop o' then 1 else 0)"
  "pagingCount (demoSlider o') = 3" "controlNavLength (demoSlider o') = 0"
  by (simp_all add: demoSlider_def measured_def newSlider_def)

lemma demo_sizes: "slidesLength (demoSlider o') = 3" "v_vertical defaults = False"
  by (simp_all add: demoSlider_def measured_def newSlider_def defaults_def)

lemma demo_page [simp]:
  "sliders (demoPage o') 0 = Some (demoSlider o')" "timers (demoPage o') = [(0, 0)]"
  by (simp_all add: demoPage_def)

lemma demo_slider_ok:
  assumes "v_itemWidth o' \<le> 0" "v_asNavFor o' = None" "0 \<le> v_startAt o'" "v_startAt o' < 3"
  shows "slider_ok (demoSlider o')"
  using assms by (simp add: slider_ok_def asNav_def carousel_def)

lemma demo_alone:
  assumes "v_itemWidth o' \<le> 0" "v_asNavFor o' = None" "0 \<le> v_startAt o'" "v_startAt o' < 3"
    "v_sync o' = None"
  shows "alone 0 (demoPage o') (demoSlider o')"
  using assms demo_slider_ok by (simp add: alone_def)

lemma demo_page_ok:
  assumes "v_itemWidth o' \<le> 0" "v_asNavFor o' = None" "0 \<le> v_startAt o'" "v_startAt o' < 3"
    "v_sync o' = None"
  shows "page_ok (\<lambda>_. 0) (demoPage o')"
  using assms demo_slider_ok by (auto simp: page_ok_def demoPage_def split: if_splits)

section \<open>Properties\<close>



text \<open>
  A plain slider whose first slide exists starts without an error and satisfies the
  invariant, whatever its other options, joining the sliders already on the page.
\<close>

theorem slider_starts_ok:
  assumes "page_ok r p" "sliders p i = None" "v_itemWidth o' \<le> 0" "v_asNavFor o' = None"
    "v_sync o' = None" "0 \<le> v_startAt o'" "v_startAt o' < c"
  shows "\<exists>q. init (Suc n) i (newSlider o' wd ht pd vis tch c3 c) p = Inr q \<and> page_ok r q"
proof -
  let ?s = "newSlider o' wd ht pd vis tch c3 c"
  have "\<not> carousel ?s" "\<not> asNav ?s" "opts ?s = o'"
    using assms(3,4) by (simp_all add: newSlider_def carousel_def asNav_def)
  with initSelf_plain obtain s where s: "initSelf ?s = Inr s" "frame s = frame (measured ?s)"
    "motion s = motion (measured ?s)" by blast
  have ok: "slider_ok s" by (rule new_slider_ok [OF assms(3,4,6,7) s(2,3)])
  have sync: "v_sync (opts s) = None"
    using s(2) assms(5) \<open>opts ?s = o'\<close> by (simp add: frame_iff)
  have add: "page_ok r (putSlider i s' p)" if "frame s' = frame s" "motion s' = motion s" for s'
    by (rule page_ok_add [OF assms(1,2), of s'])
      (use ok sync slider_ok_cong [OF that] that(1) in \<open>auto simp: frame_iff\<close>)
  have here: "sliders (putSlider i s p) i = Some s" by simp
  note played = keeps_ok [OF playSelf_keeps [OF add [OF refl refl] here]]
  show ?thesis
    using s(1) add [of "s\<lparr>playDue := True\<rparr>"] add [of s] sync played
    by (simp add: init_def frame_def motion_def)
qed

theorem slider_starts_ok_witness:
  "\<exists>q. init (Suc 0) 0 (newSlider defaults 960 (\<lambda>_. 400) 0 True False True 4)
      \<lparr>sliders = Map.empty, timers = [], nextTimer = 0\<rparr> = Inr q \<and> page_ok (\<lambda>_. 0) q"
  by (rule slider_starts_ok) (simp_all add: page_ok_def)

text \<open>
  C23: When a sliding slider goes to any of its slides, over either end or not, in either
  direction, looping or not, reversed or not, then once the transition has ended it is at
  rest on that slide and its container stands exactly at that slide's own position: the
  jump over the cloned slides ends where the real slide is.
\<close>

theorem animation_lands_on_slide:
  assumes "alone i p s" "\<not> v_fade (opts s)" "geo_ok s" "0 \<le> k" "k < count s"
    "canAdvance s k False"
  shows "\<exists>q s'. handle_all (Suc (Suc n)) [Command i (GoTo k), TransitionEnd i] p = Inr q \<and>
    sliders q i = Some s' \<and> currentSlide s' = k \<and> \<not> animating s' \<and>
    position s' = - homeOffset s k"
proof -
  obtain q where q: "res_bind (flexAnimate (Suc (Suc n)) i k True False False False p)
        (handle (Suc (Suc n)) (TransitionEnd i)) = Inr q"
    "sliders q = (sliders p)(i \<mapsto> settled k True s)"
    using animate_settles [OF assms(1,4-6), of n True] by (elim exE conjE) (rule that)
  have a: "alone i q (settled k True s)" "currentSlide (settled k True s) = k"
    using settled_alone(1,3) [OF assms(1,4,5), of q True] q(2) by simp_all
  have "handle_all (Suc (Suc n)) [Command i (GoTo k), TransitionEnd i] p = Inr q"
    using q(1) by (cases "flexAnimate (Suc (Suc n)) i k True False False False p")
      (simp_all add: command_def del: flexAnimate.simps)
  moreover have "position (settled k True s) = - homeOffset s k"
  proof -
    let ?s = "prepared k True s"
    have g: "geo ?s = geo s" "opts ?s = opts s" "frame ?s = frame s" by simp_all
    have "slider_ok ?s" using prepared_ok assms(1,4,5) by (simp add: alone_def)
    moreover have "geo_ok ?s" "animatingTo ?s = k" "atEnd ?s = (k = 0 \<or> k = last ?s)"
      using assms(3) g(1) prepared_simps(2) [of k True s] frame_fields(3) [OF g(3)]
      by (simp_all add: geo_ok_def geo_def motion_def)
    ultimately have "position (transitionEnd (slideTo k ?s)) = - homeOffset ?s k"
      using assms(2) by (intro lands_home) simp_all
    moreover have "homeOffset ?s k = homeOffset s k"
      using g(1) frame_fields(2) [OF g(3)] by (simp add: homeOffset_def dimension_of_def geo_def)
    ultimately show ?thesis using assms(2) by (simp add: settled_def moveTo_def)
  qed
  ultimately show ?thesis using a q(2) by (auto simp: alone_def simp del: handle_all.simps)
qed

theorem animation_lands_on_slide_witness:
  "\<exists>q s'. handle_all (Suc (Suc 0)) [Command 0 (GoTo 2), TransitionEnd 0] (demoPage slideOpts) = Inr q \<and>
    sliders q 0 = Some s' \<and> currentSlide s' = 2 \<and> \<not> animating s' \<and>
    position s' = - homeOffset (demoSlider slideOpts) 2"
  by (rule animation_lands_on_slide)
    (simp_all add: demo_alone slideOpts_def geo_ok_def canAdvance_def asNav_def)

text \<open>Which of \<open>slider.slides\<close> is in view.\<close>

definition mirrored :: "slider \<Rightarrow> bool" where
  "mirrored s \<longleftrightarrow> v_reverse (opts s) \<and> \<not> v_fade (opts s)"

definition inView :: "slider \<Rightarrow> int" where
  "inView s = (if mirrored s then count s - 1 - currentSlide s else currentSlide s)"



text \<open>
  C24: The automatic slideshow of a looping slider shows the slides in turn: after \<open>m\<close>
  rounds of interval tick and end of transition it is at rest on slide
  \<open>(start + m) mod count\<close>, and its interval is still running.
\<close>

theorem slideshow_cycles:
  assumes "alone i p s" "map_of (timers p) t = Some i" "v_animationLoop (opts s)"
  shows "\<exists>q s'. handle_all (Suc (Suc n)) (rounds t i m) p = Inr q \<and> sliders q i = Some s' \<and>
    \<not> animating s' \<and> currentSlide s' = (currentSlide s + int m) mod count s \<and>
    map_of (timers q) t = Some i"
proof -
  have l: "looping i t p" "sliders p i = Some s" using assms by (simp_all add: looping_def alone_def)
  obtain q where q: "run_rounds (roundOf n i t) m p = Some q" "looping i t q"
    "slideAt i q = (slideAt i p + int m) mod slideCount i p"
    using v21.rounds_index [OF l(1), of n m] by blast
  obtain s' where "alone i q s'" "sliders q i = Some s'" "map_of (timers q) t = Some i"
    using q(2) by (rule loopingE)
  then show ?thesis using rounds_run [OF q(1)] q(3) l(2)
    by (intro exI [of _ q] exI [of _ s']) (simp add: slideAt_def slideCount_def alone_def)
qed

theorem slideshow_cycles_witness:
  "\<exists>q s'. handle_all (Suc (Suc 0)) (rounds 0 0 7) (demoPage defaults) = Inr q \<and>
    sliders q 0 = Some s' \<and> \<not> animating s' \<and>
    currentSlide s' = (currentSlide (demoSlider defaults) + int 7) mod count (demoSlider defaults) \<and>
    map_of (timers q) 0 = Some 0"
  by (rule slideshow_cycles) (simp_all add: demo_alone)

text \<open>
  C25: The slideshow of a slider that does not loop runs to the last slide and stops there:
  after as many rounds as slides are left, it is at rest on the last slide, no longer
  playing, and its interval is cleared.
\<close>

theorem slideshow_stops_at_last:
  assumes "alone i p s" "map_of (timers p) t = Some i" "\<not> v_animationLoop (opts s)"
    "animatedSlides s = Some t" "currentSlide s + int (Suc m) = last s"
  shows "\<exists>q s'. handle_all (Suc (Suc n)) (rounds t i (Suc m)) p = Inr q \<and> sliders q i = Some s' \<and>
    \<not> animating s' \<and> currentSlide s' = last s' \<and> \<not> playing s' \<and> map_of (timers q) t = None"
proof -
  obtain q s' where "handle_all (Suc (Suc n)) (rounds t i (Suc m)) p = Inr q" "alone i q s'"
    "currentSlide s' = last s'" "\<not> playing s'" "map_of (timers q) t = None"
    using stopping_rounds [OF assms, of n] by blast
  then show ?thesis by (intro exI [of _ q] exI [of _ s']) (simp add: alone_def)
qed

theorem slideshow_stops_at_last_witness:
  "\<exists>q s'. handle_all (Suc (Suc 0)) (rounds 0 0 (Suc 1)) (demoPage (slideOpts\<lparr>v_animationLoop := False\<rparr>))
      = Inr q \<and> sliders q 0 = Some s' \<and>
    \<not> animating s' \<and> currentSlide s' = last s' \<and> \<not> playing s' \<and> map_of (timers q) 0 = None"
  by (rule slideshow_stops_at_last [where s = "demoSlider (slideOpts\<lparr>v_animationLoop := False\<rparr>)"])
    (simp_all add: demo_alone slideOpts_def)

text \<open>
  Two sliders that name each other in \<open>sync\<close> overflow the stack as soon as one of them
  is paused, however deep the stack: \<open>methods.sync("pause")\<close> has no guard, unlike the one
  for \<open>"play"\<close>.
\<close>

theorem mutual_sync_overflows:
  assumes "sliders p i = Some s" "sliders p j = Some t"
    "v_sync (opts s) = Some j" "v_sync (opts t) = Some i"
  shows "pause n i p = Inl RangeError"
proof -
  have "\<And>p i j s t. sliders p i = Some s \<Longrightarrow> sliders p j = Some t \<Longrightarrow> v_sync (opts s) = Some j \<Longrightarrow>
      v_sync (opts t) = Some i \<Longrightarrow> pause n i p = Inl RangeError"
  proof (induction n)
    case (Suc n p i j s t)
    let ?q = "pauseSelf i s p"
    have i: "sliders ?q i = Some (quiet s)" by (simp add: pauseSelf_eq)
    have "\<exists>t'. sliders ?q j = Some t' \<and> v_sync (opts t') = Some i"
      using Suc.prems by (cases "j = i") (simp_all add: pauseSelf_eq)
    then obtain t' where "sliders ?q j = Some t'" "v_sync (opts t') = Some i" by blast
    with Suc.IH [of ?q j t' i "quiet s"] i Suc.prems show ?case by simp
  qed simp
  then show ?thesis using assms by blast
qed

definition twoSliders :: page where
  "twoSliders = \<lparr>sliders = [0 \<mapsto> demoSlider (defaults\<lparr>v_sync := Some 1\<rparr>),
     1 \<mapsto> demoSlider (defaults\<lparr>v_sync := Some 0\<rparr>)], timers = [], nextTimer = 0\<rparr>"

theorem mutual_sync_overflows_witness: "pause 10000 0 twoSliders = Inl RangeError"
  by (rule mutual_sync_overflows [where i = 0 and j = 1 and
      s = "demoSlider (defaults\<lparr>v_sync := Some 1\<rparr>)" and
      t = "demoSlider (defaults\<lparr>v_sync := Some 0\<rparr>)"]) (simp_all add: twoSliders_def)

text \<open>
  \<open>play\<close> does not clear the interval it replaces: after playing twice, one pause leaves
  the first interval running, so the slideshow of a paused slider goes on.
\<close>

theorem play_twice_leaks_interval:
  assumes "sliders p i = Some s" "v_sync (opts s) = None"
  shows "\<exists>q s'. handle_all (Suc n) [Command i PlayCmd, Command i PlayCmd, Command i PauseCmd] p = Inr q \<and>
    sliders q i = Some s' \<and> \<not> playing s' \<and> (nextTimer p, i) \<in> set (timers q)"
proof -
  have play: "play (Suc n) i p = Inr (playSelf i s p)"
    if "sliders p i = Some s" "v_sync (opts s) = None" for p s
    using that by simp
  have self: "\<exists>s'. sliders (playSelf i s p) i = Some s' \<and> v_sync (opts s') = v_sync (opts s) \<and>
      animatedSlides s' = Some (nextTimer p) \<and> nextTimer (playSelf i s p) = nextTimer p + 1 \<and>
      timers (playSelf i s p) = timers p @ [(nextTimer p, i)]" for p s
    by (simp add: playSelf_def setInterval_def pausePlay_update_def Let_def)
  obtain s1 where s1: "sliders (playSelf i s p) i = Some s1" "v_sync (opts s1) = None"
    "nextTimer (playSelf i s p) = nextTimer p + 1"
    "timers (playSelf i s p) = timers p @ [(nextTimer p, i)]"
    using self [of s p] assms(2) by auto
  let ?p = "playSelf i s1 (playSelf i s p)"
  obtain s2 where s2: "sliders ?p i = Some s2" "v_sync (opts s2) = None"
    "animatedSlides s2 = Some (nextTimer p + 1)"
    "timers ?p = timers p @ [(nextTimer p, i), (nextTimer p + 1, i)]"
    using self [of s1 "playSelf i s p"] s1 by auto
  have "handle_all (Suc n) [Command i PlayCmd, Command i PlayCmd, Command i PauseCmd] p
      = Inr (pauseSelf i s2 ?p)"
    using play [OF assms] play [OF s1(1,2)] pause_alone [OF s2(1,2)]
    by (simp add: command_def del: play.simps pause.simps)
  moreover have "sliders (pauseSelf i s2 ?p) i = Some (quiet s2)"
    "(nextTimer p, i) \<in> set (timers (pauseSelf i s2 ?p))"
    using s2(3,4) by (simp_all add: pauseSelf_eq timers_clearInterval)
  ultimately show ?thesis by (intro exI conjI) (assumption, assumption, simp_all)
qed

theorem play_twice_leaks_interval_witness:
  "\<exists>q s'. handle_all (Suc 0) [Command 0 PlayCmd, Command 0 PlayCmd, Command 0 PauseCmd]
      (demoPage defaults) = Inr q \<and> sliders q 0 = Some s' \<and> \<not> playing s' \<and>
    (nextTimer (demoPage defaults), 0) \<in> set (timers q)"
  by (rule play_twice_leaks_interval [where s = "demoSlider defaults"]) simp_all

text \<open>
  \<open>update\<close> moves the current slide the wrong way when an earlier slide is removed:
  removing any slide before the current one, while the last is shown, leaves the current
  slide two past the last.
\<close>

theorem removeSlide_runs_past_end:
  assumes "\<not> carousel s" "\<not> v_controlNav (opts s)" "0 \<le> k" "k < currentSlide s"
    "currentSlide s = last s" "last s = count s - 1"
  shows "\<exists>s'. removeSlide (Suc n) k s = Inr s' \<and> last s' = count s' - 1 \<and> count s' = count s - 1 \<and>
    currentSlide s' = last s' + 2"
proof -
  let ?s = "measured (s\<lparr>count := count s - 1, last := count s - 2\<rparr>)"
  let ?u = "(measured ?s)\<lparr>currentSlide := currentSlide s + 1, animatingTo := currentSlide s + 1\<rparr>"
  let ?v = "if v_directionNav (opts s) then directionNav_update ?u else ?u"
  have c: "\<not> carousel (s\<lparr>count := count s - 1, last := count s - 2\<rparr>)" "\<not> carousel ?s"
    using assms(1) by (simp_all add: carousel_def)
  have "currentSlide ?s = currentSlide s" by (simp add: measured_def)
  then have "update (Suc n) (Some k) RemoveAction ?s = Inr ?v"
    using c(2) assms(2,4) by (simp add: doMath_plain updateCurrent_def Let_def carousel_def measured_def)
  then have r: "removeSlide (Suc n) k s = Inr (let t = setupSlider False (?v\<lparr>slidesLength := count ?v\<rparr>)
      in t\<lparr>callbacks := callbacks t @ [Removed]\<rparr>)"
    by (simp add: removeSlide_def doMath_plain [OF c(1)] Let_def del: update.simps)
  have "last (t\<lparr>callbacks := x\<rparr>) = last t \<and> count (t\<lparr>callbacks := x\<rparr>) = count t \<and>
      currentSlide (t\<lparr>callbacks := x\<rparr>) = currentSlide t" for t x by simp
  moreover have "last (setupSlider False t) = last t" "count (setupSlider False t) = count t"
    "currentSlide (setupSlider False t) = currentSlide t" for t
    using setupSlider_frame [of False t] by (simp_all add: frame_iff motion_iff)
  moreover have "last ?v = count s - 2" "count ?v = count s - 1" "currentSlide ?v = currentSlide s + 1"
    by (simp_all add: measured_def directionNav_update_def)
  ultimately show ?thesis unfolding r using assms(5,6) by (simp add: Let_def)
qed

theorem removeSlide_runs_past_end_witness:
  "\<exists>s'. removeSlide (Suc 0) 0 (demoSlider (defaults\<lparr>v_controlNav := False, v_startAt := 2\<rparr>)) = Inr s' \<and>
    last s' = count s' - 1 \<and>
    count s' = count (demoSlider (defaults\<lparr>v_controlNav := False, v_startAt := 2\<rparr>)) - 1 \<and>
    currentSlide s' = last s' + 2"
  by (rule removeSlide_runs_past_end) (simp_all add: carousel_def)

text \<open>
  The pause/play button of a slider that does not start playing shows "pause":
  \<open>pausePlay.setup\<close> passes the prefixed class where \<open>pausePlay.update\<close> expects the bare
  word \<open>"play"\<close>. (Only an empty namespace avoids it.)
\<close>

theorem stopped_slider_shows_pause:
  assumes "v_itemWidth o' \<le> 0" "v_asNavFor o' = None" "v_pausePlay o'" "\<not> v_slideshow o'"
    "v_namespace o' \<noteq> []"
  shows "\<exists>q s. init n i (newSlider o' wd ht pd vis tch c3 c) p = Inr q \<and> sliders q i = Some s \<and>
    \<not> playing s \<and> pausePlay s = PauseButton"
proof -
  let ?s = "newSlider o' wd ht pd vis tch c3 c"
  have pl: "\<not> carousel ?s" "\<not> asNav ?s" "opts ?s = o'" "\<not> playing ?s"
    using assms(1,2) by (simp_all add: newSlider_def carousel_def asNav_def)
  have keep: "playing (measured s) = playing s" "playing (setupSlider b s) = playing s"
    "playing (controlNav_setup s) = playing s" "playing (directionNav_update s) = playing s"
    "opts (setupSlider b s) = opts s" "opts (controlNav_setup s) = opts s"
    "opts (directionNav_update s) = opts s" for b s
    by (simp_all add: measured_def setupSlider_def setProps_def controlNav_setup_def
        controlNav_active_def directionNav_update_def Let_def)
  have ne: "v_namespace o' @ ''play'' \<noteq> ''play''" using assms(5) by simp
  have "\<exists>s. initSelf ?s = Inr s \<and> \<not> playing s \<and> pausePlay s = PauseButton \<and> opts s = o'"
    using pl assms(3,4) ne keep
    by (simp add: initSelf_def doMath_plain Let_def pausePlay_setup_def pausePlay_update_def)
  then show ?thesis using assms(4) by (auto simp: init_def)
qed

theorem stopped_slider_shows_pause_witness:
  "\<exists>q s. init 1 0 (newSlider (defaults\<lparr>v_pausePlay := True, v_slideshow := False\<rparr>)
      960 (\<lambda>_. 400) 0 True False True 4) (demoPage defaults) = Inr q \<and> sliders q 0 = Some s \<and>
    \<not> playing s \<and> pausePlay s = PauseButton"
  by (rule stopped_slider_shows_pause) simp_all

text \<open>
  C29: For a carousel wide enough for one item and its margin, without item limits,
  \<open>doMath\<close> succeeds: at least one item is visible, every page step moves between one item
  and all visible items, and the pages reach the last item.
\<close>

theorem carousel_pages_cover:
  assumes "0 < v_itemWidth (opts s)" "0 \<le> v_itemMargin (opts s)" "v_minItems (opts s) = 0"
    "v_maxItems (opts s) = 0" "v_itemWidth (opts s) + v_itemMargin (opts s) \<le> b_width s"
  shows "\<exists>s'. doMath s = Inr s' \<and> 1 \<le> visible s' \<and> 1 \<le> move s' \<and> move s' \<le> visible s' \<and>
    real_of_int (visible s') * (itemW s' + v_itemMargin (opts s)) \<le> w s' \<and>
    count s \<le> last s' * move s' + visible s'"
proof -
  let ?o = "opts s"
  define iw where "iw = v_itemWidth ?o + v_itemMargin ?o"
  define vis where "vis = \<lfloor>b_width s / iw\<rfloor>"
  define mv where "mv = (if 0 < v_move ?o \<and> v_move ?o < vis then v_move ?o else vis)"
  define pc where "pc = \<lceil>real_of_int (count s - vis) / real_of_int mv + 1\<rceil>"
  have iw: "0 < iw" "iw \<le> b_width s" using assms by (simp_all add: iw_def)
  then have "1 \<le> b_width s / iw" by simp
  then have vis: "1 \<le> vis" unfolding vis_def by linarith
  have mv: "1 \<le> mv" "mv \<le> vis" using vis by (auto simp: mv_def)
  have "real_of_int vis \<le> b_width s / iw" unfolding vis_def by linarith
  then have fits: "real_of_int vis * iw \<le> b_width s" using iw(1) by (simp add: field_simps)
  have "real_of_int (count s - vis) / real_of_int mv \<le> real_of_int (pc - 1)"
    unfolding pc_def by linarith
  then have "real_of_int (count s - vis) \<le> real_of_int (pc - 1) * real_of_int mv"
    using mv(1) by (simp add: pos_divide_le_eq)
  then have "real_of_int (count s - vis) \<le> real_of_int ((pc - 1) * mv)" by simp
  then have "count s - vis \<le> (pc - 1) * mv" by (simp only: of_int_le_iff)
  then have reach: "count s \<le> (pc - 1) * mv + vis" by linarith
  have nw: "\<not> b_width s < v_itemWidth ?o" using assms(2,5) by simp
  have pc: "\<lceil>(real_of_int (count s) - real_of_int vis) / real_of_int mv\<rceil> = pc - 1"
    by (simp add: pc_def)
  have "\<exists>s'. doMath s = Inr s' \<and> visible s' = vis \<and> move s' = mv \<and> last s' = pc - 1 \<and>
      itemW s' = v_itemWidth ?o \<and> w s' = b_width s"
    using assms(1,3,4) nw iw(1) mv(1) unfolding doMath_def
    by (simp add: carousel_def Let_def pc flip: iw_def vis_def mv_def)
  then show ?thesis using vis mv fits reach unfolding iw_def by auto
qed

definition carouselOpts :: vars where
  "carouselOpts = defaults\<lparr>v_fade := False, v_itemWidth := 200, v_itemMargin := 10\<rparr>"

theorem carousel_pages_cover_witness:
  "\<exists>s'. doMath (demoSlider carouselOpts) = Inr s' \<and> 1 \<le> visible s' \<and> 1 \<le> move s' \<and>
    move s' \<le> visible s' \<and>
    real_of_int (visible s') * (itemW s' + v_itemMargin (opts (demoSlider carouselOpts))) \<le> w s' \<and>
    count (demoSlider carouselOpts) \<le> last s' * move s' + visible s'"
  by (rule carousel_pages_cover)
    (simp_all add: carouselOpts_def, simp add: demoSlider_def measured_def newSlider_def)

text \<open>
  In a carousel that has room for an item but not for its margin, no item counts as
  visible and the number of pages is a division by zero: \<open>Infinity\<close>, over which the loop
  that builds the paging controls never ends.
\<close>

theorem narrow_carousel_not_finite:
  assumes "0 < v_itemWidth (opts s)" "v_minItems (opts s) = 0" "v_maxItems (opts s) = 0"
    "v_itemWidth (opts s) \<le> b_width s"
    "b_width s < v_itemWidth (opts s) + v_itemMargin (opts s)"
  shows "doMath s = Inl NotFinite"
proof -
  let ?o = "opts s"
  have "\<lfloor>b_width s / (v_itemWidth ?o + v_itemMargin ?o)\<rfloor> = 0"
    using assms by (simp add: floor_eq_iff)
  then show ?thesis using assms by (simp add: doMath_def carousel_def Let_def)
qed

theorem narrow_carousel_not_finite_witness:
  "doMath (newSlider carouselOpts 205 (\<lambda>_. 100) 0 True False False 5) = Inl NotFinite"
  by (rule narrow_carousel_not_finite) (simp_all add: carouselOpts_def newSlider_def)

end
