(* ===== verification/FlexSlider18.thy ===== *)
theory FlexSlider18
  imports FlexSlider
begin

text \<open>
  The older copy of the slider plugin, \<open>public/js/flexslider/jquery.flexslider.js\<close> (v1.8), with
  the call in \<open>public/js/flexslider/setting.js\<close>. Its sliders do not know each other, so the state
  is that of one slider with the interval timers it has started.

  The options are a record; \<open>animation\<close> stays a string because the source compares it once with
  \<open>toLowerCase\<close> and once without. What the browser reports (sizes, visibility, touch and
  \<open>webkitTransition\<close>) is in the fields \<open>b8_*\<close>. Offsets are the numbers before \<open>px\<close>. Callbacks of the
  user are recorded; \<open>randomize\<close>, where controls are appended and their texts are left out.
  A control that \<open>manualControls\<close> found is one of \<open>controlNavLength8\<close> numbered elements.
\<close>

section \<open>Data\<close>

datatype callback18 = Start8 | Before8 | After8 | End8

record vars18 =
  animation8 :: string
  slideVertical8 :: bool        \<comment> \<open>\<open>slideDirection == "vertical"\<close>\<close>
  slideshow8 :: bool
  directionNav8 :: bool
  controlNav8 :: bool
  keyboardNav8 :: bool
  mousewheel8 :: bool
  pausePlay8 :: bool
  slideToStart8 :: int
  animationLoop8 :: bool
  pauseOnAction8 :: bool
  pauseOnHover8 :: bool
  useCSS8 :: bool
  touch8 :: bool
  manualControls8 :: int        \<comment> \<open>how many elements the selector finds, 0 for none\<close>

definition defaults18 :: vars18 where
  "defaults18 = \<lparr>animation8 = ''slide'', slideVertical8 = False, slideshow8 = True,
     directionNav8 = False, controlNav8 = True, keyboardNav8 = True, mousewheel8 = False,
     pausePlay8 = False, slideToStart8 = 0, animationLoop8 = True, pauseOnAction8 = True,
     pauseOnHover8 = False, useCSS8 = True, touch8 = True, manualControls8 = 0\<rparr>"

record slider18 =
  opts8 :: vars18
  b8_width :: real              \<comment> \<open>\<open>slider.width()\<close>\<close>
  b8_slideHeight :: real        \<comment> \<open>height of the first slide\<close>
  b8_visible :: bool
  b8_touch :: bool
  b8_webkit :: bool
  b8_only :: bool               \<comment> \<open>\<open>$('ul.slides').length == 1\<close>\<close>
  count8 :: int
  animating8 :: bool
  currentSlide8 :: int
  animatingTo8 :: int
  atEnd8 :: bool
  direction8 :: "direction option"
  cloneCount8 :: int
  cloneOffset8 :: int
  manualPause8 :: bool
  transitions8 :: bool
  height8 :: real               \<comment> \<open>\<open>slider.height()\<close>\<close>
  slideWidth8 :: real           \<comment> \<open>width of the slides\<close>
  position8 :: real             \<comment> \<open>the offset in \<open>slider.args\<close>\<close>
  shown8 :: "int set"           \<comment> \<open>fade: the slides faded in\<close>
  controlNavLength8 :: int
  controlActive8 :: "int option"
  prevDisabled8 :: bool
  nextDisabled8 :: bool
  playButton8 :: button
  animatedSlides8 :: "nat option"
  timers8 :: "nat list"         \<comment> \<open>live intervals of \<open>animateSlides\<close>\<close>
  nextTimer8 :: nat
  wrapups8 :: "real list"       \<comment> \<open>completions that will call \<open>wrapup\<close>, with its dimension\<close>
  resizing8 :: "int option"     \<comment> \<open>the timeout of the set-up, with its \<open>sliderOffset\<close>\<close>
  touchState8 :: touchSession
  callbacks8 :: "callback18 list"

definition lowerCase :: "string \<Rightarrow> string" where
  "lowerCase s = map (\<lambda>c. let n = of_char c :: nat in if 65 \<le> n \<and> n \<le> 90 then char_of (n + 32) else c) s"

definition slides8 :: "slider18 \<Rightarrow> bool" where
  "slides8 s \<longleftrightarrow> lowerCase (animation8 (opts8 s)) = ''slide''"

section \<open>The slideshow\<close>

definition pause18 :: "slider18 \<Rightarrow> slider18" where
  "pause18 s =
     (let s1 = s\<lparr>timers8 := filter (\<lambda>t. Some t \<noteq> animatedSlides8 s) (timers8 s)\<rparr>
      in if pausePlay8 (opts8 s1) then s1\<lparr>playButton8 := PlayButton\<rparr> else s1)"

text \<open>The interval that the set-up and \<open>resume\<close> start.\<close>

definition startInterval :: "slider18 \<Rightarrow> slider18" where
  "startInterval s = s\<lparr>animatedSlides8 := Some (nextTimer8 s), timers8 := timers8 s @ [nextTimer8 s],
     nextTimer8 := nextTimer8 s + 1\<rparr>"

definition resume18 :: "slider18 \<Rightarrow> slider18" where
  "resume18 s =
     (let s1 = startInterval s
      in if pausePlay8 (opts8 s1) then s1\<lparr>playButton8 := PauseButton\<rparr> else s1)"

definition canAdvance18 :: "slider18 \<Rightarrow> int \<Rightarrow> bool" where
  "canAdvance18 s target =
     (if \<not> animationLoop8 (opts8 s) \<and> atEnd8 s then
        if currentSlide8 s = 0 \<and> target = count8 s - 1 \<and> direction8 s \<noteq> Some Next then False
        else if currentSlide8 s = count8 s - 1 \<and> target = 0 \<and> direction8 s = Some Next then False
        else True
      else True)"

definition target18 :: "direction \<Rightarrow> slider18 \<Rightarrow> int" where
  "target18 dir s =
     (if dir = Next then if currentSlide8 s = count8 s - 1 then 0 else currentSlide8 s + 1
      else if currentSlide8 s = 0 then count8 s - 1 else currentSlide8 s - 1)"

definition getTarget18 :: "direction \<Rightarrow> slider18 \<Rightarrow> int \<times> slider18" where
  "getTarget18 dir s = (target18 dir s, s\<lparr>direction8 := Some dir\<rparr>)"

section \<open>The animation\<close>

definition dimension18 :: "slider18 \<Rightarrow> real" where
  "dimension18 s = (if slideVertical8 (opts8 s) then b8_slideHeight s else slideWidth8 s)"

definition slideString18 :: "slider18 \<Rightarrow> int \<Rightarrow> real \<Rightarrow> real" where
  "slideString18 s target dimension =
     (if currentSlide8 s = 0 \<and> target = count8 s - 1 \<and> animationLoop8 (opts8 s)
        \<and> direction8 s \<noteq> Some Next then 0
      else if currentSlide8 s = count8 s - 1 \<and> target = 0 \<and> animationLoop8 (opts8 s)
        \<and> direction8 s \<noteq> Some Prev then - real_of_int (count8 s + 1) * dimension
      else - real_of_int (target + cloneOffset8 s) * dimension)"

text \<open>The control and direction navigation when an animation starts.\<close>

definition markTarget18 :: "int \<Rightarrow> slider18 \<Rightarrow> slider18" where
  "markTarget18 target s0 =
     (let s1 = (if controlNav8 (opts8 s0)
                then s0\<lparr>controlActive8 := eqIndex (controlNavLength8 s0) target\<rparr> else s0);
          s2 = s1\<lparr>atEnd8 := (target = 0 \<or> target = count8 s1 - 1)\<rparr>
      in if \<not> animationLoop8 (opts8 s2) \<and> directionNav8 (opts8 s2) then
           if target = 0 then s2\<lparr>prevDisabled8 := True, nextDisabled8 := False\<rparr>
           else if target = count8 s2 - 1 then s2\<lparr>prevDisabled8 := False, nextDisabled8 := True\<rparr>
           else s2\<lparr>prevDisabled8 := False, nextDisabled8 := False\<rparr>
         else s2)"

text \<open>
  The container or the slides are set in motion; \<open>wrapup\<close> is to be called at the end. An empty
  set of slides fades without a completion.
\<close>

definition setInMotion :: "int \<Rightarrow> slider18 \<Rightarrow> slider18" where
  "setInMotion target s =
     (if slides8 s then
        let dimension = dimension18 s
        in s\<lparr>position8 := slideString18 s target dimension, wrapups8 := wrapups8 s @ [dimension]\<rparr>
      else let s1 = s\<lparr>shown8 := shown8 s - set_option (eqIndex (count8 s) (currentSlide8 s))\<rparr>
        in case eqIndex (count8 s1) target of
             None \<Rightarrow> s1
           | Some k \<Rightarrow> s1\<lparr>shown8 := insert k (shown8 s1), wrapups8 := wrapups8 s1 @ [0]\<rparr>)"

definition flexAnimate18 :: "int \<Rightarrow> bool \<Rightarrow> slider18 \<Rightarrow> slider18" where
  "flexAnimate18 target pauseIt s0 =
     (if \<not> animating8 s0 \<and> b8_visible s0 then
        let s1 = s0\<lparr>animating8 := True, animatingTo8 := target, callbacks8 := callbacks8 s0 @ [Before8]\<rparr>;
            s2 = (if pauseIt then pause18 s1 else s1);
            s3 = markTarget18 target s2;
            s4 = (if \<not> animationLoop8 (opts8 s3) \<and> target = count8 s3 - 1
                  then let s = pause18 s3 in s\<lparr>callbacks8 := callbacks8 s @ [End8]\<rparr>
                  else s3)
        in setInMotion target s4
      else s0)"

definition wrapup18 :: "real \<Rightarrow> slider18 \<Rightarrow> slider18" where
  "wrapup18 dimension s =
     (let s1 = (if animation8 (opts8 s) = ''slide'' then
                  if currentSlide8 s = 0 \<and> animatingTo8 s = count8 s - 1 \<and> animationLoop8 (opts8 s)
                  then s\<lparr>position8 := - real_of_int (count8 s) * dimension\<rparr>
                  else if currentSlide8 s = count8 s - 1 \<and> animatingTo8 s = 0 \<and> animationLoop8 (opts8 s)
                  then s\<lparr>position8 := - dimension\<rparr>
                  else s
                else s)
      in s1\<lparr>animating8 := False, currentSlide8 := animatingTo8 s1,
            callbacks8 := callbacks8 s1 @ [After8]\<rparr>)"

text \<open>
  The end of an animation. With CSS transitions it is one event, which runs all the handlers that
  \<open>one\<close> has bound; otherwise each animation has a completion of its own.
\<close>

definition animationDone :: "slider18 \<Rightarrow> slider18" where
  "animationDone s =
     (if transitions8 s then fold wrapup18 (wrapups8 s) (s\<lparr>wrapups8 := []\<rparr>)
      else case wrapups8 s of [] \<Rightarrow> s | d # ds \<Rightarrow> wrapup18 d (s\<lparr>wrapups8 := ds\<rparr>))"

definition animateSlides18 :: "slider18 \<Rightarrow> slider18" where
  "animateSlides18 s =
     (if \<not> animating8 s then case getTarget18 Next s of (target, s1) \<Rightarrow> flexAnimate18 target False s1
      else s)"

section \<open>Setting up\<close>

text \<open>The slider before \<open>init\<close> has set anything up.\<close>

definition newSlider18 :: "vars18 \<Rightarrow> real \<Rightarrow> real \<Rightarrow> real \<Rightarrow> bool \<Rightarrow> bool \<Rightarrow> bool \<Rightarrow> bool \<Rightarrow> int \<Rightarrow> slider18" where
  "newSlider18 v width height slideW vis touchDevice webkit only n =
     \<lparr>opts8 = v, b8_width = width, b8_slideHeight = height, b8_visible = vis, b8_touch = touchDevice,
      b8_webkit = webkit, b8_only = only, count8 = n, animating8 = False,
      currentSlide8 = slideToStart8 v, animatingTo8 = slideToStart8 v, atEnd8 = (slideToStart8 v = 0),
      direction8 = None, cloneCount8 = 0, cloneOffset8 = 0, manualPause8 = False,
      transitions8 = (webkit \<and> useCSS8 v), height8 = 0, slideWidth8 = slideW, position8 = 0,
      shown8 = {}, controlNavLength8 = 0, controlActive8 = None, prevDisabled8 = False,
      nextDisabled8 = False, playButton8 = PauseButton, animatedSlides8 = None, timers8 = [],
      nextTimer8 = 0, wrapups8 = [], resizing8 = None,
      touchState8 = \<lparr>t_startX = 0, t_startY = 0, t_offset = 0, t_cwidth = 0, t_dx = DxUndefined,
        t_startT = 0, t_scrolling = False, t_listening = False\<rparr>, callbacks8 = []\<rparr>"

definition setupAnimation :: "slider18 \<Rightarrow> slider18" where
  "setupAnimation s0 =
     (if slides8 s0 then
        let s = (if animationLoop8 (opts8 s0) then s0\<lparr>cloneCount8 := 2, cloneOffset8 := 1\<rparr> else s0);
            sliderOffset = - (currentSlide8 s + cloneOffset8 s);
            s = (if slideVertical8 (opts8 s) then s
                 else s\<lparr>position8 := real_of_int sliderOffset * b8_width s\<rparr>)
        in s\<lparr>resizing8 := Some sliderOffset\<rparr>
      else s0\<lparr>transitions8 := False, shown8 := set_option (eqIndex (count8 s0) (currentSlide8 s0))\<rparr>)"

definition setupControls :: "slider18 \<Rightarrow> slider18" where
  "setupControls s0 =
     (let s1 = (if controlNav8 (opts8 s0) then
                  let n = (if 0 < manualControls8 (opts8 s0) then manualControls8 (opts8 s0) else count8 s0)
                  in s0\<lparr>controlNavLength8 := n, controlActive8 := eqIndex n (currentSlide8 s0)\<rparr>
                else s0)
      in if directionNav8 (opts8 s1) \<and> \<not> animationLoop8 (opts8 s1) then
           if currentSlide8 s1 = 0 then s1\<lparr>prevDisabled8 := True\<rparr>
           else if currentSlide8 s1 = count8 s1 - 1 then s1\<lparr>nextDisabled8 := True\<rparr> else s1
         else s1)"

definition init18 :: "slider18 \<Rightarrow> slider18" where
  "init18 s0 =
     (let s1 = setupControls (setupAnimation s0);
          s2 = (if slideshow8 (opts8 s1) then startInterval s1 else s1);
          s3 = (if pausePlay8 (opts8 s2)
                then s2\<lparr>playButton8 := (if slideshow8 (opts8 s2) then PauseButton else PlayButton)\<rparr>
                else s2)
      in s3\<lparr>callbacks8 := callbacks8 s3 @ [Start8]\<rparr>)"

text \<open>The timeout after 100 ms.\<close>

definition setupTimeout18 :: "slider18 \<Rightarrow> slider18" where
  "setupTimeout18 s =
     (case resizing8 s of
        None \<Rightarrow> s
      | Some sliderOffset \<Rightarrow>
          if slideVertical8 (opts8 s)
          then s\<lparr>resizing8 := None, height8 := b8_slideHeight s,
                 position8 := real_of_int sliderOffset * b8_slideHeight s\<rparr>
          else s\<lparr>resizing8 := None, slideWidth8 := b8_width s\<rparr>)"

text \<open>The plugin function on one element: a single slide gets no slider.\<close>

definition plugin18 :: "slider18 option \<Rightarrow> slider18 \<Rightarrow> slider18 option" where
  "plugin18 existing s0 =
     (if count8 s0 = 1 then existing else if existing = None then Some (init18 s0) else existing)"

section \<open>Resizing and touch\<close>

definition resize18 :: "slider18 \<Rightarrow> slider18" where
  "resize18 s =
     (if slides8 s \<and> \<not> animating8 s \<and> b8_visible s then
        if slideVertical8 (opts8 s)
        then s\<lparr>height8 := b8_slideHeight s,
               position8 := - real_of_int (currentSlide8 s + cloneOffset8 s) * b8_slideHeight s\<rparr>
        else s\<lparr>slideWidth8 := b8_width s,
               position8 := - real_of_int (currentSlide8 s + cloneOffset8 s) * b8_width s\<rparr>
      else s)"

definition touchStart18 :: "nat \<Rightarrow> real \<Rightarrow> real \<Rightarrow> real \<Rightarrow> slider18 \<Rightarrow> slider18" where
  "touchStart18 touches pageX pageY now s0 =
     (if animating8 s0 then s0
      else if touches = 1 then
        let s = pause18 s0; vertical = slideVertical8 (opts8 s);
            cwidth = (if vertical then height8 s else b8_width s)
        in s\<lparr>touchState8 := (touchState8 s)\<lparr>t_cwidth := cwidth, t_startT := now,
             t_offset := real_of_int (currentSlide8 s + cloneOffset8 s) * cwidth,
             t_startX := (if vertical then pageY else pageX),
             t_startY := (if vertical then pageX else pageY), t_listening := True\<rparr>\<rparr>
      else s0)"

definition touchMove18 :: "real \<Rightarrow> real \<Rightarrow> slider18 \<Rightarrow> slider18" where
  "touchMove18 pageX pageY s =
     (let t = touchState8 s; vertical = slideVertical8 (opts8 s);
          d = t_startX t - (if vertical then pageY else pageX);
          scrolling = (\<bar>d\<bar> < \<bar>(if vertical then pageX else pageY) - t_startY t\<bar>);
          moving = (\<not> scrolling \<and> animation8 (opts8 s) = ''slide'' \<and> transitions8 s);
          d2 = (if moving \<and> \<not> animationLoop8 (opts8 s)
                  \<and> (currentSlide8 s = 0 \<and> d < 0 \<or> currentSlide8 s = count8 s - 1 \<and> d > 0)
                then (if t_cwidth t = 0 then 0 else d / (\<bar>d\<bar> / t_cwidth t + 2)) else d);
          s1 = s\<lparr>touchState8 := t\<lparr>t_scrolling := scrolling, t_dx := Dx d2\<rparr>\<rparr>
      in if moving then s1\<lparr>position8 := - t_offset t - d2\<rparr> else s1)"

definition touchEnd18 :: "real \<Rightarrow> slider18 \<Rightarrow> slider18" where
  "touchEnd18 now s0 =
     (let s = s0\<lparr>animating8 := False\<rparr>; t = touchState8 s;
          s1 = (case t_dx t of
              Dx d \<Rightarrow>
                if animatingTo8 s = currentSlide8 s \<and> \<not> t_scrolling t then
                  let (target, s) = getTarget18 (if d > 0 then Next else Prev) s
                  in if canAdvance18 s target \<and> now - t_startT t < 550 \<and> \<bar>d\<bar> > 20 \<or> \<bar>d\<bar> > t_cwidth t / 2
                     then flexAnimate18 target (pauseOnAction8 (opts8 s)) s
                     else if animation8 (opts8 s) \<noteq> ''fade''
                     then flexAnimate18 (currentSlide8 s) (pauseOnAction8 (opts8 s)) s
                     else s
                else s
            | _ \<Rightarrow> s)
      in s1\<lparr>touchState8 := (touchState8 s1)\<lparr>t_dx := DxNull, t_listening := False\<rparr>\<rparr>)"

section \<open>Events\<close>

definition advance18 :: "direction \<Rightarrow> slider18 \<Rightarrow> slider18" where
  "advance18 dir s =
     (case getTarget18 dir s of (target, s1) \<Rightarrow>
        if canAdvance18 s1 target then flexAnimate18 target (pauseOnAction8 (opts8 s1)) s1 else s1)"

definition clickControl18 :: "int \<Rightarrow> slider18 \<Rightarrow> slider18" where
  "clickControl18 k s =
     (if controlActive8 s \<noteq> Some k
      then flexAnimate18 k (pauseOnAction8 (opts8 s))
             (s\<lparr>direction8 := Some (if k > currentSlide8 s then Next else Prev)\<rparr>)
      else s)"

definition keyboardMove :: "nat \<Rightarrow> slider18 \<Rightarrow> slider18" where
  "keyboardMove keyCode s =
     (if animating8 s then s
      else if keyCode \<noteq> 39 \<and> keyCode \<noteq> 37 then s
      else advance18 (if keyCode = 39 then Next else Prev) s)"

definition clickPausePlay18 :: "slider18 \<Rightarrow> slider18" where
  "clickPausePlay18 s =
     (if playButton8 s = PauseButton then (pause18 s)\<lparr>manualPause8 := True\<rparr>
      else (resume18 s)\<lparr>manualPause8 := False\<rparr>)"

datatype event18 =
    ControlClick int
  | DirectionClick direction
  | Key nat
  | Wheel real
  | HoverEnter
  | HoverLeave
  | PausePlayClick
  | Tick nat
  | AnimationDone
  | SetupDue
  | Resized real real
  | TouchStarted nat real real real
  | TouchMoved real real
  | TouchEnded real

fun handle18 :: "event18 \<Rightarrow> slider18 \<Rightarrow> slider18" where
  "handle18 (ControlClick k) s = (if controlNav8 (opts8 s) then clickControl18 k s else s)"
| "handle18 (DirectionClick dir) s = (if directionNav8 (opts8 s) then advance18 dir s else s)"
| "handle18 (Key code) s = (if keyboardNav8 (opts8 s) \<and> b8_only s then keyboardMove code s else s)"
| "handle18 (Wheel delta) s =
     (if mousewheel8 (opts8 s) then advance18 (if delta < 0 then Next else Prev) s else s)"
| "handle18 HoverEnter s = (if slideshow8 (opts8 s) \<and> pauseOnHover8 (opts8 s) then pause18 s else s)"
| "handle18 HoverLeave s =
     (if slideshow8 (opts8 s) \<and> pauseOnHover8 (opts8 s) \<and> \<not> manualPause8 s then resume18 s else s)"
| "handle18 PausePlayClick s = (if pausePlay8 (opts8 s) then clickPausePlay18 s else s)"
| "handle18 (Tick t) s = (if t \<in> set (timers8 s) then animateSlides18 s else s)"
| "handle18 AnimationDone s = animationDone s"
| "handle18 SetupDue s = setupTimeout18 s"
| "handle18 (Resized width height) s = resize18 (s\<lparr>b8_width := width, b8_slideHeight := height\<rparr>)"
| "handle18 (TouchStarted touches x y now) s =
     (if b8_touch s \<and> touch8 (opts8 s) then touchStart18 touches x y now s else s)"
| "handle18 (TouchMoved x y) s = (if t_listening (touchState8 s) then touchMove18 x y s else s)"
| "handle18 (TouchEnded now) s = (if t_listening (touchState8 s) then touchEnd18 now s else s)"

end
