(* ===== verification/FlexSlider18_Correct.thy ===== *)
theory FlexSlider18_Correct
  imports FlexSlider18 Slideshow
begin

text \<open>
  The older slider: which fields its operations leave alone, the invariant every event keeps, where
  an animation ends, and its slideshow as an instance of the slideshow interface.
\<close>

section \<open>Frames\<close>

text \<open>What no operation changes, and what only the start and the end of an animation change.\<close>

definition frame8 :: "slider18 \<Rightarrow> vars18 \<times> int \<times> int \<times> int \<times> bool \<times> bool" where
  "frame8 s = (opts8 s, count8 s, cloneOffset8 s, controlNavLength8 s, b8_visible s, transitions8 s)"

definition motion8 :: "slider18 \<Rightarrow> bool \<times> int \<times> int \<times> real list \<times> real" where
  "motion8 s = (animating8 s, currentSlide8 s, animatingTo8 s, wrapups8 s, position8 s)"

lemma pause18_frame [simp]: "frame8 (pause18 s) = frame8 s" "motion8 (pause18 s) = motion8 s"
    "direction8 (pause18 s) = direction8 s" "slideWidth8 (pause18 s) = slideWidth8 s"
    "b8_slideHeight (pause18 s) = b8_slideHeight s"
  by (simp_all add: pause18_def frame8_def motion8_def Let_def)

lemma resume18_frame [simp]: "frame8 (resume18 s) = frame8 s" "motion8 (resume18 s) = motion8 s"
  by (simp_all add: resume18_def startInterval_def frame8_def motion8_def Let_def)

lemma markTarget18_frame [simp]:
  "frame8 (markTarget18 k s) = frame8 s" "motion8 (markTarget18 k s) = motion8 s"
  "direction8 (markTarget18 k s) = direction8 s" "slideWidth8 (markTarget18 k s) = slideWidth8 s"
  "b8_slideHeight (markTarget18 k s) = b8_slideHeight s" "timers8 (markTarget18 k s) = timers8 s"
  by (simp_all add: markTarget18_def frame8_def motion8_def Let_def)

lemma frame8_iff: "frame8 s' = frame8 s \<longleftrightarrow> opts8 s' = opts8 s \<and> count8 s' = count8 s \<and>
    cloneOffset8 s' = cloneOffset8 s \<and> controlNavLength8 s' = controlNavLength8 s \<and>
    b8_visible s' = b8_visible s \<and> transitions8 s' = transitions8 s"
  by (auto simp: frame8_def)

lemma motion8_iff: "motion8 s' = motion8 s \<longleftrightarrow> animating8 s' = animating8 s \<and>
    currentSlide8 s' = currentSlide8 s \<and> animatingTo8 s' = animatingTo8 s \<and>
    wrapups8 s' = wrapups8 s \<and> position8 s' = position8 s"
  by (auto simp: motion8_def)

section \<open>The invariant\<close>

definition slider18_ok :: "slider18 \<Rightarrow> bool" where
  "slider18_ok s \<longleftrightarrow> 0 \<le> currentSlide8 s \<and> currentSlide8 s < count8 s \<and>
     0 \<le> animatingTo8 s \<and> animatingTo8 s < count8 s \<and> controlNavLength8 s \<le> count8 s \<and>
     (wrapups8 s = [] \<longrightarrow> \<not> animating8 s \<and> animatingTo8 s = currentSlide8 s)"

lemma slider18_ok_cong:
  assumes "frame8 s' = frame8 s" "motion8 s' = motion8 s"
  shows "slider18_ok s' = slider18_ok s"
  using assms by (simp add: slider18_ok_def frame8_iff motion8_iff)

lemma setInMotion_frame [simp]: "frame8 (setInMotion k s) = frame8 s" "timers8 (setInMotion k s) = timers8 s"
  by (simp_all add: setInMotion_def frame8_def Let_def split: option.split)

lemma setInMotion_motion:
  "animating8 (setInMotion k s) = animating8 s" "currentSlide8 (setInMotion k s) = currentSlide8 s"
  "animatingTo8 (setInMotion k s) = animatingTo8 s"
  "position8 (setInMotion k s) = (if slides8 s then slideString18 s k (dimension18 s) else position8 s)"
  by (simp_all add: setInMotion_def Let_def split: option.split)

lemma setInMotion_wrapups:
  "0 \<le> k \<Longrightarrow> k < count8 s \<Longrightarrow>
    wrapups8 (setInMotion k s) = wrapups8 s @ [if slides8 s then dimension18 s else 0]"
  by (simp add: setInMotion_def eqIndex_def Let_def)

lemma slides8_cong: "frame8 s' = frame8 s \<Longrightarrow> slides8 s' = slides8 s"
  by (simp add: slides8_def frame8_iff)

text \<open>What \<open>flexAnimate\<close> does to a visible slider at rest.\<close>

definition started18 :: "int \<Rightarrow> bool \<Rightarrow> slider18 \<Rightarrow> slider18" where
  "started18 k b s =
     (let s1 = s\<lparr>animating8 := True, animatingTo8 := k, callbacks8 := callbacks8 s @ [Before8]\<rparr>;
          s3 = markTarget18 k (if b then pause18 s1 else s1)
      in if \<not> animationLoop8 (opts8 s3) \<and> k = count8 s3 - 1
         then (pause18 s3)\<lparr>callbacks8 := callbacks8 (pause18 s3) @ [End8]\<rparr> else s3)"

lemma flexAnimate18_started:
  "flexAnimate18 k b s = (if \<not> animating8 s \<and> b8_visible s then setInMotion k (started18 k b s) else s)"
  by (simp add: flexAnimate18_def started18_def Let_def)

lemma started18_fields [simp]:
  "frame8 (started18 k b s) = frame8 s" "animating8 (started18 k b s) = True"
  "currentSlide8 (started18 k b s) = currentSlide8 s" "animatingTo8 (started18 k b s) = k"
  "wrapups8 (started18 k b s) = wrapups8 s" "direction8 (started18 k b s) = direction8 s"
  "slideWidth8 (started18 k b s) = slideWidth8 s" "b8_slideHeight (started18 k b s) = b8_slideHeight s"
proof -
  let ?s1 = "s\<lparr>animating8 := True, animatingTo8 := k, callbacks8 := callbacks8 s @ [Before8]\<rparr>"
  let ?s3 = "markTarget18 k (if b then pause18 ?s1 else ?s1)"
  have f: "frame8 (s'\<lparr>callbacks8 := c\<rparr>) = frame8 s'" "motion8 (s'\<lparr>callbacks8 := c\<rparr>) = motion8 s'" for s' c
    by (simp_all add: frame8_def motion8_def)
  have "frame8 ?s1 = frame8 s" by (simp add: frame8_def)
  then have "frame8 ?s3 = frame8 s" "motion8 ?s3 = motion8 ?s1" by (cases b; simp)+
  then have "frame8 (started18 k b s) = frame8 s" "motion8 (started18 k b s) = motion8 ?s1"
    by (simp_all add: started18_def Let_def f)
  then show "frame8 (started18 k b s) = frame8 s" "animating8 (started18 k b s) = True"
    "currentSlide8 (started18 k b s) = currentSlide8 s" "animatingTo8 (started18 k b s) = k"
    "wrapups8 (started18 k b s) = wrapups8 s"
    by (simp_all add: motion8_iff)
  show "direction8 (started18 k b s) = direction8 s"
    "slideWidth8 (started18 k b s) = slideWidth8 s" "b8_slideHeight (started18 k b s) = b8_slideHeight s"
    by (simp_all add: started18_def Let_def)
qed

lemma flexAnimate18_ok:
  assumes "slider18_ok s" "0 \<le> k" "k < count8 s"
  shows "slider18_ok (flexAnimate18 k b s) \<and> frame8 (flexAnimate18 k b s) = frame8 s"
proof (cases "\<not> animating8 s \<and> b8_visible s")
  case True
  have f: "frame8 (setInMotion k (started18 k b s)) = frame8 s" "frame8 (started18 k b s) = frame8 s"
    by simp_all
  show ?thesis
    using True assms f [unfolded frame8_iff]
    by (simp add: flexAnimate18_started slider18_ok_def setInMotion_motion setInMotion_wrapups)
next
  case False
  with assms(1) show ?thesis by (auto simp: flexAnimate18_started)
qed

lemma wrapup18_fields:
  "frame8 (wrapup18 d s) = frame8 s" "animating8 (wrapup18 d s) = False"
  "currentSlide8 (wrapup18 d s) = animatingTo8 s" "animatingTo8 (wrapup18 d s) = animatingTo8 s"
  "wrapups8 (wrapup18 d s) = wrapups8 s" "timers8 (wrapup18 d s) = timers8 s"
  by (simp_all add: wrapup18_def frame8_def Let_def)

lemma wrapup18_ok: "slider18_ok s \<Longrightarrow> slider18_ok (wrapup18 d s) \<and> frame8 (wrapup18 d s) = frame8 s"
  using wrapup18_fields(1) [of d s, unfolded frame8_iff] by (simp add: slider18_ok_def wrapup18_fields)

text \<open>The part of the invariant that holds while completions are taken off the list.\<close>

definition in_range8 :: "slider18 \<Rightarrow> bool" where
  "in_range8 s \<longleftrightarrow> 0 \<le> currentSlide8 s \<and> currentSlide8 s < count8 s \<and>
     0 \<le> animatingTo8 s \<and> animatingTo8 s < count8 s \<and> controlNavLength8 s \<le> count8 s"

lemma slider18_in_range: "slider18_ok s \<Longrightarrow> in_range8 s"
  by (simp add: slider18_ok_def in_range8_def)

lemma wrapup18_in_range:
  assumes "in_range8 s"
  shows "slider18_ok (wrapup18 d s)"
  using assms wrapup18_fields(1) [of d s, unfolded frame8_iff]
  by (simp add: slider18_ok_def in_range8_def wrapup18_fields)

lemma wrapups_ok:
  "in_range8 s \<Longrightarrow> ds \<noteq> [] \<Longrightarrow> slider18_ok (fold wrapup18 ds s) \<and> frame8 (fold wrapup18 ds s) = frame8 s"
proof (induction ds arbitrary: s)
  case (Cons d ds)
  have ok: "slider18_ok (wrapup18 d s)" by (rule wrapup18_in_range [OF Cons.prems(1)])
  show ?case
  proof (cases ds)
    case Nil
    then show ?thesis using ok by (simp add: wrapup18_fields)
  next
    case (Cons d' ds')
    then show ?thesis using Cons.IH [OF slider18_in_range [OF ok]] by (simp add: wrapup18_fields)
  qed
qed simp

lemma animationDone_ok:
  assumes "slider18_ok s"
  shows "slider18_ok (animationDone s) \<and> frame8 (animationDone s) = frame8 s"
proof (cases "wrapups8 s")
  case Nil
  then have "s\<lparr>wrapups8 := []\<rparr> = s" by (cases s) simp
  with Nil have "animationDone s = s" by (simp only: animationDone_def fold.simps id_apply list.case if_cancel)
  with assms show ?thesis by simp
next
  case (Cons d ds)
  have f: "frame8 (s\<lparr>wrapups8 := x\<rparr>) = frame8 s" "in_range8 (s\<lparr>wrapups8 := x\<rparr>)" for x
    using slider18_in_range [OF assms] by (simp_all add: frame8_def in_range8_def)
  show ?thesis
    using wrapups_ok [OF f(2) , of "wrapups8 s" "[]"] wrapup18_in_range [OF f(2)] Cons
    by (simp add: animationDone_def wrapup18_fields f)
qed

lemma target18_range:
  "slider18_ok s \<Longrightarrow> 0 \<le> target18 dir s \<and> target18 dir s < count8 s"
  by (auto simp: target18_def slider18_ok_def)

section \<open>Every event\<close>

definition keeps18 :: "slider18 \<Rightarrow> slider18 \<Rightarrow> bool" where
  "keeps18 s s' \<longleftrightarrow> (slider18_ok s \<longrightarrow> slider18_ok s' \<and> frame8 s' = frame8 s)"

lemma keeps18_refl [simp]: "keeps18 s s"
  by (simp add: keeps18_def)

lemma keeps18_trans: "keeps18 s s' \<Longrightarrow> keeps18 s' s'' \<Longrightarrow> keeps18 s s''"
  by (simp add: keeps18_def)

lemma keeps18_motion: "frame8 s' = frame8 s \<Longrightarrow> motion8 s' = motion8 s \<Longrightarrow> keeps18 s s'"
  using slider18_ok_cong [of s' s] by (simp add: keeps18_def)

lemma keeps18_flexAnimate: "0 \<le> k \<Longrightarrow> k < count8 s \<Longrightarrow> keeps18 s (flexAnimate18 k b s)"
  using flexAnimate18_ok by (simp add: keeps18_def)

lemma keeps18_animationDone: "keeps18 s (animationDone s)"
  using animationDone_ok by (simp add: keeps18_def)

lemma frame8_updates [simp]:
  "frame8 (s\<lparr>direction8 := d\<rparr>) = frame8 s" "frame8 (s\<lparr>touchState8 := t\<rparr>) = frame8 s"
  "frame8 (s\<lparr>position8 := x\<rparr>) = frame8 s" "frame8 (s\<lparr>manualPause8 := m\<rparr>) = frame8 s"
  "frame8 (s\<lparr>animating8 := m\<rparr>) = frame8 s" "frame8 (s\<lparr>b8_width := x\<rparr>) = frame8 s"
  "frame8 (s\<lparr>b8_slideHeight := x\<rparr>) = frame8 s" "frame8 (s\<lparr>height8 := x\<rparr>) = frame8 s"
  "frame8 (s\<lparr>slideWidth8 := x\<rparr>) = frame8 s" "frame8 (s\<lparr>resizing8 := r\<rparr>) = frame8 s"
  by (simp_all add: frame8_def)

lemma slider18_ok_updates [simp]:
  "slider18_ok (s\<lparr>direction8 := d\<rparr>) = slider18_ok s" "slider18_ok (s\<lparr>touchState8 := t\<rparr>) = slider18_ok s"
  "slider18_ok (s\<lparr>position8 := x\<rparr>) = slider18_ok s" "slider18_ok (s\<lparr>manualPause8 := m\<rparr>) = slider18_ok s"
  "slider18_ok (s\<lparr>b8_width := x\<rparr>) = slider18_ok s" "slider18_ok (s\<lparr>b8_slideHeight := x\<rparr>) = slider18_ok s"
  "slider18_ok (s\<lparr>height8 := x\<rparr>) = slider18_ok s" "slider18_ok (s\<lparr>slideWidth8 := x\<rparr>) = slider18_ok s"
  "slider18_ok (s\<lparr>resizing8 := r\<rparr>) = slider18_ok s"
  by (simp_all add: slider18_ok_def)

lemma keeps18_target: "keeps18 s (flexAnimate18 (target18 dir s) b (s\<lparr>direction8 := d\<rparr>))"
  using target18_range [of s dir] flexAnimate18_ok [of "s\<lparr>direction8 := d\<rparr>" "target18 dir s" b]
  by (simp add: keeps18_def)

lemma keeps18_advance: "keeps18 s (advance18 dir s)"
  using keeps18_target [of s dir] by (auto simp: advance18_def getTarget18_def keeps18_def)

lemma keeps18_clickControl:
  "0 \<le> k \<Longrightarrow> k < controlNavLength8 s \<Longrightarrow> keeps18 s (clickControl18 k s)"
  using flexAnimate18_ok [of "s\<lparr>direction8 := d\<rparr>" k for d]
  by (auto simp: clickControl18_def keeps18_def slider18_ok_def)

lemma keeps18_animateSlides: "keeps18 s (animateSlides18 s)"
  using keeps18_target by (simp add: animateSlides18_def getTarget18_def)

lemma keeps18_touchStart: "keeps18 s (touchStart18 n x y t s)"
  using slider18_ok_cong [OF pause18_frame(1,2)]
  by (simp add: touchStart18_def keeps18_def Let_def)

lemma keeps18_touchMove: "keeps18 s (touchMove18 x y s)"
  by (simp add: touchMove18_def keeps18_def Let_def)

text \<open>The end of a touch clears \<open>animating\<close>, also when an animation has begun meanwhile.\<close>

lemma slider18_ok_halted: "slider18_ok s \<Longrightarrow> slider18_ok (s\<lparr>animating8 := False\<rparr>)"
  by (simp add: slider18_ok_def)

lemma keeps18_touchEnd: "keeps18 s (touchEnd18 t s)"
proof -
  have f: "slider18_ok s \<Longrightarrow> slider18_ok s' \<Longrightarrow> frame8 s' = frame8 s \<Longrightarrow>
      slider18_ok (s'\<lparr>touchState8 := x\<rparr>) \<and> frame8 (s'\<lparr>touchState8 := x\<rparr>) = frame8 s" for s' x
    by simp
  let ?h = "s\<lparr>animating8 := False\<rparr>"
  have "keeps18 s (flexAnimate18 (target18 dir ?h) b (?h\<lparr>direction8 := d\<rparr>))" for dir b d
    using keeps18_target [of ?h dir b d] slider18_ok_halted [of s] by (simp add: keeps18_def)
  moreover have "keeps18 s (flexAnimate18 (currentSlide8 s) b (?h\<lparr>direction8 := d\<rparr>))" for b d
    using flexAnimate18_ok [of "?h\<lparr>direction8 := d\<rparr>" "currentSlide8 s" b] slider18_ok_halted [of s]
    by (auto simp: keeps18_def slider18_ok_def)
  moreover have "keeps18 s ?h" "keeps18 s (?h\<lparr>direction8 := d\<rparr>)" for d
    using slider18_ok_halted [of s] by (simp_all add: keeps18_def)
  moreover have "keeps18 s (s'\<lparr>touchState8 := x\<rparr>) = keeps18 s s'" for s' x
    by (simp add: keeps18_def)
  ultimately show ?thesis
    by (simp add: touchEnd18_def getTarget18_def Let_def split: dx.split)
qed

lemma keeps18_pause: "keeps18 s (pause18 s)" and keeps18_resume: "keeps18 s (resume18 s)"
  by (simp_all add: keeps18_motion)

lemma keeps18_clickPausePlay: "keeps18 s (clickPausePlay18 s)"
  using keeps18_pause [of s] keeps18_resume [of s] by (simp add: clickPausePlay18_def keeps18_def)

definition event_ok :: "event18 \<Rightarrow> slider18 \<Rightarrow> bool" where
  "event_ok e s \<longleftrightarrow> (case e of ControlClick k \<Rightarrow> 0 \<le> k \<and> k < controlNavLength8 s | _ \<Rightarrow> True)"

lemma handle18_ok: "event_ok e s \<Longrightarrow> keeps18 s (handle18 e s)"
proof (cases e)
  case (Resized x y)
  then show ?thesis by (simp add: resize18_def keeps18_def)
next
  case SetupDue
  then show ?thesis by (simp add: setupTimeout18_def keeps18_def split: option.split)
qed (auto simp: event_ok_def keeps18_clickControl keeps18_advance keyboardMove_def keeps18_pause
    keeps18_resume keeps18_clickPausePlay keeps18_animateSlides keeps18_animationDone
    keeps18_touchStart keeps18_touchMove keeps18_touchEnd)

lemma handle18_all_ok:
  assumes "slider18_ok s" "\<forall>e \<in> set es. event_ok e s"
  shows "slider18_ok (fold handle18 es s) \<and> frame8 (fold handle18 es s) = frame8 s"
  using assms
proof (induction es arbitrary: s)
  case (Cons e es)
  then have h: "slider18_ok (handle18 e s)" "frame8 (handle18 e s) = frame8 s"
    using handle18_ok [of e s] by (simp_all add: keeps18_def)
  have "event_ok e' (handle18 e s) = event_ok e' s" for e'
    using h(2) by (simp add: event_ok_def frame8_iff split: event18.split)
  then show ?case using Cons.IH [OF h(1)] Cons.prems(2) h(2) by simp
qed simp

section \<open>Starting\<close>

lemma setupAnimation_fields:
  "opts8 (setupAnimation s) = opts8 s" "count8 (setupAnimation s) = count8 s"
  "controlNavLength8 (setupAnimation s) = controlNavLength8 s" "animating8 (setupAnimation s) = animating8 s"
  "currentSlide8 (setupAnimation s) = currentSlide8 s" "animatingTo8 (setupAnimation s) = animatingTo8 s"
  "wrapups8 (setupAnimation s) = wrapups8 s"
  by (simp_all add: setupAnimation_def Let_def)

lemma setupControls_fields:
  "opts8 (setupControls s) = opts8 s" "count8 (setupControls s) = count8 s"
  "controlNavLength8 (setupControls s) = (if controlNav8 (opts8 s)
     then if 0 < manualControls8 (opts8 s) then manualControls8 (opts8 s) else count8 s
     else controlNavLength8 s)" "animating8 (setupControls s) = animating8 s"
  "currentSlide8 (setupControls s) = currentSlide8 s" "animatingTo8 (setupControls s) = animatingTo8 s"
  "wrapups8 (setupControls s) = wrapups8 s"
  by (simp_all add: setupControls_def Let_def)

lemma init18_ok:
  assumes "0 < n" "0 \<le> slideToStart8 v" "slideToStart8 v < n" "manualControls8 v \<le> n"
  shows "slider18_ok (init18 (newSlider18 v wd ht sw vis tch wk only n))"
proof -
  define s where "s = newSlider18 v wd ht sw vis tch wk only n"
  have n: "opts8 s = v" "count8 s = n" "controlNavLength8 s = 0" "\<not> animating8 s"
    "currentSlide8 s = slideToStart8 v" "animatingTo8 s = slideToStart8 v" "wrapups8 s = []"
    by (simp_all add: s_def newSlider18_def)
  have "slider18_ok (setupControls (setupAnimation s))"
    using assms by (simp add: slider18_ok_def setupControls_fields setupAnimation_fields n)
  then have "slider18_ok (init18 s)"
    by (simp add: slider18_ok_def init18_def startInterval_def Let_def)
  then show ?thesis by (simp add: s_def)
qed

section \<open>Where an animation ends\<close>

definition rest18 :: "slider18 \<Rightarrow> bool" where
  "rest18 s \<longleftrightarrow> slider18_ok s \<and> wrapups8 s = [] \<and> b8_visible s"

lemma rest18_still: "rest18 s \<Longrightarrow> \<not> animating8 s"
  by (simp add: rest18_def slider18_ok_def)

lemma animationDone_single:
  "wrapups8 s = [d] \<Longrightarrow> animationDone s = wrapup18 d (s\<lparr>wrapups8 := []\<rparr>)"
  by (simp add: animationDone_def)

lemma wrapups8_update [simp]: "frame8 (s\<lparr>wrapups8 := ds\<rparr>) = frame8 s"
  by (simp add: frame8_def)

definition landed18 :: "int \<Rightarrow> bool \<Rightarrow> slider18 \<Rightarrow> slider18" where
  "landed18 k b s = wrapup18 (if slides8 s then dimension18 s else 0)
     ((setInMotion k (started18 k b s))\<lparr>wrapups8 := []\<rparr>)"

lemma animationDone_flexAnimate18:
  assumes "rest18 s" "0 \<le> k" "k < count8 s"
  shows "animationDone (flexAnimate18 k b s) = landed18 k b s"
proof -
  let ?s = "setInMotion k (started18 k b s)"
  have fa: "flexAnimate18 k b s = ?s"
    using assms rest18_still [OF assms(1)] by (simp add: flexAnimate18_started rest18_def)
  have f: "opts8 (started18 k b s) = opts8 s" "count8 (started18 k b s) = count8 s"
    using started18_fields(1) [of k b s, unfolded frame8_iff] by blast+
  have "wrapups8 ?s = [if slides8 s then dimension18 s else 0]"
    using assms f by (simp add: setInMotion_wrapups slides8_def dimension18_def rest18_def)
  from animationDone_single [OF this] show ?thesis by (simp add: fa landed18_def)
qed

lemma landed18_rest:
  assumes "rest18 s" "0 \<le> k" "k < count8 s"
  shows "rest18 (landed18 k b s) \<and> frame8 (landed18 k b s) = frame8 s \<and> currentSlide8 (landed18 k b s) = k"
proof -
  have "slider18_ok (flexAnimate18 k b s)" "frame8 (flexAnimate18 k b s) = frame8 s"
    using flexAnimate18_ok [of s k b] assms by (simp_all add: rest18_def)
  then have l: "slider18_ok (landed18 k b s)" "frame8 (landed18 k b s) = frame8 s"
    using animationDone_ok [of "flexAnimate18 k b s"] animationDone_flexAnimate18 [OF assms, of b]
    by simp_all
  moreover have "wrapups8 (landed18 k b s) = []" "currentSlide8 (landed18 k b s) = k"
    by (simp_all add: landed18_def wrapup18_fields setInMotion_motion)
  moreover have "b8_visible (landed18 k b s) = b8_visible s" using l(2) by (simp add: frame8_iff)
  ultimately show ?thesis using assms(1) by (simp add: rest18_def)
qed

lemma landed18_position:
  assumes "rest18 s" "0 \<le> k" "k < count8 s" "animation8 (opts8 s) = ''slide''"
    "cloneOffset8 s = (if animationLoop8 (opts8 s) then 1 else 0)"
  shows "position8 (landed18 k b s) = - real_of_int (k + cloneOffset8 s) * dimension18 s"
proof -
  have sl: "slides8 s" using assms(4) by (simp add: slides8_def lowerCase_def)
  define s1 where "s1 = (setInMotion k (started18 k b s))\<lparr>wrapups8 := []\<rparr>"
  have f: "opts8 (started18 k b s) = opts8 s" "count8 (started18 k b s) = count8 s"
    "cloneOffset8 (started18 k b s) = cloneOffset8 s"
    using started18_fields(1) [of k b s, unfolded frame8_iff] by blast+
  have f1: "opts8 s1 = opts8 s" "count8 s1 = count8 s"
    using setInMotion_frame(1) [of k "started18 k b s", unfolded frame8_iff] f by (simp_all add: s1_def)
  have "slideString18 (started18 k b s) k d = slideString18 s k d" for d
    by (simp only: slideString18_def f started18_fields)
  moreover have "dimension18 (started18 k b s) = dimension18 s" "slides8 (started18 k b s)"
    using sl by (simp_all add: dimension18_def slides8_def f)
  ultimately have m: "currentSlide8 s1 = currentSlide8 s" "animatingTo8 s1 = k"
    "position8 s1 = slideString18 s k (dimension18 s)"
    by (simp_all add: s1_def setInMotion_motion)
  have p: "position8 (wrapup18 d s1) = (if currentSlide8 s = 0 \<and> k = count8 s - 1 \<and> animationLoop8 (opts8 s)
      then - real_of_int (count8 s) * d
      else if currentSlide8 s = count8 s - 1 \<and> k = 0 \<and> animationLoop8 (opts8 s) then - d
      else slideString18 s k (dimension18 s))" for d
    using assms(4) by (simp add: wrapup18_def f1 m)
  show ?thesis
    using assms(5) by (auto simp: landed18_def sl p slideString18_def s1_def [symmetric])
qed

section \<open>The slideshow\<close>

definition looping18 :: "nat \<Rightarrow> slider18 \<Rightarrow> bool" where
  "looping18 t s \<longleftrightarrow> rest18 s \<and> animationLoop8 (opts8 s) \<and> t \<in> set (timers8 s)"

definition round18 :: "nat \<Rightarrow> slider18 \<Rightarrow> slider18 option" where
  "round18 t s = Some (fold handle18 [Tick t, AnimationDone] s)"

lemma round18_landed:
  assumes "looping18 t s"
  shows "round18 t s = Some (landed18 (target18 Next s) False (s\<lparr>direction8 := Some Next\<rparr>))"
proof -
  have r: "rest18 s" using assms by (simp add: looping18_def)
  have "rest18 (s\<lparr>direction8 := Some Next\<rparr>)" using r by (simp add: rest18_def)
  moreover have "0 \<le> target18 Next s" "target18 Next s < count8 (s\<lparr>direction8 := Some Next\<rparr>)"
    using r target18_range [of s Next] by (simp_all add: rest18_def)
  ultimately show ?thesis using animationDone_flexAnimate18 [of "s\<lparr>direction8 := Some Next\<rparr>" "target18 Next s" False]
    using assms rest18_still [OF r]
    by (simp add: round18_def looping18_def animateSlides18_def getTarget18_def)
qed

lemma landed18_timers:
  assumes "animationLoop8 (opts8 s)"
  shows "timers8 (landed18 k False s) = timers8 s"
proof -
  have "opts8 (markTarget18 k (s\<lparr>animating8 := True, animatingTo8 := k, callbacks8 := c\<rparr>)) = opts8 s" for c
    using markTarget18_frame(1) [of k "s\<lparr>animating8 := True, animatingTo8 := k, callbacks8 := c\<rparr>",
      unfolded frame8_iff] by simp
  then show ?thesis
    using assms by (simp add: landed18_def wrapup18_fields started18_def Let_def)
qed

interpretation v18: slideshow "looping18 t" "round18 t" currentSlide8 count8 for t
proof
  fix s
  assume l: "looping18 t s"
  then have ok: "slider18_ok s" and r: "rest18 (s\<lparr>direction8 := Some Next\<rparr>)"
    by (simp_all add: looping18_def rest18_def)
  show "0 \<le> currentSlide8 s \<and> currentSlide8 s < count8 s" using ok by (simp add: slider18_ok_def)
  define s' where "s' = landed18 (target18 Next s) False (s\<lparr>direction8 := Some Next\<rparr>)"
  have "rest18 s' \<and> frame8 s' = frame8 (s\<lparr>direction8 := Some Next\<rparr>) \<and> currentSlide8 s' = target18 Next s"
    unfolding s'_def by (rule landed18_rest [OF r]) (use target18_range [OF ok] in simp_all)
  moreover have "timers8 s' = timers8 s"
    using l landed18_timers [of "s\<lparr>direction8 := Some Next\<rparr>"] by (simp add: s'_def looping18_def)
  ultimately show "\<exists>s'. round18 t s = Some s' \<and> looping18 t s' \<and> count8 s' = count8 s \<and>
      currentSlide8 s' = (if currentSlide8 s = count8 s - 1 then 0 else currentSlide8 s + 1)"
    using l round18_landed [OF l] by (simp add: looping18_def frame8_iff s'_def target18_def)
qed

end
