(* ===== verification/FlexSlider18_Properties.thy ===== *)
theory FlexSlider18_Properties
  imports FlexSlider18_Correct FlexSlider_Properties
begin

text \<open>
  The properties of the older slider plugin: its invariant, where its animations end, and its
  slideshow against that of the version the pages use.
\<close>

section \<open>The two versions\<close>

interpretation versions: slideshow_pair "looping i t" "roundOf n i t" "slideAt i" "slideCount i"
    "looping18 t'" "round18 t'" currentSlide8 count8
  for i t n t'
  by unfold_locales

section \<open>A slider to run\<close>

definition demoSlider18 :: slider18 where
  "demoSlider18 = handle18 SetupDue (init18 (newSlider18 (defaults18\<lparr>pausePlay8 := True, pauseOnHover8 := True\<rparr>)
     960 400 300 True False True True 3))"

lemma demo18_fields:
  "opts8 demoSlider18 = defaults18\<lparr>pausePlay8 := True, pauseOnHover8 := True\<rparr>"
  "count8 demoSlider18 = 3" "currentSlide8 demoSlider18 = 0" "animatingTo8 demoSlider18 = 0"
  "\<not> animating8 demoSlider18" "wrapups8 demoSlider18 = []" "b8_visible demoSlider18"
  "controlNavLength8 demoSlider18 = 3" "cloneOffset8 demoSlider18 = 1" "timers8 demoSlider18 = [0]"
  "animatedSlides8 demoSlider18 = Some 0" "nextTimer8 demoSlider18 = 1" "manualPause8 demoSlider18 = False"
  by code_simp+

lemma demo18_rest: "rest18 demoSlider18"
  by (simp add: rest18_def slider18_ok_def demo18_fields)

section \<open>Properties\<close>



text \<open>
  C27: An animation of the older slider ends at the slide it was asked for, in either direction
  and over either end: with \<open>animation\<close> \<open>slide\<close> the container then stands at the slide's own
  place, not at the clone it may have run to.
\<close>

theorem old_slider_lands:
  assumes "rest18 s" "0 \<le> k" "k < count8 s" "animation8 (opts8 s) = ''slide''"
    "cloneOffset8 s = (if animationLoop8 (opts8 s) then 1 else 0)"
    "s' = animationDone (flexAnimate18 k pauseIt s)"
  shows "rest18 s' \<and> currentSlide8 s' = k \<and>
    position8 s' = - real_of_int (k + cloneOffset8 s) * dimension18 s"
  using landed18_rest [OF assms(1-3)] landed18_position [OF assms(1-5)]
  by (simp add: assms(6) animationDone_flexAnimate18 [OF assms(1-3)])

theorem old_slider_lands_witness:
  "rest18 (animationDone (flexAnimate18 2 True demoSlider18)) \<and>
    currentSlide8 (animationDone (flexAnimate18 2 True demoSlider18)) = 2 \<and>
    position8 (animationDone (flexAnimate18 2 True demoSlider18))
      = - real_of_int (2 + cloneOffset8 demoSlider18) * dimension18 demoSlider18"
  by (rule old_slider_lands [OF demo18_rest _ _ _ _ refl])
    (simp_all add: demo18_fields defaults18_def)

text \<open>
  C28: The two versions of the plugin show the same slideshow. A looping slider of each, with as
  many slides and at the same one, shows the same slide after every number of rounds of interval
  tick and end of animation.
\<close>

theorem versions_agree:
  assumes "alone i p s" "v_animationLoop (opts s)" "map_of (timers p) t = Some i"
    and "rest18 s8" "animationLoop8 (opts8 s8)" "t' \<in> set (timers8 s8)"
    and "count8 s8 = count s" "currentSlide8 s8 = currentSlide s"
  shows "\<exists>q s' s8'. run_rounds (roundOf n i t) m p = Some q \<and> sliders q i = Some s' \<and>
    run_rounds (round18 t') m s8 = Some s8' \<and> currentSlide8 s8' = currentSlide s'"
proof -
  have l: "looping i t p" "sliders p i = Some s" using assms(1-3) by (simp_all add: looping_def alone_def)
  have l8: "looping18 t' s8" using assms(4-6) by (simp add: looping18_def)
  have eq: "slideAt i p = currentSlide8 s8" "slideCount i p = count8 s8"
    using l(2) assms(7,8) by (simp_all add: slideAt_def slideCount_def)
  obtain q s8' where q: "run_rounds (roundOf n i t) m p = Some q" "run_rounds (round18 t') m s8 = Some s8'"
    "slideAt i q = currentSlide8 s8'"
    using versions.rounds_agree [OF l(1) l8 eq, of n m] by blast
  obtain q' where "run_rounds (roundOf n i t) m p = Some q'" "looping i t q'"
    using v21.rounds_index [OF l(1), of n m] by blast
  then obtain s' where "sliders q i = Some s'" using q(1) by (auto elim: loopingE)
  then show ?thesis using q by (auto simp: slideAt_def)
qed

theorem versions_agree_witness:
  "\<exists>q s' s8'. run_rounds (roundOf 0 0 0) 7 (demoPage slideOpts) = Some q \<and> sliders q 0 = Some s' \<and>
    run_rounds (round18 0) 7 demoSlider18 = Some s8' \<and> currentSlide8 s8' = currentSlide s'"
  by (rule versions_agree [where s = "demoSlider slideOpts"])
    (simp_all add: demo_alone slideOpts_def demo18_rest demo18_fields defaults18_def)

section \<open>Where the older version goes wrong\<close>

text \<open>
  A visitor who stops the slideshow by hovering, starts it with the play button and leaves has two
  intervals running: \<open>resume\<close> does not clear the one it replaces. The pause button then stops one
  of them and the slides go on.
\<close>

theorem hover_and_play_leak_interval:
  assumes "slideshow8 (opts8 s)" "pauseOnHover8 (opts8 s)" "pausePlay8 (opts8 s)"
    "timers8 s = [t]" "animatedSlides8 s = Some t" "t < nextTimer8 s"
    "s' = fold handle18 [HoverEnter, PausePlayClick, HoverLeave, PausePlayClick] s"
  shows "playButton8 s' = PlayButton \<and> manualPause8 s' \<and> timers8 s' = [nextTimer8 s]"
  using assms by (simp add: pause18_def clickPausePlay18_def resume18_def startInterval_def)

theorem hover_and_play_leak_interval_witness:
  "playButton8 (fold handle18 [HoverEnter, PausePlayClick, HoverLeave, PausePlayClick] demoSlider18) = PlayButton \<and>
   manualPause8 (fold handle18 [HoverEnter, PausePlayClick, HoverLeave, PausePlayClick] demoSlider18) \<and>
   timers8 (fold handle18 [HoverEnter, PausePlayClick, HoverLeave, PausePlayClick] demoSlider18)
     = [nextTimer8 demoSlider18]"
  by (rule hover_and_play_leak_interval [OF _ _ _ _ _ _ refl])
    (simp_all add: demo18_fields defaults18_def)

text \<open>
  Only \<open>wrapup\<close> and the touch handler compare \<open>animation\<close> without \<open>toLowerCase\<close>: with \<open>Slide\<close> the
  slider slides, but after the step from the last slide to the first it stays at the clone.
\<close>

theorem capital_slide_stays_at_clone:
  assumes "rest18 s" "animation8 (opts8 s) = ''Slide''" "animationLoop8 (opts8 s)" "1 < count8 s"
    "currentSlide8 s = count8 s - 1" "direction8 s = Some Next"
    "s' = animationDone (flexAnimate18 0 pauseIt s)"
  shows "currentSlide8 s' = 0 \<and> position8 s' = - real_of_int (count8 s + 1) * dimension18 s"
proof -
  let ?s = "started18 0 pauseIt s"
  have f: "opts8 ?s = opts8 s" "count8 ?s = count8 s" "cloneOffset8 ?s = cloneOffset8 s"
    using started18_fields(1) [of 0 pauseIt s, unfolded frame8_iff] by blast+
  have "lowerCase ''Slide'' = ''slide''" by code_simp
  then have sl: "slides8 s" using assms(2) by (simp add: slides8_def)
  have "slideString18 ?s 0 d = - real_of_int (count8 s + 1) * d" for d
    using assms(3-6) by (simp add: slideString18_def f)
  moreover have "dimension18 ?s = dimension18 s" "slides8 ?s"
    using sl by (simp_all add: dimension18_def slides8_def f)
  moreover have "opts8 ((setInMotion 0 ?s)\<lparr>wrapups8 := []\<rparr>) = opts8 s"
    using setInMotion_frame(1) [of 0 ?s, unfolded frame8_iff] f by simp
  ultimately have "position8 (landed18 0 pauseIt s) = - real_of_int (count8 s + 1) * dimension18 s"
    using assms(2) by (simp add: landed18_def wrapup18_def setInMotion_motion)
  moreover have "currentSlide8 (landed18 0 pauseIt s) = 0"
    using landed18_rest [OF assms(1), of 0 pauseIt] assms(4) by simp
  ultimately show ?thesis using animationDone_flexAnimate18 [OF assms(1), of 0 pauseIt] assms(4) by (simp add: assms(7))
qed

end
